(* ===== verification/Api_Error.thy ===== *)
theory Api_Error
  imports Prelude
begin

text \<open>
  The errors of \<open>r3v3rs3-api/src/error.rs\<close> that the modelled validations raise, and the HTTP status
  that the admin API answers with.  A Rust \<open>Result<T, Error>\<close> is \<open>T result\<close>: \<^term>\<open>Inl e\<close> is \<open>Err(e)\<close>
  and \<^term>\<open>Inr v\<close> is \<open>Ok(v)\<close>.  The enum has many more variants, which belong to parts of the program
  that the development does not model; all of the variants listed here share the default status.
\<close>

datatype api_error =
    InvalidSubjectName string
  | InvalidVirtualHost string
  | InvalidCidr string
  | InvalidUsername string
  | InvalidHeaderName string
  | ProtectedHeader string
  | InvalidHeaderValue string
  | InvalidHeaderRule string
  | InvalidMimeType string
  | DuplicateCompressionAlgorithm string
  | InvalidCacheSize
  | InvalidTimeout
  | InvalidDatagramSize
  | InvalidHealthCheckPath string
  | InvalidHealthCheckInterval
  | AllServersDrained
  | InvalidCircuitBreaker
  | InvalidRetryAttempts
  | InvalidHttpLimits string nat nat
  | InvalidDisplayTimezone string
  | InvalidStickyCookieName string
  | InvalidPathRegex string
  | InvalidPathPrefix string
  | InvalidRedirectRule string
  | InvalidRedirectStatus nat
  | InvalidRedirectTarget string
  | InvalidMirrorPercent nat
  | ProxyProtocolNotSupported
  | ProxyProtocolTrustedMissing
  | InvalidFilePath string

type_synonym 'a result = "api_error + 'a"

text \<open>The \<open>?\<close> operator of Rust on a \<open>Result\<close>.\<close>

definition try_then :: "'e + 'a \<Rightarrow> ('a \<Rightarrow> 'e + 'b) \<Rightarrow> 'e + 'b" where
  "try_then r f = (case r of Inl e \<Rightarrow> Inl e | Inr v \<Rightarrow> f v)"

definition is_ok :: "'e + 'a \<Rightarrow> bool" where
  "is_ok r = (case r of Inl _ \<Rightarrow> False | Inr _ \<Rightarrow> True)"

lemma try_then_simps [simp]: "try_then (Inl e) f = Inl e" "try_then (Inr v) f = f v"
  by (simp_all add: try_then_def)

lemma is_ok_simps [simp]: "is_ok (Inl e) = False" "is_ok (Inr v) = True"
  by (simp_all add: is_ok_def)

lemma is_ok_try_then: "is_ok (try_then r f) \<longleftrightarrow> (\<exists>v. r = Inr v \<and> is_ok (f v))"
  by (cases r) auto

lemma is_ok_unit: "is_ok (r :: 'e + unit) \<longleftrightarrow> r = Inr ()"
  by (cases r) auto

end
