(* ===== verification/Circuit.thy ===== *)
theory Circuit
  imports Api_Error
begin

text \<open>
  The circuit breaker of one upstream server: \<open>Circuit\<close> and \<open>Breaker\<close> of
  \<open>proxy/health.rs\<close>, with its configuration \<open>CircuitBreaker\<close> and the reported
  \<open>CircuitState\<close> of \<open>r3v3rs3-api/src/upstream.rs\<close>.

  A \<open>&mut self\<close> method is a function that returns the new breaker.  The second half of the
  theory specifies the breaker by the outcomes of the requests of the current window and shows
  that the counters refine this specification.
\<close>

section \<open>Data\<close>

record circuit_breaker =
  cb_enabled :: bool
  cb_failure_ratio :: nat
  cb_min_requests :: nat
  cb_window :: duration
  cb_open_duration :: duration

datatype circuit_state = StClosed | StOpen | StHalfOpen

datatype circuit = Closed | Open instant | HalfOpen bool

record breaker =
  br_circuit :: circuit
  br_window_start :: "instant option"
  br_requests :: nat
  br_failures :: nat

definition breaker_default :: breaker where
  "breaker_default = \<lparr>br_circuit = Closed, br_window_start = None, br_requests = 0, br_failures = 0\<rparr>"

text \<open>The defaults of \<open>r3v3rs3-api/src/upstream.rs\<close>: 50 percent of at least 20 requests in 10
  seconds open the circuit for 30 seconds.\<close>

definition circuit_breaker_default :: circuit_breaker where
  "circuit_breaker_default = \<lparr>cb_enabled = False, cb_failure_ratio = 50, cb_min_requests = 20,
     cb_window = 10 * 1000000000, cb_open_duration = 30 * 1000000000\<rparr>"

section \<open>Operations\<close>

definition cb_validate :: "circuit_breaker \<Rightarrow> unit result" where
  "cb_validate c =
     (let valid = 1 \<le> cb_failure_ratio c \<and> cb_failure_ratio c \<le> 100 \<and>
        0 < cb_min_requests c \<and> cb_window c \<noteq> 0 \<and> cb_open_duration c \<noteq> 0
      in if valid then Inr () else Inl InvalidCircuitBreaker)"

lemma cb_validate_ok: "is_ok (cb_validate c) \<longleftrightarrow> 1 \<le> cb_failure_ratio c \<and> cb_failure_ratio c \<le> 100 \<and>
     0 < cb_min_requests c \<and> cb_window c \<noteq> 0 \<and> cb_open_duration c \<noteq> 0"
  by (simp add: cb_validate_def)

definition blocks :: "breaker \<Rightarrow> instant \<Rightarrow> bool" where
  "blocks b now = (case br_circuit b of
       Closed \<Rightarrow> False
     | HalfOpen trial \<Rightarrow> trial
     | Open until \<Rightarrow> now < until)"

definition admit :: "breaker \<Rightarrow> instant \<Rightarrow> bool option \<times> breaker" where
  "admit b now =
     (if blocks b now then (None, b)
      else if br_circuit b = Closed then (Some False, b)
      else (Some True, b\<lparr>br_circuit := HalfOpen True\<rparr>))"

definition breaker_count :: "breaker \<Rightarrow> duration \<Rightarrow> bool \<Rightarrow> instant \<Rightarrow> breaker" where
  "breaker_count b window failed now =
     (let b1 = (if (case br_window_start b of None \<Rightarrow> True | Some start \<Rightarrow> now - start \<ge> window)
                then b\<lparr>br_window_start := Some now, br_requests := 0, br_failures := 0\<rparr>
                else b);
          b2 = b1\<lparr>br_requests := sat_add_u32 (br_requests b1) 1\<rparr>
      in if failed then b2\<lparr>br_failures := sat_add_u32 (br_failures b2) 1\<rparr> else b2)"

definition open_breaker :: "circuit_breaker \<Rightarrow> instant \<Rightarrow> breaker" where
  "open_breaker config now =
     breaker_default\<lparr>br_circuit := Open (now + cb_open_duration config)\<rparr>"

definition finish_trial ::
    "breaker \<Rightarrow> circuit_breaker \<Rightarrow> bool \<Rightarrow> instant \<Rightarrow> circuit_state option \<times> breaker" where
  "finish_trial b config failed now =
     (case br_circuit b of
        HalfOpen _ \<Rightarrow>
          (if failed then (Some StOpen, open_breaker config now)
           else (Some StClosed, breaker_default))
      | _ \<Rightarrow> (None, b))"

definition record_result ::
    "breaker \<Rightarrow> circuit_breaker \<Rightarrow> bool \<Rightarrow> bool \<Rightarrow> instant \<Rightarrow> circuit_state option \<times> breaker" where
  "record_result b config trial failed now =
     (if trial then finish_trial b config failed now
      else if br_circuit b \<noteq> Closed then (None, b)
      else
        let b1 = breaker_count b (cb_window config) failed now;
            ratio = br_failures b1 * 100;
            limit = cb_failure_ratio config * br_requests b1
        in if br_requests b1 < cb_min_requests config \<or> ratio < limit then (None, b1)
           else (Some StOpen, open_breaker config now))"

definition release_trial :: "breaker \<Rightarrow> breaker" where
  "release_trial b = (if br_circuit b = HalfOpen True then b\<lparr>br_circuit := HalfOpen False\<rparr> else b)"

definition circuit_state_of :: "breaker \<Rightarrow> circuit_state" where
  "circuit_state_of b = (case br_circuit b of
      Closed \<Rightarrow> StClosed | Open _ \<Rightarrow> StOpen | HalfOpen _ \<Rightarrow> StHalfOpen)"

lemmas breaker_defs =
  blocks_def admit_def breaker_count_def open_breaker_def finish_trial_def record_result_def
  release_trial_def breaker_default_def

section \<open>The counters of a window\<close>

text \<open>The type invariant: the counters fit \<open>u32\<close>, and no more failures than requests.\<close>

definition breaker_wf :: "breaker \<Rightarrow> bool" where
  "breaker_wf b \<longleftrightarrow> br_failures b \<le> br_requests b \<and> br_requests b \<le> u32_max \<and>
     (br_circuit b \<noteq> Closed \<longrightarrow> br_window_start b = None \<and> br_requests b = 0)"

lemma breaker_wf_default [simp]: "breaker_wf breaker_default"
  by (simp add: breaker_wf_def breaker_default_def)

lemma breaker_wf_open [simp]: "breaker_wf (open_breaker config now)"
  by (simp add: breaker_wf_def breaker_defs)

lemma br_circuit_breaker_count [simp]: "br_circuit (breaker_count b w f now) = br_circuit b"
  by (simp add: breaker_count_def Let_def)

lemma breaker_wf_count: "breaker_wf b \<Longrightarrow> br_circuit b = Closed \<Longrightarrow> breaker_wf (breaker_count b w f now)"
  by (auto simp: breaker_wf_def breaker_count_def Let_def sat_add_u32_mono sat_add_u32_def)

lemma breaker_wf_admit: "breaker_wf b \<Longrightarrow> breaker_wf (snd (admit b now))"
  by (auto simp: breaker_wf_def admit_def)

lemma breaker_wf_finish_trial: "breaker_wf b \<Longrightarrow> breaker_wf (snd (finish_trial b config failed now))"
  by (simp add: finish_trial_def split: circuit.splits)

lemma breaker_wf_record:
  "breaker_wf b \<Longrightarrow> breaker_wf (snd (record_result b config trial failed now))"
  by (simp add: record_result_def Let_def breaker_wf_finish_trial breaker_wf_count)

lemma breaker_wf_release: "breaker_wf b \<Longrightarrow> breaker_wf (release_trial b)"
  by (auto simp: breaker_wf_def release_trial_def)

lemmas breaker_wf_ops = breaker_wf_admit breaker_wf_record breaker_wf_release

section \<open>Sequences of operations\<close>

text \<open>The calls that a server's circuit receives, each with the time of the call.\<close>

datatype breaker_call =
    Admit instant
  | Record bool bool instant
  | Release

fun breaker_step :: "circuit_breaker \<Rightarrow> breaker \<Rightarrow> breaker_call \<Rightarrow> breaker" where
  "breaker_step config b (Admit now) = snd (admit b now)"
| "breaker_step config b (Record trial failed now) = snd (record_result b config trial failed now)"
| "breaker_step config b Release = release_trial b"

fun breaker_run :: "circuit_breaker \<Rightarrow> breaker \<Rightarrow> breaker_call list \<Rightarrow> breaker" where
  "breaker_run config b [] = b"
| "breaker_run config b (c # cs) = breaker_run config (breaker_step config b c) cs"

lemma breaker_wf_step: "breaker_wf b \<Longrightarrow> breaker_wf (breaker_step config b c)"
  by (cases c) (simp_all add: breaker_wf_ops)

lemma breaker_wf_run: "breaker_wf b \<Longrightarrow> breaker_wf (breaker_run config b cs)"
  by (induction cs arbitrary: b) (simp_all add: breaker_wf_step)

section \<open>Specification: the outcomes of the current window\<close>

text \<open>
  The specification keeps the outcomes of the requests of the current window (newest first,
  \<open>True\<close> for a failure) instead of two saturating counters.  A closed circuit opens when the
  window has enough requests and the failed share reaches the configured percentage.
\<close>

datatype spec_circuit =
    SpClosed "(instant \<times> bool list) option"
  | SpOpen instant
  | SpHalfOpen bool

definition spec_window :: "(instant \<times> bool list) option \<Rightarrow> duration \<Rightarrow> bool \<Rightarrow> instant \<Rightarrow> instant \<times> bool list" where
  "spec_window w window failed now = (case w of
       None \<Rightarrow> (now, [failed])
     | Some (start, rs) \<Rightarrow> if now - start \<ge> window then (now, [failed]) else (start, failed # rs))"

definition spec_trips :: "circuit_breaker \<Rightarrow> bool list \<Rightarrow> bool" where
  "spec_trips config rs \<longleftrightarrow> cb_min_requests config \<le> length rs \<and>
     cb_failure_ratio config * length rs \<le> 100 * length (filter id rs)"

fun spec_step :: "circuit_breaker \<Rightarrow> spec_circuit \<Rightarrow> breaker_call \<Rightarrow> spec_circuit" where
  "spec_step config (SpClosed w) (Record False failed now) =
     (let w' = spec_window w (cb_window config) failed now
      in if spec_trips config (snd w') then SpOpen (now + cb_open_duration config) else SpClosed (Some w'))"
| "spec_step config (SpHalfOpen t) (Record True failed now) =
     (if failed then SpOpen (now + cb_open_duration config) else SpClosed None)"
| "spec_step config (SpOpen until) (Admit now) = (if now < until then SpOpen until else SpHalfOpen True)"
| "spec_step config (SpHalfOpen t) (Admit now) = SpHalfOpen True"
| "spec_step config (SpHalfOpen t) Release = SpHalfOpen False"
| "spec_step config s c = s"

fun spec_run :: "circuit_breaker \<Rightarrow> spec_circuit \<Rightarrow> breaker_call list \<Rightarrow> spec_circuit" where
  "spec_run config s [] = s"
| "spec_run config s (c # cs) = spec_run config (spec_step config s c) cs"

fun breaker_abs :: "breaker \<Rightarrow> spec_circuit \<Rightarrow> bool" where
  "breaker_abs b (SpClosed None) = (b = breaker_default)"
| "breaker_abs b (SpClosed (Some (start, rs))) =
     (b = \<lparr>br_circuit = Closed, br_window_start = Some start, br_requests = length rs,
           br_failures = length (filter id rs)\<rparr>)"
| "breaker_abs b (SpOpen until) = (b = breaker_default\<lparr>br_circuit := Open until\<rparr>)"
| "breaker_abs b (SpHalfOpen t) = (b = breaker_default\<lparr>br_circuit := HalfOpen t\<rparr>)"

text \<open>The number of requests a specification state has counted: the bound on saturation.\<close>

fun spec_size :: "spec_circuit \<Rightarrow> nat" where
  "spec_size (SpClosed (Some (start, rs))) = length rs"
| "spec_size s = 0"

lemma spec_size_step: "spec_size (spec_step config s c) \<le> Suc (spec_size s)"
  by (cases "(config, s, c)" rule: spec_step.cases)
    (auto simp: spec_window_def Let_def split: option.splits)

lemma breaker_abs_count:
  assumes "breaker_abs b (SpClosed w)" and "spec_size (SpClosed w) < u32_max"
  shows "breaker_abs (breaker_count b window failed now) (SpClosed (Some (spec_window w window failed now)))"
proof -
  have le: "length (filter id rs) \<le> length rs" for rs by simp
  have fits: "length (filter id rs) \<le> 4294967294" if "length rs < 4294967295" for rs :: "bool list"
    using le [of rs] that by linarith
  show ?thesis
    using assms fits
    by (cases w) (auto simp: breaker_count_def spec_window_def breaker_default_def sat_add_u32_def
        u32_max_def min_def Let_def split: prod.splits)
qed

lemma breaker_abs_step_closed:
  assumes abs: "breaker_abs b (SpClosed w)" and size: "spec_size (SpClosed w) < u32_max"
  shows "breaker_abs (breaker_step config b (Record False failed now))
           (spec_step config (SpClosed w) (Record False failed now))"
proof -
  obtain start rs where w': "spec_window w (cb_window config) failed now = (start, rs)"
    by (cases "spec_window w (cb_window config) failed now") auto
  let ?b = "breaker_count b (cb_window config) failed now"
  have closed: "br_circuit b = Closed"
    using abs by (cases w) (auto simp: breaker_default_def)
  have b': "?b = \<lparr>br_circuit = Closed, br_window_start = Some start, br_requests = length rs,
      br_failures = length (filter id rs)\<rparr>"
    using breaker_abs_count [OF abs size, of "cb_window config" failed now] w' by simp
  show ?thesis
    by (auto simp: record_result_def closed b' w' spec_trips_def Let_def open_breaker_def not_less)
qed

lemma breaker_abs_step:
  assumes "breaker_abs b s" and "spec_size s < u32_max"
  shows "breaker_abs (breaker_step config b c) (spec_step config s c)"
proof (cases s)
  case (SpClosed w)
  have closed: "br_circuit b = Closed"
    using assms(1) SpClosed by (cases w) (auto simp: breaker_default_def)
  show ?thesis
  proof (cases c)
    case (Record trial failed now)
    show ?thesis
    proof (cases trial)
      case True
      then show ?thesis using assms(1) SpClosed Record closed
        by (simp add: record_result_def finish_trial_def)
    next
      case False
      then show ?thesis using assms SpClosed Record breaker_abs_step_closed by simp
    qed
  qed (use assms(1) SpClosed closed in \<open>simp_all add: admit_def blocks_def release_trial_def\<close>)
next
  case (SpOpen until)
  with assms(1) show ?thesis
    by (cases c) (auto simp: breaker_defs)
next
  case (SpHalfOpen t)
  then show ?thesis
  proof (cases c)
    case (Record trial failed now)
    with assms(1) SpHalfOpen show ?thesis by (cases trial) (auto simp: breaker_defs)
  qed (use assms(1) SpHalfOpen in \<open>auto simp: breaker_defs\<close>)
qed

lemma breaker_abs_run:
  assumes "breaker_abs b s" and "spec_size s + length cs \<le> u32_max"
  shows "breaker_abs (breaker_run config b cs) (spec_run config s cs)"
  using assms
proof (induction cs arbitrary: b s)
  case Nil
  then show ?case by simp
next
  case (Cons c cs)
  have "breaker_abs (breaker_step config b c) (spec_step config s c)"
    using Cons.prems by (intro breaker_abs_step) auto
  moreover have "spec_size (spec_step config s c) + length cs \<le> u32_max"
    using Cons.prems(2) spec_size_step [of config s c] by simp
  ultimately show ?case using Cons.IH by simp
qed

section \<open>Properties\<close>

fun call_before :: "instant \<Rightarrow> breaker_call \<Rightarrow> bool" where
  "call_before u (Admit now) = (now < u)"
| "call_before u (Record trial failed now) = (now < u)"
| "call_before u Release = True"

fun ends_trial :: "breaker_call \<Rightarrow> bool" where
  "ends_trial (Record trial failed now) = trial"
| "ends_trial Release = True"
| "ends_trial (Admit now) = False"

lemma breaker_run_open:
  "br_circuit b = Open u \<Longrightarrow> list_all (call_before u) cs \<Longrightarrow> breaker_run config b cs = b"
proof (induction cs)
  case Nil
  then show ?case by simp
next
  case (Cons c cs)
  then have "breaker_step config b c = b"
    by (cases c) (auto simp: breaker_defs)
  with Cons show ?case by simp
qed

lemma breaker_run_trial:
  "br_circuit b = HalfOpen True \<Longrightarrow> list_all (\<lambda>c. \<not> ends_trial c) cs \<Longrightarrow> breaker_run config b cs = b"
proof (induction cs)
  case Nil
  then show ?case by simp
next
  case (Cons c cs)
  then have "breaker_step config b c = b"
    by (cases c) (auto simp: breaker_defs)
  with Cons show ?case by simp
qed



text \<open>
  an open circuit is shut for the whole open duration.  Until its end, whatever calls arrive
  leave the breaker as it is and every request is refused; from then on, one trial request passes,
  and every other request is refused until the trial reports its result or is released.
\<close>

theorem open_circuit_shut_then_single_trial:
  assumes "br_circuit b = Open u"
  shows "(list_all (call_before u) cs \<and> now < u \<longrightarrow>
      admit (breaker_run config b cs) now = (None, b)) \<and>
    (u \<le> now \<longrightarrow> fst (admit b now) = Some True) \<and>
    (u \<le> now \<and> list_all (\<lambda>c. \<not> ends_trial c) cs \<longrightarrow>
      fst (admit (breaker_run config (snd (admit b now)) cs) later) = None)"
proof (intro conjI impI)
  assume "list_all (call_before u) cs \<and> now < u"
  then show "admit (breaker_run config b cs) now = (None, b)"
    using assms breaker_run_open [OF assms, of cs config] by (simp add: admit_def blocks_def)
next
  assume "u \<le> now"
  then show "fst (admit b now) = Some True"
    using assms by (simp add: admit_def blocks_def)
next
  assume late: "u \<le> now \<and> list_all (\<lambda>c. \<not> ends_trial c) cs"
  then have "br_circuit (snd (admit b now)) = HalfOpen True"
    using assms by (simp add: admit_def blocks_def)
  with late breaker_run_trial [OF this] show
    "fst (admit (breaker_run config (snd (admit b now)) cs) later) = None"
    by (simp add: admit_def blocks_def)
qed

text \<open>The window specification never leaves the closed state on successes alone.\<close>

lemma spec_run_no_failure:
  assumes "is_ok (cb_validate config)"
    and "list_all (\<lambda>c. case c of Record trial failed now \<Rightarrow> \<not> failed | _ \<Rightarrow> True) cs"
    and "case s of SpClosed w \<Rightarrow> (case w of None \<Rightarrow> True | Some (start, rs) \<Rightarrow> list_all Not rs) | _ \<Rightarrow> False"
  shows "\<exists>w. spec_run config s cs = SpClosed w"
  using assms(2,3)
proof (induction cs arbitrary: s)
  case Nil
  then show ?case by (auto split: spec_circuit.splits)
next
  case (Cons c cs)
  then obtain w where s: "s = SpClosed w" by (auto split: spec_circuit.splits)
  have nofail: "filter id rs = []" if "list_all Not rs" for rs
    using that by (induction rs) auto
  have "case spec_step config s c of SpClosed w \<Rightarrow>
      (case w of None \<Rightarrow> True | Some (start, rs) \<Rightarrow> list_all Not rs) | _ \<Rightarrow> False"
  proof (cases c)
    case (Record trial failed now)
    show ?thesis
    proof (cases trial)
      case True
      then show ?thesis using Cons.prems s Record by simp
    next
      case False
      have "list_all Not (snd (spec_window w (cb_window config) failed now))"
        using Cons.prems s Record by (auto simp: spec_window_def split: option.splits)
      moreover have "snd (spec_window w (cb_window config) failed now) \<noteq> []"
        by (simp add: spec_window_def split: option.splits prod.splits)
      ultimately show ?thesis
        using assms(1) False s Record nofail
        by (auto simp: spec_trips_def cb_validate_ok Let_def split: prod.splits)
    qed
  qed (use Cons.prems s in auto)
  with Cons show ?case by simp
qed

text \<open>
  with a validated configuration a circuit never opens on successes alone.  If no request of
  a sequence fails, the circuit stays closed whatever their times, and the next request is
  admitted as an ordinary request, not as a trial.
\<close>

theorem no_failure_keeps_circuit_closed:
  assumes "is_ok (cb_validate config)" and "length cs \<le> u32_max"
    and "list_all (\<lambda>c. case c of Record trial failed now \<Rightarrow> \<not> failed | _ \<Rightarrow> True) cs"
  shows "br_circuit (breaker_run config breaker_default cs) = Closed \<and>
    fst (admit (breaker_run config breaker_default cs) now) = Some False"
proof -
  obtain w where w: "spec_run config (SpClosed None) cs = SpClosed w"
    using spec_run_no_failure [OF assms(1,3), of "SpClosed None"] by auto
  have "breaker_abs (breaker_run config breaker_default cs) (SpClosed w)"
    using breaker_abs_run [of breaker_default "SpClosed None" cs config] assms(2) w by simp
  then have "br_circuit (breaker_run config breaker_default cs) = Closed"
    by (cases w) (auto simp: breaker_default_def)
  then show ?thesis by (simp add: admit_def blocks_def)
qed

end
