(* ===== verification/F64.thy ===== *)
theory F64
  imports Prelude "HOL-Library.Log_Nat"
begin

text \<open>
  The part of IEEE 754 double precision that the load balancer and the rate limiter use.  Every
  value that the code computes is zero or far inside the normal range (between \<open>2^-60\<close> and
  \<open>2^64\<close>), so an \<open>f64\<close> is the rational number it stands for, and an operation is the exact
  operation followed by \<open>f64_round\<close>: rounding to 53 significant bits, to nearest, ties to even.
\<close>

section \<open>Rounding\<close>

definition round_half_even :: "rat \<Rightarrow> int" where
  "round_half_even x = (let f = \<lfloor>x\<rfloor>; r = x - of_int f in
     if r < 1 / 2 then f else if r > 1 / 2 then f + 1 else if even f then f else f + 1)"

text \<open>The binary exponent of a positive rational: \<open>2^e \<le> q < 2^(e+1)\<close>.\<close>

definition ilog2 :: "rat \<Rightarrow> int" where
  "ilog2 q = (let (n, d) = quotient_of q; k = bitlen n - bitlen d in
     if 2 powi k \<le> q then k else k - 1)"

definition f64_round :: "rat \<Rightarrow> rat" where
  "f64_round q =
     (if q = 0 then 0
      else if q < 0 then - (let u = 2 powi (ilog2 (- q) - 52) in u * of_int (round_half_even (- q / u)))
      else (let u = 2 powi (ilog2 q - 52) in u * of_int (round_half_even (q / u))))"

definition f64_of_nat :: "nat \<Rightarrow> rat" where "f64_of_nat n = f64_round (of_nat n)"
definition f64_add :: "rat \<Rightarrow> rat \<Rightarrow> rat" where "f64_add a b = f64_round (a + b)"
definition f64_sub :: "rat \<Rightarrow> rat \<Rightarrow> rat" where "f64_sub a b = f64_round (a - b)"
definition f64_mul :: "rat \<Rightarrow> rat \<Rightarrow> rat" where "f64_mul a b = f64_round (a * b)"
definition f64_div :: "rat \<Rightarrow> rat \<Rightarrow> rat" where "f64_div a b = f64_round (a / b)"

section \<open>Error bounds\<close>

lemma round_half_even_error: "\<bar>of_int (round_half_even x) - x\<bar> \<le> 1 / 2"
proof -
  have "of_int \<lfloor>x\<rfloor> \<le> x" "x < of_int \<lfloor>x\<rfloor> + 1" by linarith+
  then show ?thesis by (auto simp: round_half_even_def Let_def abs_le_iff)
qed

lemma round_half_even_of_int [simp]: "round_half_even (of_int n) = n"
  by (simp add: round_half_even_def)

lemma bitlen_bounds_pos:
  assumes "0 < n"
  shows "2 powi (bitlen n - 1) \<le> (of_int n :: rat)" and "(of_int n :: rat) < 2 powi (bitlen n)"
proof -
  have pos: "0 < bitlen n" using assms by (simp add: order_less_le bitlen_eq_zero_iff bitlen_nonneg)
  have "2 ^ nat (bitlen n - 1) \<le> n \<and> n < 2 ^ nat (bitlen n)"
    using bitlen_bounds [OF assms] .
  then have "(of_int (2 ^ nat (bitlen n - 1)) :: rat) \<le> of_int n" "(of_int n :: rat) < of_int (2 ^ nat (bitlen n))"
    by (auto simp only: of_int_le_iff of_int_less_iff)
  then show "2 powi (bitlen n - 1) \<le> (of_int n :: rat)" and "(of_int n :: rat) < 2 powi (bitlen n)"
    using pos by (simp_all add: power_int_def)
qed

lemma ilog2_bounds:
  assumes "0 < q"
  shows "2 powi (ilog2 q) \<le> q" and "q < 2 powi (ilog2 q + 1)"
proof -
  obtain n d where nd: "quotient_of q = (n, d)" by (cases "quotient_of q")
  then have q: "q = of_int n / of_int d" and d: "0 < d"
    by (auto simp: quotient_of_div quotient_of_denom_pos)
  have n: "0 < n" using assms q d by (simp add: zero_less_divide_iff)
  let ?k = "bitlen n - bitlen d"
  have low: "2 powi (?k - 1) \<le> q"
  proof -
    have "2 powi (?k - 1) * of_int d \<le> 2 powi (?k - 1) * (2 powi (bitlen d) :: rat)"
      using bitlen_bounds_pos(2) [OF d] by (intro mult_left_mono) auto
    also have "\<dots> = 2 powi (bitlen n - 1)"
      by (simp flip: power_int_add)
    also have "\<dots> \<le> of_int n" by (rule bitlen_bounds_pos(1) [OF n])
    finally show ?thesis using q d by (simp add: pos_le_divide_eq)
  qed
  have high: "q < 2 powi (?k + 1)"
  proof -
    have "of_int n < (2 powi (bitlen n) :: rat)" by (rule bitlen_bounds_pos(2) [OF n])
    also have "\<dots> = 2 powi (?k + 1) * 2 powi (bitlen d - 1)"
      by (simp flip: power_int_add)
    also have "\<dots> \<le> 2 powi (?k + 1) * of_int d"
      using bitlen_bounds_pos(1) [OF d] by (intro mult_left_mono) auto
    finally show ?thesis using q d by (simp add: pos_divide_less_eq)
  qed
  show "2 powi (ilog2 q) \<le> q" using low nd by (simp add: ilog2_def Let_def)
  show "q < 2 powi (ilog2 q + 1)" using high nd by (simp add: ilog2_def Let_def)
qed

text \<open>The relative error of a rounding is at most \<open>2^-53\<close>.\<close>

lemma f64_round_error:
  assumes "0 \<le> q"
  shows "\<bar>f64_round q - q\<bar> \<le> q / 2 ^ 53"
proof (cases "q = 0")
  case True
  then show ?thesis by (simp add: f64_round_def)
next
  case False
  with assms have pos: "0 < q" by simp
  let ?u = "2 powi (ilog2 q - 52) :: rat"
  have u: "0 < ?u" by simp
  have r: "f64_round q = ?u * of_int (round_half_even (q / ?u))"
    using pos by (simp add: f64_round_def Let_def)
  have "f64_round q - q = ?u * (of_int (round_half_even (q / ?u)) - q / ?u)"
    using u by (simp add: r right_diff_distrib)
  then have "\<bar>f64_round q - q\<bar> = ?u * \<bar>of_int (round_half_even (q / ?u)) - q / ?u\<bar>"
    using u by (simp add: abs_mult)
  also have "\<dots> \<le> ?u * (1 / 2)"
    by (rule mult_left_mono [OF round_half_even_error]) simp
  also have "\<dots> = 2 powi (ilog2 q) / 2 ^ 53"
    by (simp add: power_int_diff)
  also have "\<dots> \<le> q / 2 ^ 53"
    using ilog2_bounds(1) [OF pos] by (intro divide_right_mono) auto
  finally show ?thesis .
qed

lemma f64_round_0 [simp]: "f64_round 0 = 0"
  by (simp add: f64_round_def)

section \<open>Exact values and the order of quotients\<close>

text \<open>An integer below \<open>2^53\<close> is an \<open>f64\<close>.\<close>

lemma f64_of_nat_exact:
  assumes "n < 2 ^ 53"
  shows "f64_of_nat n = of_nat n"
proof (cases "n = 0")
  case True
  then show ?thesis by (simp add: f64_of_nat_def)
next
  case False
  let ?q = "of_nat n :: rat" and ?e = "ilog2 (of_nat n)"
  have pos: "0 < ?q" using False by simp
  have "2 powi ?e \<le> ?q" by (rule ilog2_bounds(1) [OF pos])
  also have "?q < 2 powi 53"
  proof -
    have "?q < of_nat (2 ^ 53)" using assms by (simp only: of_nat_less_iff)
    then show ?thesis by (simp add: power_int_def)
  qed
  finally have e: "?e \<le> 52"
    using power_int_increasing [of 53 ?e "2 :: rat"] by force
  have split: "?q / 2 powi (?e - 52) = of_int (int n * 2 ^ nat (52 - ?e))"
  proof -
    have "?q / 2 powi (?e - 52) = ?q * 2 powi (52 - ?e)"
      by (simp add: power_int_diff)
    then show ?thesis using e by (simp add: power_int_def)
  qed
  then have "f64_round ?q = 2 powi (?e - 52) * (?q / 2 powi (?e - 52))"
    using pos by (simp only: f64_round_def Let_def split round_half_even_of_int) simp
  then show ?thesis by (simp add: f64_of_nat_def)
qed

text \<open>
  Two different quotients of small numbers stay different, in the same order, after rounding:
  their distance is at least \<open>1/(w1 w2)\<close>, more than the two rounding errors together.
\<close>

lemma f64_round_less:
  assumes "0 \<le> q1" "0 \<le> q2" "(q1 + q2) / 2 ^ 53 < q2 - q1"
  shows "f64_round q1 < f64_round q2"
proof -
  define d1 d2 where "d1 = q1 / 2 ^ 53" and "d2 = q2 / 2 ^ 53"
  have "\<bar>f64_round q1 - q1\<bar> \<le> d1" "\<bar>f64_round q2 - q2\<bar> \<le> d2"
    unfolding d1_def d2_def by (rule f64_round_error, fact assms)+
  moreover have "d1 + d2 < q2 - q1"
    using assms(3) unfolding d1_def d2_def by (simp only: add_divide_distrib)
  ultimately show ?thesis by linarith
qed

lemma f64_round_strict:
  fixes a1 w1 a2 w2 :: nat
  assumes "0 < w1" "0 < w2" "a1 * w2 < a2 * w1" "a1 * w2 + a2 * w1 < 2 ^ 53"
  shows "f64_round (of_nat a1 / of_nat w1) < f64_round (of_nat a2 / of_nat w2)"
proof (rule f64_round_less)
  let ?w = "of_nat (w1 * w2) :: rat"
  have w: "0 < ?w" using assms by simp
  have q1: "of_nat a1 / of_nat w1 = of_nat (a1 * w2) / ?w"
    and q2: "of_nat a2 / of_nat w2 = of_nat (a2 * w1) / ?w"
    using assms by simp_all
  have "a1 * w2 + 1 \<le> a2 * w1" using assms(3) by simp
  then have "(of_nat (a1 * w2 + 1) :: rat) \<le> of_nat (a2 * w1)" by (simp only: of_nat_le_iff)
  then have gap: "1 \<le> (of_nat (a2 * w1) :: rat) - of_nat (a1 * w2)" by (simp only: of_nat_add of_nat_1)
  have "(of_nat (a1 * w2 + a2 * w1) :: rat) < of_nat (2 ^ 53)"
    using assms(4) by (simp only: of_nat_less_iff)
  then have "(of_nat (a1 * w2) + of_nat (a2 * w1) :: rat) < 2 ^ 53"
    by (simp only: of_nat_add of_nat_power of_nat_numeral)
  then have "(of_nat (a1 * w2) + of_nat (a2 * w1)) / 2 ^ 53 < (1 :: rat)" by simp
  with gap have "(of_nat (a1 * w2) + of_nat (a2 * w1)) / 2 ^ 53 <
      (of_nat (a2 * w1) - of_nat (a1 * w2) :: rat)" by linarith
  then have "(of_nat (a1 * w2) + of_nat (a2 * w1)) / 2 ^ 53 / ?w <
      (of_nat (a2 * w1) - of_nat (a1 * w2)) / ?w"
    using w by (rule divide_strict_right_mono)
  then show "(of_nat a1 / of_nat w1 + of_nat a2 / of_nat w2) / 2 ^ 53 <
      of_nat a2 / of_nat w2 - (of_nat a1 / of_nat w1 :: rat)"
    unfolding q1 q2 by (simp only: add_divide_distrib diff_divide_distrib divide_divide_eq_left mult.commute)
qed simp_all

lemma f64_div_nat_less_iff:
  fixes a1 w1 a2 w2 :: nat
  assumes "0 < w1" "0 < w2" "a1 * w2 + a2 * w1 < 2 ^ 53" "a1 < 2 ^ 53" "a2 < 2 ^ 53"
  shows "f64_div (f64_of_nat a1) (of_nat w1) < f64_div (f64_of_nat a2) (of_nat w2) \<longleftrightarrow>
    a1 * w2 < a2 * w1"
proof -
  have eq: "f64_div (f64_of_nat a1) (of_nat w1) = f64_div (f64_of_nat a2) (of_nat w2)"
    if "a1 * w2 = a2 * w1"
  proof -
    have "(of_nat a1 :: rat) * of_nat w2 = of_nat a2 * of_nat w1"
      using that by (simp flip: of_nat_mult)
    then have "(of_nat a1 :: rat) / of_nat w1 = of_nat a2 / of_nat w2"
      using assms by (simp add: frac_eq_eq)
    then show ?thesis using assms by (simp add: f64_div_def f64_of_nat_exact)
  qed
  have lt: "f64_div (f64_of_nat a1) (of_nat w1) < f64_div (f64_of_nat a2) (of_nat w2)"
    if "a1 * w2 < a2 * w1"
    using f64_round_strict [OF assms(1,2) that assms(3)] assms(4,5)
    by (simp only: f64_div_def f64_of_nat_exact)
  have gt: "f64_div (f64_of_nat a2) (of_nat w2) < f64_div (f64_of_nat a1) (of_nat w1)"
    if "a2 * w1 < a1 * w2"
    using f64_round_strict [OF assms(2,1) that] assms(3-5)
    by (simp only: f64_div_def f64_of_nat_exact add.commute)
  consider "a1 * w2 < a2 * w1" | "a1 * w2 = a2 * w1" | "a2 * w1 < a1 * w2" by linarith
  then show ?thesis
  proof cases
    case 1
    with lt show ?thesis by simp
  next
    case 2
    with eq show ?thesis by simp
  next
    case 3
    with gt [OF 3] show ?thesis by simp
  qed
qed

section \<open>Rounding keeps integers in order\<close>

lemma round_half_even_ge: "of_int m \<le> x \<Longrightarrow> m \<le> round_half_even x"
proof -
  assume "of_int m \<le> x"
  then have "m \<le> \<lfloor>x\<rfloor>" by (simp add: le_floor_iff)
  then show ?thesis by (auto simp: round_half_even_def Let_def)
qed

lemma round_half_even_le: "x \<le> of_int m \<Longrightarrow> round_half_even x \<le> m"
proof -
  assume x: "x \<le> of_int m"
  then have "\<lfloor>x\<rfloor> \<le> m" by linarith
  moreover have "\<lfloor>x\<rfloor> \<noteq> m \<or> x = of_int m" using x by linarith
  ultimately show ?thesis by (auto simp: round_half_even_def Let_def)
qed

lemma f64_round_ge_nat:
  assumes "of_nat n \<le> q" and "n < 2 ^ 53"
  shows "of_nat n \<le> f64_round q"
proof (cases "q = 0")
  case False
  have pos: "0 < q" using assms(1) False by (metis of_nat_0_le_iff order_less_le order_trans)
  let ?e = "ilog2 q"
  let ?u = "2 powi (?e - 52) :: rat"
  have r: "f64_round q = ?u * of_int (round_half_even (q / ?u))" using pos by (simp add: f64_round_def Let_def)
  show ?thesis
  proof (cases "?e \<le> 52")
    case True
    have "of_nat n / ?u = (of_nat n :: rat) * 2 powi (52 - ?e)" by (simp add: power_int_diff)
    then have m: "of_nat n / ?u = (of_int (int n * 2 ^ nat (52 - ?e)) :: rat)"
      using True by (simp add: power_int_def)
    have "of_nat n / ?u \<le> q / ?u" by (rule divide_right_mono [OF assms(1)]) simp
    then have "int n * 2 ^ nat (52 - ?e) \<le> round_half_even (q / ?u)"
      unfolding m by (rule round_half_even_ge)
    then have "of_nat n / ?u \<le> (of_int (round_half_even (q / ?u)) :: rat)"
      unfolding m by (simp only: of_int_le_iff)
    then show ?thesis unfolding r by (simp add: divide_le_eq mult.commute)
  next
    case False
    have "(2 :: rat) powi 53 \<le> 2 powi ?e" by (rule power_int_increasing) (use False in auto)
    then have big: "2 ^ 53 \<le> q" using ilog2_bounds(1) [OF pos] by (simp add: power_int_def)
    have "n + 1 \<le> 2 ^ 53" using assms(2) by simp
    then have "(of_nat (n + 1) :: rat) \<le> of_nat (2 ^ 53)" by (rule of_nat_mono)
    then have n: "(of_nat n :: rat) \<le> 2 ^ 53 - 1" by simp
    have "q - q / 2 ^ 53 \<le> f64_round q" using f64_round_error [of q] pos unfolding abs_le_iff by linarith
    moreover have "2 ^ 53 - 1 \<le> q - q / 2 ^ 53" using big by (simp add: field_simps)
    ultimately show ?thesis using n by linarith
  qed
qed (use assms in auto)

lemma f64_round_le_1:
  assumes "0 \<le> q" and "q \<le> 1"
  shows "f64_round q \<le> 1"
proof (cases "q = 0")
  case False
  with assms have pos: "0 < q" by simp
  let ?e = "ilog2 q"
  let ?u = "2 powi (?e - 52) :: rat"
  have "\<not> 0 < ?e"
  proof
    assume "0 < ?e"
    then have "(2 :: rat) powi 1 \<le> 2 powi ?e" by (intro power_int_increasing) auto
    then show False using ilog2_bounds(1) [OF pos] assms(2) by simp
  qed
  then have "1 / ?u = (of_int (2 ^ nat (52 - ?e)) :: rat)"
    by (simp add: power_int_diff power_int_def nat_diff_distrib power_add [symmetric] field_simps)
  moreover have "q / ?u \<le> 1 / ?u" by (rule divide_right_mono [OF assms(2)]) simp
  ultimately have "(of_int (round_half_even (q / ?u)) :: rat) \<le> 1 / ?u"
    by (metis of_int_le_iff round_half_even_le)
  then show ?thesis using pos by (simp add: f64_round_def Let_def le_divide_eq mult.commute)
qed simp

end
