(* ===== verification/Upstream.thy ===== *)
theory Upstream
  imports Circuit F64
begin

text \<open>
  The data of an upstream group (\<open>proxy/health.rs\<close>) and of its configuration
  (\<open>r3v3rs3-api/src/upstream.rs\<close>): servers, load balancing policies, health check settings, live
  metrics, and the group record with its accessors.

  \<open>active_conns\<close> and \<open>metrics\<close> of a group are vectors of \<open>Arc\<close>s that permits, connection guards
  and a later group share.  They are addresses into a \<open>store\<close>; reading and writing an atomic
  is reading and writing the cell.  \<open>fetch_add\<close> and \<open>fetch_sub\<close> wrap, so the cells are words.
\<close>

section \<open>Configuration\<close>

datatype load_balancing =
  RoundRobin | LeastConn | Random | First | ClientIpHash | GeoProximity | Latency

definition MIN_HEALTH_CHECK_INTERVAL :: duration where
  "MIN_HEALTH_CHECK_INTERVAL = 1000000000"

record health_check =
  hc_max_fails :: nat
  hc_fail_timeout :: duration
  hc_interval :: duration
  hc_timeout :: duration
  hc_path :: string
  hc_grpc_service :: "string option"

definition health_check_default :: health_check where
  "health_check_default = \<lparr>hc_max_fails = 1, hc_fail_timeout = 30 * 1000000000, hc_interval = 0,
     hc_timeout = 5 * 1000000000, hc_path = [], hc_grpc_service = None\<rparr>"

definition hc_is_active :: "health_check \<Rightarrow> bool" where
  "hc_is_active h \<longleftrightarrow> hc_interval h \<noteq> 0"

definition validate_timeout :: "duration \<Rightarrow> unit result" where
  "validate_timeout timeout = (if timeout = 0 then Inl InvalidTimeout else Inr ())"

definition hc_validate_intervals :: "health_check \<Rightarrow> unit result" where
  "hc_validate_intervals h =
     try_then (validate_timeout (hc_fail_timeout h)) (\<lambda>_.
     try_then (validate_timeout (hc_timeout h)) (\<lambda>_.
       if hc_is_active h \<and> hc_interval h < MIN_HEALTH_CHECK_INTERVAL
       then Inl InvalidHealthCheckInterval else Inr ()))"

definition hc_validate_path :: "health_check \<Rightarrow> bool \<Rightarrow> unit result" where
  "hc_validate_path h http =
     (if hc_grpc_service h \<noteq> None \<and> \<not> http
      then Inl (InvalidHealthCheckPath ''gRPC health check is only supported for HTTP proxies'')
      else if hc_grpc_service h \<noteq> None \<or> hc_path h = [] \<or> (http \<and> starts_with ''/'' (hc_path h))
      then Inr ()
      else Inl (InvalidHealthCheckPath (hc_path h)))"

definition hc_validate :: "health_check \<Rightarrow> bool \<Rightarrow> unit result" where
  "hc_validate h http = try_then (hc_validate_intervals h) (\<lambda>_. hc_validate_path h http)"

text \<open>An empty list is valid; a list whose servers all have weight 0 is not.\<close>

definition validate_weights :: "nat list \<Rightarrow> unit result" where
  "validate_weights weights =
     (if weights \<noteq> [] \<and> list_all (\<lambda>w. w = 0) weights then Inl AllServersDrained else Inr ())"

section \<open>Live metrics\<close>

record live_metrics =
  lm_requests :: u64
  lm_errors :: u64
  lm_total_rtt_micros :: u64
  lm_rtt_count :: u64
  lm_last_rtt_micros :: u64
  lm_total_bytes :: u64

definition live_metrics_default :: live_metrics where
  "live_metrics_default = \<lparr>lm_requests = 0, lm_errors = 0, lm_total_rtt_micros = 0,
     lm_rtt_count = 0, lm_last_rtt_micros = 0, lm_total_bytes = 0\<rparr>"

definition record_request :: "live_metrics \<Rightarrow> live_metrics" where
  "record_request m = m\<lparr>lm_requests := lm_requests m + 1\<rparr>"

definition record_error :: "live_metrics \<Rightarrow> live_metrics" where
  "record_error m = m\<lparr>lm_errors := lm_errors m + 1\<rparr>"

definition record_rtt :: "live_metrics \<Rightarrow> duration \<Rightarrow> live_metrics" where
  "record_rtt m elapsed = (let micros = word_of_nat (elapsed div 1000) in
     m\<lparr>lm_last_rtt_micros := micros,
       lm_total_rtt_micros := lm_total_rtt_micros m + micros,
       lm_rtt_count := lm_rtt_count m + 1\<rparr>)"

definition record_bytes :: "live_metrics \<Rightarrow> u64 \<Rightarrow> live_metrics" where
  "record_bytes m bytes = m\<lparr>lm_total_bytes := lm_total_bytes m + bytes\<rparr>"

definition avg_rtt_ms :: "live_metrics \<Rightarrow> rat option" where
  "avg_rtt_ms m =
     (if lm_rtt_count m = 0
      then if lm_last_rtt_micros m > 0
           then Some (f64_div (f64_of_nat (unat (lm_last_rtt_micros m))) 1000) else None
      else Some (f64_div (f64_div (f64_of_nat (unat (lm_total_rtt_micros m)))
                                  (f64_of_nat (unat (lm_rtt_count m)))) 1000))"

lemmas live_metrics_defs =
  record_request_def record_error_def record_rtt_def record_bytes_def Let_def

section \<open>Servers and groups\<close>

record group_server =
  gs_addr :: string
  gs_weight :: nat
  gs_region :: "string option"
  gs_countries :: "string list"

record server_health =
  sh_failures :: nat
  sh_unhealthy_until :: "instant option"
  sh_check_failed :: bool
  sh_last_error :: "string option"

definition server_health_default :: server_health where
  "server_health_default =
     \<lparr>sh_failures = 0, sh_unhealthy_until = None, sh_check_failed = False, sh_last_error = None\<rparr>"

definition is_healthy :: "server_health \<Rightarrow> instant \<Rightarrow> bool" where
  "is_healthy h now \<longleftrightarrow> \<not> sh_check_failed h \<and>
     (case sh_unhealthy_until h of None \<Rightarrow> True | Some until \<Rightarrow> now \<ge> until)"

text \<open>
  The targets of the active check.  A URI is kept as its text; the HTTP and gRPC clients are part
  of the environment that runs the probe.
\<close>

datatype probe =
    Connect "(string \<times> nat) option list"
  | ConnectLocal "(string \<times> nat) option list"
  | Resolve "(string \<times> nat) option list"
  | Http "string option list"
  | Grpc "string option list" string

record upstream_group =
  ug_members :: "group_server list"
  ug_policy :: load_balancing
  ug_health_check :: health_check
  ug_servers :: "server_health list"
  ug_current_weights :: "int list"
  ug_circuit_breaker :: circuit_breaker
  ug_breakers :: "breaker list"
  ug_probe :: "probe option"
  ug_active_conns :: "nat list"
  ug_metrics :: "nat list"
  ug_geoip :: "(ip_addr \<Rightarrow> string option) option"

record store =
  st_conns :: "nat \<Rightarrow> usize"
  st_metrics :: "nat \<Rightarrow> live_metrics"
  st_next :: nat

definition server_addr :: "upstream_group \<Rightarrow> nat \<Rightarrow> string" where
  "server_addr g i = (case nth_opt (ug_members g) i of None \<Rightarrow> [] | Some m \<Rightarrow> gs_addr m)"

definition weight :: "upstream_group \<Rightarrow> nat \<Rightarrow> nat" where
  "weight g i = (case nth_opt (ug_members g) i of None \<Rightarrow> 0 | Some m \<Rightarrow> gs_weight m)"

definition health :: "upstream_group \<Rightarrow> nat \<Rightarrow> server_health option" where
  "health g i = nth_opt (ug_servers g) i"

definition breaker_at :: "upstream_group \<Rightarrow> nat \<Rightarrow> breaker option" where
  "breaker_at g i = nth_opt (ug_breakers g) i"

definition blocked :: "upstream_group \<Rightarrow> nat \<Rightarrow> instant \<Rightarrow> bool" where
  "blocked g i now \<longleftrightarrow> cb_enabled (ug_circuit_breaker g) \<and>
     (case breaker_at g i of None \<Rightarrow> False | Some b \<Rightarrow> blocks b now)"

definition geoip_country :: "upstream_group \<Rightarrow> ip_addr \<Rightarrow> string option" where
  "geoip_country g client = (case ug_geoip g of None \<Rightarrow> None | Some lookup \<Rightarrow> lookup client)"

definition active_connections :: "upstream_group \<Rightarrow> store \<Rightarrow> nat \<Rightarrow> usize" where
  "active_connections g st i =
     (case nth_opt (ug_active_conns g) i of None \<Rightarrow> 0 | Some a \<Rightarrow> st_conns st a)"

text \<open>
  The well-formedness of a group: its vectors have one element per member, a weight is a \<open>u16\<close>,
  and the counters of every breaker are consistent.
\<close>

definition group_wf :: "upstream_group \<Rightarrow> bool" where
  "group_wf g \<longleftrightarrow>
     length (ug_servers g) = length (ug_members g) \<and>
     length (ug_current_weights g) = length (ug_members g) \<and>
     length (ug_breakers g) = length (ug_members g) \<and>
     length (ug_active_conns g) = length (ug_members g) \<and>
     length (ug_metrics g) = length (ug_members g) \<and>
     list_all (\<lambda>m. gs_weight m \<le> u16_max) (ug_members g) \<and>
     list_all breaker_wf (ug_breakers g)"

lemma group_wf_lengths:
  assumes "group_wf g"
  shows "length (ug_servers g) = length (ug_members g)"
    and "length (ug_current_weights g) = length (ug_members g)"
    and "length (ug_breakers g) = length (ug_members g)"
    and "length (ug_active_conns g) = length (ug_members g)"
    and "length (ug_metrics g) = length (ug_members g)"
  using assms by (simp_all add: group_wf_def)

lemma weight_pos_member: "0 < weight g i \<Longrightarrow> i < length (ug_members g)"
  by (simp add: weight_def nth_opt_def split: if_splits)

lemma weight_le_u16: "group_wf g \<Longrightarrow> weight g i \<le> u16_max"
  by (auto simp: weight_def nth_opt_def group_wf_def list_all_length)

end
