(* ===== verification/Balancer.thy ===== *)
theory Balancer
  imports Upstream
begin

text \<open>
  The orders of the load balancing policies of \<open>proxy/health.rs\<close>.  Every policy turns the list of
  eligible servers into the order in which they are tried.

  What the other components need of a policy is the interface \<open>server_order\<close>: the order is a
  permutation of the eligible servers.  Four policies sort by a key, and share the lemmas of
  \<open>keyed_order\<close>: the first server is minimal, and removing servers does not reorder the others.
  The smooth weighted round robin is shown to be exactly fair.

  The hash function, the natural logarithm, the power function and the random numbers are the
  parameters of \<open>balancer_env\<close>: they belong to other crates and to the platform's math library.
\<close>

section \<open>Interfaces\<close>

locale server_order =
  fixes ord :: "nat list \<Rightarrow> nat list"
  assumes ord_mset: "mset (ord xs) = mset xs"
begin

lemma ord_set: "set (ord xs) = set xs"
  by (metis ord_mset set_mset_mset)

lemma ord_distinct: "distinct (ord xs) \<longleftrightarrow> distinct xs"
  by (metis ord_mset mset_eq_imp_distinct_iff)

lemma ord_length: "length (ord xs) = length xs"
  by (metis ord_mset size_mset)

end

locale keyed_order =
  fixes key :: "nat \<Rightarrow> 'k :: linorder"
    and kord :: "nat list \<Rightarrow> nat list"
  assumes kord_sort: "kord xs = sort_key key xs"
begin

lemma kord_filter: "filter P (kord xs) = kord (filter P xs)"
  by (simp add: kord_sort filter_sort)

lemma kord_sorted: "sorted (map key (kord xs))"
  by (simp add: kord_sort)

lemma kord_first_minimal: "i \<in> set xs \<Longrightarrow> key (hd (kord xs)) \<le> key i"
proof -
  assume i: "i \<in> set xs"
  then obtain j js where js: "kord xs = j # js"
    by (metis kord_sort set_sort list.exhaust list.set(1) empty_iff)
  have "i \<in> set (j # js)" using i js by (metis kord_sort set_sort)
  moreover have "sorted (map key (j # js))" using kord_sorted js by metis
  ultimately show ?thesis using js by auto
qed

end

sublocale keyed_order \<subseteq> server_order kord
  by unfold_locales (simp add: kord_sort)

section \<open>Sorting by a computed key\<close>

text \<open>
  The policies pair every server with its key, sort the pairs and drop the keys.  With the server
  index as the last component of the key this is \<^const>\<open>sort_key\<close>.
\<close>

lemma map_insort_key: "map f (insort_key (\<lambda>x. k (f x)) x xs) = insort_key k (f x) (map f xs)"
  by (induction xs) auto

lemma map_sort_key: "map f (sort_key (\<lambda>x. k (f x)) xs) = sort_key k (map f xs)"
  by (induction xs) (simp_all add: map_insort_key)

lemma sort_pairs_key: "map snd (sort (map (\<lambda>i. (k i, i)) xs)) = sort_key (\<lambda>i. (k i, i)) xs"
proof -
  have "sort (map (\<lambda>i. (k i, i)) xs) = map (\<lambda>i. (k i, i)) (sort_key (\<lambda>i. (k i, i)) xs)"
    by (simp add: map_sort_key [of "\<lambda>i. (k i, i)" "\<lambda>x. x"])
  then show ?thesis by (simp add: comp_def)
qed

lemma sort_fst_key: "map snd (sort_key fst (map (\<lambda>i. (k i, i)) xs)) = sort_key k xs"
proof -
  have "sort_key fst (map (\<lambda>i. (k i, i)) xs) = map (\<lambda>i. (k i, i)) (sort_key k xs)"
    using map_sort_key [of "\<lambda>i. (k i, i)" fst xs] by simp
  then show ?thesis by (simp add: comp_def)
qed

section \<open>The policies\<close>

record balancer_env =
  be_fnv :: "8 word list list \<Rightarrow> u64"
  be_ln :: "rat \<Rightarrow> rat"
  be_powf :: "rat \<Rightarrow> rat \<Rightarrow> rat"
  be_random :: "nat \<Rightarrow> rat"

definition least_conn_score :: "upstream_group \<Rightarrow> store \<Rightarrow> nat \<Rightarrow> rat" where
  "least_conn_score g st i =
     (let active = (case nth_opt (ug_active_conns g) i of None \<Rightarrow> 0 | Some a \<Rightarrow> st_conns st a);
          w = max (weight g i) 1
      in f64_div (f64_of_nat (unat active)) (of_nat w))"

definition order_least_conn :: "upstream_group \<Rightarrow> store \<Rightarrow> nat list \<Rightarrow> nat list" where
  "order_least_conn g st servers =
     map snd (sort (map (\<lambda>i. (least_conn_score g st i, i)) servers))"

definition server_latency_score :: "upstream_group \<Rightarrow> store \<Rightarrow> nat \<Rightarrow> u64" where
  "server_latency_score g st i =
     (case nth_opt (ug_metrics g) i of
        None \<Rightarrow> - 1
      | Some a \<Rightarrow>
          (let metric = st_metrics st a in
           if lm_rtt_count metric \<noteq> 0
           then lm_total_rtt_micros metric div lm_rtt_count metric
           else if lm_last_rtt_micros metric > 0 then lm_last_rtt_micros metric
           else 1000000 div word_of_nat (max (weight g i) 1)))"

definition order_latency :: "upstream_group \<Rightarrow> store \<Rightarrow> nat list \<Rightarrow> nat list" where
  "order_latency g st servers =
     map snd (sort (map (\<lambda>i. (server_latency_score g st i, i)) servers))"

text \<open>The regional presets of \<open>r3v3rs3-api/src/geoip.rs\<close>, without their display names.\<close>

definition regional_presets :: "(string \<times> string list) list" where
  "regional_presets = [
     (''turkey'', [''TR'']),
     (''eu'', [''AT'', ''BE'', ''BG'', ''CY'', ''CZ'', ''DE'', ''DK'', ''EE'', ''ES'', ''FI'', ''FR'', ''GR'', ''HR'', ''HU'',
               ''IE'', ''IT'', ''LT'', ''LU'', ''LV'', ''MT'', ''NL'', ''PL'', ''PT'', ''RO'', ''SE'', ''SI'', ''SK'']),
     (''na'', [''US'', ''CA'', ''MX'']),
     (''g7'', [''US'', ''CA'', ''GB'', ''DE'', ''FR'', ''IT'', ''JP'']),
     (''dach'', [''DE'', ''AT'', ''CH'']),
     (''apac'', [''JP'', ''KR'', ''SG'', ''AU'', ''NZ'', ''IN'']),
     (''latam'', [''BR'', ''AR'', ''CL'', ''CO'', ''PE'', ''MX'']),
     (''mena'', [''TR'', ''SA'', ''AE'', ''EG'', ''QA'', ''KW'', ''OM'', ''BH'', ''JO'']),
     (''nordic'', [''SE'', ''NO'', ''FI'', ''DK'', ''IS''])]"

definition lookup_preset :: "string \<Rightarrow> string list option" where
  "lookup_preset i = map_option snd (find (\<lambda>p. fst p = i) regional_presets)"

definition is_country_match :: "group_server \<Rightarrow> string \<Rightarrow> bool" where
  "is_country_match m country \<longleftrightarrow>
     list_ex (\<lambda>c. eq_ignore_ascii_case c country) (gs_countries m) \<or>
     (case gs_region m of None \<Rightarrow> False | Some r \<Rightarrow> eq_ignore_ascii_case r country)"

definition is_region_preset_match :: "group_server \<Rightarrow> string \<Rightarrow> bool" where
  "is_region_preset_match m country =
     (case gs_region m of None \<Rightarrow> False
      | Some region \<Rightarrow>
          (case lookup_preset region of None \<Rightarrow> False
           | Some countries \<Rightarrow> list_ex (\<lambda>c. eq_ignore_ascii_case c country) countries))"

definition server_geo_tier :: "upstream_group \<Rightarrow> nat \<Rightarrow> string option \<Rightarrow> nat" where
  "server_geo_tier g i client_country =
     (case client_country of None \<Rightarrow> 0
      | Some country \<Rightarrow>
          (case nth_opt (ug_members g) i of None \<Rightarrow> 3
           | Some m \<Rightarrow>
               if is_country_match m country then 0
               else if is_region_preset_match m country then 1
               else if gs_region m = None \<and> gs_countries m = [] then 2
               else 3))"

definition order_geo_proximity :: "upstream_group \<Rightarrow> store \<Rightarrow> nat list \<Rightarrow> ip_addr \<Rightarrow> nat list" where
  "order_geo_proximity g st servers client =
     (let country = geoip_country g client in
      map (\<lambda>(_, _, i). i)
        (sort (map (\<lambda>i. (server_geo_tier g i country, server_latency_score g st i, i)) servers)))"

text \<open>
  \<open>hash_score\<close> divides by the weight of the server; only servers with a positive weight are
  ordered.  \<open>(1u64 << 53) as f64 + 1.0\<close> is rounded, like every \<open>f64\<close> operation.
\<close>

definition hash_score :: "balancer_env \<Rightarrow> upstream_group \<Rightarrow> nat \<Rightarrow> ip_addr \<Rightarrow> rat" where
  "hash_score e g i client =
     (let h = be_fnv e [octets (to_canonical client),
                        map (\<lambda>c. word_of_nat (of_char c)) (server_addr g i)];
          u = f64_div (f64_add (f64_of_nat (unat (drop_bit 11 h))) 1) (f64_add (f64_of_nat (2 ^ 53)) 1)
      in f64_div (- be_ln e u) (of_nat (weight g i)))"

definition order_hash :: "balancer_env \<Rightarrow> upstream_group \<Rightarrow> nat list \<Rightarrow> ip_addr \<Rightarrow> nat list" where
  "order_hash e g servers client =
     map snd (sort_key fst (map (\<lambda>i. (hash_score e g i client, i)) servers))"

text \<open>The \<open>n\<close>-th random number of a call belongs to the \<open>n\<close>-th server of the list.\<close>

definition order_random :: "balancer_env \<Rightarrow> upstream_group \<Rightarrow> nat list \<Rightarrow> nat list" where
  "order_random e g servers =
     map snd (sort_key (\<lambda>(k, _). - k)
       (map (\<lambda>(n, i). (be_powf e (be_random e n) (f64_div 1 (of_nat (weight g i))), i))
         (enumerate 0 servers)))"

text \<open>
  The smooth weighted round robin.  \<open>rr_scan\<close> is the loop over the servers: it adds the weight of
  each server to its current weight and keeps the first position with the highest current weight.
\<close>

fun rr_scan ::
    "upstream_group \<Rightarrow> nat \<Rightarrow> nat list \<Rightarrow> int list \<Rightarrow> (nat \<times> int) option \<Rightarrow> int list \<times> (nat \<times> int) option" where
  "rr_scan g pos [] current best = (current, best)"
| "rr_scan g pos (i # rest) current best =
     (case nth_opt current i of
        None \<Rightarrow> rr_scan g (Suc pos) rest current best
      | Some v \<Rightarrow>
          let v' = v + int (weight g i);
              best' = (if (case best of None \<Rightarrow> True | Some (_, best_v) \<Rightarrow> v' > best_v)
                       then Some (pos, v') else best)
          in rr_scan g (Suc pos) rest (current[i := v']) best')"

definition order_round_robin :: "upstream_group \<Rightarrow> nat list \<Rightarrow> nat list \<times> upstream_group" where
  "order_round_robin g servers =
     (let total = sum_list (map (\<lambda>i. int (weight g i)) servers);
          (current, best) = rr_scan g 0 servers (ug_current_weights g) None
      in case best of
           None \<Rightarrow> (servers, g\<lparr>ug_current_weights := current\<rparr>)
         | Some (pos, _) \<Rightarrow>
             let current' =
               (case nth_opt servers pos of
                  None \<Rightarrow> current
                | Some i \<Rightarrow> (case nth_opt current i of
                    None \<Rightarrow> current | Some v \<Rightarrow> current[i := v - total]))
             in (rotate pos servers, g\<lparr>ug_current_weights := current'\<rparr>))"

text \<open>Only the round robin changes the group.\<close>

definition order ::
    "balancer_env \<Rightarrow> upstream_group \<Rightarrow> store \<Rightarrow> nat list \<Rightarrow> ip_addr \<Rightarrow> nat list \<times> upstream_group" where
  "order e g st servers client =
     (case ug_policy g of
        RoundRobin \<Rightarrow> order_round_robin g servers
      | LeastConn \<Rightarrow> (order_least_conn g st servers, g)
      | Random \<Rightarrow> (order_random e g servers, g)
      | First \<Rightarrow> (servers, g)
      | ClientIpHash \<Rightarrow> (order_hash e g servers client, g)
      | GeoProximity \<Rightarrow> (order_geo_proximity g st servers client, g)
      | Latency \<Rightarrow> (order_latency g st servers, g))"

section \<open>The policies implement the interfaces\<close>

lemma order_geo_proximity_key:
  "order_geo_proximity g st servers client =
     sort_key (\<lambda>i. (server_geo_tier g i (geoip_country g client), server_latency_score g st i, i)) servers"
proof -
  let ?k = "\<lambda>i. (server_geo_tier g i (geoip_country g client), server_latency_score g st i, i)"
  have "sort (map ?k servers) = map ?k (sort_key ?k servers)"
    by (simp add: map_sort_key [of ?k "\<lambda>x. x"])
  then show ?thesis by (simp add: order_geo_proximity_def comp_def)
qed

interpretation least_conn: keyed_order "\<lambda>i. (least_conn_score g st i, i)" "order_least_conn g st" for g st
  by unfold_locales (simp add: order_least_conn_def sort_pairs_key)

interpretation latency: keyed_order "\<lambda>i. (server_latency_score g st i, i)" "order_latency g st" for g st
  by unfold_locales (simp add: order_latency_def sort_pairs_key)

interpretation geo: keyed_order
  "\<lambda>i. (server_geo_tier g i (geoip_country g client), server_latency_score g st i, i)"
  "\<lambda>servers. order_geo_proximity g st servers client" for g st client
  by unfold_locales (rule order_geo_proximity_key)

interpretation client_hash: keyed_order "\<lambda>i. hash_score e g i client" "\<lambda>servers. order_hash e g servers client"
  for e g client
  by unfold_locales (simp add: order_hash_def sort_fst_key)

interpretation random_order: server_order "order_random e g" for e g
proof unfold_locales
  fix xs
  have *: "mset (map snd (sort_key f ps)) = mset (map snd ps)" for f :: "rat \<times> nat \<Rightarrow> rat" and ps
    by (simp only: mset_map mset_sort)
  show "mset (order_random e g xs) = mset xs"
    unfolding order_random_def * by (simp add: comp_def case_prod_unfold)
qed

interpretation round_robin: server_order "\<lambda>servers. fst (order_round_robin g servers)" for g
  by unfold_locales
    (auto simp: order_round_robin_def Let_def split: prod.splits option.splits)

interpretation policy_order: server_order "\<lambda>servers. fst (order e g st servers client)" for e g st client
  by unfold_locales
    (simp add: order_def least_conn.ord_mset latency.ord_mset geo.ord_mset client_hash.ord_mset
      random_order.ord_mset round_robin.ord_mset split: load_balancing.splits)


section \<open>The smooth weighted round robin is fair\<close>

text \<open>What the scan leaves behind: every listed server gained its weight, and the kept position is
  the position of a highest current weight.\<close>

lemma rr_scan_length [simp]: "length (fst (rr_scan g pos xs current best)) = length current"
  by (induction g pos xs current best rule: rr_scan.induct)
    (auto simp: Let_def split: option.splits)

lemma rr_scan_current:
  assumes "distinct xs" and "\<forall>i \<in> set xs. i < length current" and "j < length current"
  shows "fst (rr_scan g pos xs current best) ! j =
    current ! j + (if j \<in> set xs then int (weight g j) else 0)"
  using assms
  by (induction g pos xs current best rule: rr_scan.induct)
    (auto simp: Let_def nth_list_update split: option.splits)

text \<open>The value of the kept position dominates the current weights of the scanned servers.\<close>

lemma rr_scan_best:
  assumes "distinct xs" and "\<forall>i \<in> set xs. i < length current"
  shows "case snd (rr_scan g pos xs current best) of
      None \<Rightarrow> best = None \<and> xs = []
    | Some (p, v) \<Rightarrow>
        (best = Some (p, v) \<or>
          (\<exists>k < length xs. p = pos + k \<and> v = current ! (xs ! k) + int (weight g (xs ! k)))) \<and>
        (\<forall>i \<in> set xs. current ! i + int (weight g i) \<le> v) \<and>
        (case best of None \<Rightarrow> True | Some (_, t) \<Rightarrow> t \<le> v)"
  using assms
proof (induction g pos xs current best rule: rr_scan.induct)
  case (1 g pos current best)
  then show ?case by (auto split: option.splits)
next
  case (2 g pos i rest current best)
  let ?v = "current ! i + int (weight g i)"
  let ?b = "if (case best of None \<Rightarrow> True | Some (_, t) \<Rightarrow> ?v > t) then Some (pos, ?v) else best"
  have i: "i < length current" "i \<notin> set rest" "distinct rest" "\<forall>j \<in> set rest. j < length current"
    using "2.prems" by auto
  have same: "(current[i := ?v]) ! j = current ! j" if "j \<in> set rest" for j
    using that i by (metis nth_list_update_neq)
  have IH: "case snd (rr_scan g (Suc pos) rest (current[i := ?v]) ?b) of
      None \<Rightarrow> ?b = None \<and> rest = []
    | Some (p, v) \<Rightarrow>
        (?b = Some (p, v) \<or>
          (\<exists>k < length rest. p = Suc pos + k \<and> v = (current[i := ?v]) ! (rest ! k) + int (weight g (rest ! k)))) \<and>
        (\<forall>j \<in> set rest. (current[i := ?v]) ! j + int (weight g j) \<le> v) \<and>
        (case ?b of None \<Rightarrow> True | Some (_, t) \<Rightarrow> t \<le> v)"
    using "2.IH"(2) [of "current ! i" ?v ?b] i by simp
  have step: "rr_scan g pos (i # rest) current best = rr_scan g (Suc pos) rest (current[i := ?v]) ?b"
    using i by (simp add: Let_def)
  obtain p v where r: "snd (rr_scan g (Suc pos) rest (current[i := ?v]) ?b) = Some (p, v)"
    using IH by (cases "snd (rr_scan g (Suc pos) rest (current[i := ?v]) ?b)")
      (auto split: option.splits if_splits)
  have b: "?b = Some (pos, ?v) \<or> ?b = best \<and> best \<noteq> None" by (cases best) auto
  have top: "?v \<le> v" and low: "case best of None \<Rightarrow> True | Some (_, t) \<Rightarrow> t \<le> v"
    using IH r by (auto split: option.splits if_splits)
  have src: "?b = Some (p, v) \<or>
      (\<exists>k < length rest. p = Suc pos + k \<and> v = current ! (rest ! k) + int (weight g (rest ! k)))"
    using IH r same by (fastforce simp: in_set_conv_nth)
  with b have "best = Some (p, v) \<or>
      (\<exists>k < length (i # rest). p = pos + k \<and> v = current ! ((i # rest) ! k) + int (weight g ((i # rest) ! k)))"
    by (auto split: if_splits intro: exI [of _ 0] exI [of _ "Suc k" for k])
  moreover have "\<forall>j \<in> set (i # rest). current ! j + int (weight g j) \<le> v"
    using IH r same top by auto
  ultimately show ?case using step r low by simp
qed

text \<open>One call: the first server of the new order has a highest current weight, every listed
  server gains its weight, and the first one loses the total.\<close>

lemma order_round_robin_step:
  assumes "distinct servers" and "servers \<noteq> []"
    and "\<forall>i \<in> set servers. i < length (ug_current_weights g)"
  shows "\<exists>p \<in> set servers. hd (fst (order_round_robin g servers)) = p \<and>
    (\<forall>i \<in> set servers. ug_current_weights g ! i + int (weight g i) \<le>
        ug_current_weights g ! p + int (weight g p)) \<and>
    snd (order_round_robin g servers) = g\<lparr>ug_current_weights := map
      (\<lambda>j. ug_current_weights g ! j + (if j \<in> set servers then int (weight g j) else 0)
         - (if j = p then \<Sum>i \<in> set servers. int (weight g i) else 0))
      [0..<length (ug_current_weights g)]\<rparr>"
proof -
  let ?c = "ug_current_weights g"
  let ?W = "\<Sum>i \<in> set servers. int (weight g i)"
  obtain cur best where scan: "rr_scan g 0 servers ?c None = (cur, best)" by fastforce
  have len: "length cur = length ?c" and cur: "\<And>j. j < length ?c \<Longrightarrow>
      cur ! j = ?c ! j + (if j \<in> set servers then int (weight g j) else 0)"
    using rr_scan_length [of g 0 servers ?c None] rr_scan_current [OF assms(1,3), where g = g and pos = 0 and best = None] scan
    by auto
  have "case best of None \<Rightarrow> servers = []
    | Some (p, v) \<Rightarrow> (\<exists>k < length servers. p = k \<and> v = ?c ! (servers ! k) + int (weight g (servers ! k))) \<and>
        (\<forall>i \<in> set servers. ?c ! i + int (weight g i) \<le> v)"
    using rr_scan_best [OF assms(1,3), where g = g and pos = 0 and best = None] scan by (auto split: option.splits)
  with assms(2) obtain k v where k: "best = Some (k, v)" "k < length servers"
    and v: "v = ?c ! (servers ! k) + int (weight g (servers ! k))"
    and vmax: "\<forall>i \<in> set servers. ?c ! i + int (weight g i) \<le> v"
    by (auto split: option.splits)
  let ?p = "servers ! k"
  have p: "?p \<in> set servers" "?p < length ?c" using k assms(3) by auto
  have total: "sum_list (map (\<lambda>i. int (weight g i)) servers) = ?W"
    using assms(1) by (simp add: sum_list_distinct_conv_sum_set)
  have res: "order_round_robin g servers =
      (rotate k servers, g\<lparr>ug_current_weights := cur[?p := cur ! ?p - ?W]\<rparr>)"
    using k p len scan total by (simp add: order_round_robin_def)
  have "hd (rotate k servers) = ?p"
    using hd_rotate_conv_nth [OF assms(2), of k] k by simp
  moreover have "cur[?p := cur ! ?p - ?W] = map (\<lambda>j. ?c ! j +
        (if j \<in> set servers then int (weight g j) else 0) - (if j = ?p then ?W else 0)) [0..<length ?c]"
    using p len cur by (intro nth_equalityI) (auto simp: nth_list_update)
  ultimately show ?thesis using p(1) vmax v res by (intro bexI [of _ ?p]) auto
qed

text \<open>Successive calls on the same list of servers: the first servers they return, and the group
  they leave.\<close>

fun rr_run :: "upstream_group \<Rightarrow> nat list \<Rightarrow> nat \<Rightarrow> nat list \<times> upstream_group" where
  "rr_run g servers 0 = ([], g)"
| "rr_run g servers (Suc n) =
     (let (picks, g1) = rr_run g servers n;
          (ordered, g2) = order_round_robin g1 servers
      in (picks @ [hd ordered], g2))"

text \<open>
  The invariant of successive calls from zeroed current weights: the current weight of a server
  is its fair share of the calls minus the calls it got, both scaled by the total weight, and it
  never falls to minus the total weight.
\<close>

lemma rr_run_invariant:
  assumes "distinct servers" and "0 < W" and W: "W = (\<Sum>i \<in> set servers. weight g i)"
    and "\<forall>i \<in> set servers. i < length (ug_current_weights g)"
    and "\<forall>i \<in> set servers. ug_current_weights g ! i = 0"
  shows "\<exists>c. snd (rr_run g servers n) = g\<lparr>ug_current_weights := c\<rparr> \<and>
    length c = length (ug_current_weights g) \<and>
    (\<forall>j < length c. j \<notin> set servers \<longrightarrow> c ! j = ug_current_weights g ! j) \<and>
    (\<forall>i \<in> set servers. c ! i =
        int n * int (weight g i) - int W * int (count_list (fst (rr_run g servers n)) i) \<and> - int W < c ! i) \<and>
    (\<Sum>i \<in> set servers. c ! i) = 0 \<and> length (fst (rr_run g servers n)) = n \<and>
    set (fst (rr_run g servers n)) \<subseteq> set servers"
proof (induction n)
  case 0
  show ?case using assms(2,4,5) by (intro exI [of _ "ug_current_weights g"]) simp
next
  case (Suc n)
  obtain picks g1 where run: "rr_run g servers n = (picks, g1)" by fastforce
  from Suc [unfolded run fst_conv snd_conv] obtain c where c: "g1 = g\<lparr>ug_current_weights := c\<rparr>"
      "length c = length (ug_current_weights g)"
      "\<And>j. j < length c \<Longrightarrow> j \<notin> set servers \<Longrightarrow> c ! j = ug_current_weights g ! j"
      "\<And>i. i \<in> set servers \<Longrightarrow> c ! i = int n * int (weight g i) - int W * int (count_list picks i)"
      "\<And>i. i \<in> set servers \<Longrightarrow> - int W < c ! i"
      "(\<Sum>i \<in> set servers. c ! i) = 0" "length picks = n" "set picks \<subseteq> set servers"
    by blast
  have ne: "servers \<noteq> []" using assms(2) W by auto
  have wt: "weight g1 i = weight g i" for i by (simp add: weight_def c(1))
  have cw: "ug_current_weights g1 = c" by (simp add: c(1))
  have Wint: "(\<Sum>i \<in> set servers. int (weight g i)) = int W" using W by simp
  obtain ordered g2 where rr: "order_round_robin g1 servers = (ordered, g2)" by fastforce
  have "\<forall>i \<in> set servers. i < length (ug_current_weights g1)" using assms(4) c(2) cw by simp
  from order_round_robin_step [OF assms(1) ne this] rr obtain p where p: "p \<in> set servers" "hd ordered = p"
      "\<forall>i \<in> set servers. c ! i + int (weight g i) \<le> c ! p + int (weight g p)"
      "g2 = g1\<lparr>ug_current_weights := map (\<lambda>j. c ! j + (if j \<in> set servers then int (weight g j) else 0)
         - (if j = p then int W else 0)) [0..<length c]\<rparr>"
    by (auto simp: wt cw Wint)
  define c' where "c' = map (\<lambda>j. c ! j + (if j \<in> set servers then int (weight g j) else 0)
         - (if j = p then int W else 0)) [0..<length c]"
  have c'_nth: "c' ! i = c ! i + int (weight g i) - (if i = p then int W else 0)" if "i \<in> set servers" for i
    using that assms(4) c(2) by (simp add: c'_def)
  have gain: "(\<Sum>i \<in> set servers. c ! i + int (weight g i)) = int W"
    using c(6) Wint by (simp add: sum.distrib)
  have pos: "0 < c ! p + int (weight g p)"
  proof (rule ccontr)
    assume "\<not> 0 < c ! p + int (weight g p)"
    then have "\<And>i. i \<in> set servers \<Longrightarrow> c ! i + int (weight g i) \<le> 0" using p(3) by force
    then have "(\<Sum>i \<in> set servers. c ! i + int (weight g i)) \<le> 0" by (rule sum_nonpos)
    with gain assms(2) show False by simp
  qed
  have share: "c' ! i = int (Suc n) * int (weight g i) - int W * int (count_list (picks @ [p]) i)"
    if "i \<in> set servers" for i
    using c(4) [OF that] c'_nth [OF that] by (auto simp: algebra_simps)
  have low: "- int W < c' ! i" if "i \<in> set servers" for i
    using c(5) [OF that] c'_nth [OF that] pos by auto
  have "(\<Sum>i \<in> set servers. c' ! i) =
      (\<Sum>i \<in> set servers. c ! i + int (weight g i)) - (\<Sum>i \<in> set servers. if i = p then int W else 0)"
    by (simp add: c'_nth sum_subtractf)
  also have "\<dots> = 0" using gain p(1) by simp
  finally have zero: "(\<Sum>i \<in> set servers. c' ! i) = 0" .
  have same: "c' ! j = ug_current_weights g ! j" if "j < length c'" "j \<notin> set servers" for j
    using that p(1) c(3) by (auto simp: c'_def)
  have g2: "g2 = g\<lparr>ug_current_weights := c'\<rparr>" using p(4) c(1) by (simp add: c'_def)
  have out: "rr_run g servers (Suc n) = (picks @ [p], g2)" using run rr p(2) by simp
  show ?case
    using g2 out share low zero same p(1) c(2,7,8)
    by (intro exI [of _ c']) (simp add: c'_def)
qed

text \<open>After as many calls as the total weight, every server was first exactly as often as its
  weight says, and the current weights are back where they started.\<close>

lemma rr_run_period:
  assumes "distinct servers" and "0 < W" and W: "W = (\<Sum>i \<in> set servers. weight g i)"
    and len: "\<forall>i \<in> set servers. i < length (ug_current_weights g)"
    and zero: "\<forall>i \<in> set servers. ug_current_weights g ! i = 0"
  shows "snd (rr_run g servers W) = g" and "\<forall>i \<in> set servers. count_list (fst (rr_run g servers W)) i = weight g i"
proof -
  let ?n = "count_list (fst (rr_run g servers W))"
  from rr_run_invariant [OF assms, of W] obtain c where c:
      "snd (rr_run g servers W) = g\<lparr>ug_current_weights := c\<rparr>" "length c = length (ug_current_weights g)"
      "\<And>j. j < length c \<Longrightarrow> j \<notin> set servers \<Longrightarrow> c ! j = ug_current_weights g ! j"
      "\<And>i. i \<in> set servers \<Longrightarrow> c ! i = int W * int (weight g i) - int W * int (?n i)"
      "\<And>i. i \<in> set servers \<Longrightarrow> - int W < c ! i"
      "length (fst (rr_run g servers W)) = W" "set (fst (rr_run g servers W)) \<subseteq> set servers"
    by blast
  have le: "?n i \<le> weight g i" if "i \<in> set servers" for i
  proof -
    have "int W * (int (weight g i) - int (?n i)) > int W * (-1)"
      using c(4,5) [OF that] by (simp add: right_diff_distrib)
    then have "int (weight g i) - int (?n i) > -1"
      using assms(2) by (simp only: mult_less_cancel_left_pos of_nat_0_less_iff)
    then show ?thesis by simp
  qed
  have "(\<Sum>i \<in> set servers. ?n i) = W"
    using sum_count_set [of "fst (rr_run g servers W)" "set servers"] c(6,7) by simp
  then have "(\<Sum>i \<in> set servers. ?n i) = (\<Sum>i \<in> set servers. weight g i)" using W by simp
  then have eq: "\<forall>i \<in> set servers. ?n i = weight g i"
    using sum_mono_inv [of ?n "set servers" "weight g"] le by auto
  then show "\<forall>i \<in> set servers. ?n i = weight g i" .
  have "c = ug_current_weights g"
  proof (rule nth_equalityI)
    fix j assume j: "j < length c"
    show "c ! j = ug_current_weights g ! j"
      by (cases "j \<in> set servers") (use j c(3,4) eq zero in auto)
  qed (rule c(2))
  then show "snd (rr_run g servers W) = g" using c(1) by simp
qed

lemma rr_run_add:
  "rr_run g servers (m + n) =
     (fst (rr_run g servers m) @ fst (rr_run (snd (rr_run g servers m)) servers n),
      snd (rr_run (snd (rr_run g servers m)) servers n))"
  by (induction n) (auto simp: case_prod_unfold Let_def)

lemma rr_run_periods:
  assumes "distinct servers" and "0 < W" and W: "W = (\<Sum>i \<in> set servers. weight g i)"
    and len: "\<forall>i \<in> set servers. i < length (ug_current_weights g)"
    and zero: "\<forall>i \<in> set servers. ug_current_weights g ! i = 0"
  shows "snd (rr_run g servers (k * W)) = g \<and>
    (\<forall>i \<in> set servers. count_list (fst (rr_run g servers (k * W))) i = k * weight g i)"
proof (induction k)
  case (Suc k)
  have "rr_run g servers (Suc k * W) = rr_run g servers (k * W + W)" by (simp add: add.commute)
  then show ?case
    using Suc rr_run_period [OF assms] by (simp add: rr_run_add)
qed simp

text \<open>
  C6: the smooth weighted round robin is exactly fair.  While the list of eligible servers stays
  the same, over any multiple \<open>k\<close> of the total weight every server is first exactly \<open>k\<close> times its
  weight and the current weights return to their initial value; and at no moment in between does
  a server get a whole turn more than its share.
\<close>

theorem round_robin_fair:
  assumes "distinct servers" and "0 < (\<Sum>i \<in> set servers. weight g i)"
    and "\<forall>i \<in> set servers. i < length (ug_current_weights g) \<and> ug_current_weights g ! i = 0"
  shows "snd (rr_run g servers (k * (\<Sum>i \<in> set servers. weight g i))) = g \<and>
    (\<forall>i \<in> set servers.
       count_list (fst (rr_run g servers (k * (\<Sum>i \<in> set servers. weight g i)))) i = k * weight g i) \<and>
    (\<forall>i \<in> set servers. (\<Sum>i \<in> set servers. weight g i) * count_list (fst (rr_run g servers n)) i <
       n * weight g i + (\<Sum>i \<in> set servers. weight g i))"
proof -
  let ?W = "\<Sum>i \<in> set servers. weight g i"
  have len: "\<forall>i \<in> set servers. i < length (ug_current_weights g)"
    and zero: "\<forall>i \<in> set servers. ug_current_weights g ! i = 0" using assms(3) by auto
  have "?W * count_list (fst (rr_run g servers n)) i < n * weight g i + ?W" if "i \<in> set servers" for i
  proof -
    have "- int ?W < int n * int (weight g i) - int ?W * int (count_list (fst (rr_run g servers n)) i)"
      using rr_run_invariant [OF assms(1,2) refl len zero, of n] that by fastforce
    then have "int (?W * count_list (fst (rr_run g servers n)) i) < int (n * weight g i + ?W)"
      by (simp only: of_nat_mult of_nat_add)
    then show ?thesis by (simp only: of_nat_less_iff)
  qed
  then show ?thesis
    using rr_run_periods [OF assms(1,2) refl len zero, of k] by blast
qed

text \<open>Groups on which the theorems are evaluated: one server per given address and weight.\<close>

definition sample_group :: "load_balancing \<Rightarrow> (string \<times> nat) list \<Rightarrow> upstream_group" where
  "sample_group policy servers =
     \<lparr>ug_members = map (\<lambda>(a, w). \<lparr>gs_addr = a, gs_weight = w, gs_region = None, gs_countries = []\<rparr>) servers,
      ug_policy = policy,
      ug_health_check = health_check_default,
      ug_servers = map (\<lambda>_. server_health_default) servers,
      ug_current_weights = map (\<lambda>_. 0) servers,
      ug_circuit_breaker = circuit_breaker_default\<lparr>cb_enabled := True\<rparr>,
      ug_breakers = map (\<lambda>_. breaker_default) servers,
      ug_probe = None,
      ug_active_conns = [0..<length servers],
      ug_metrics = [0..<length servers],
      ug_geoip = None\<rparr>"

definition sample_store :: store where
  "sample_store = \<lparr>st_conns = (\<lambda>_. 0), st_metrics = (\<lambda>_. live_metrics_default), st_next = 100\<rparr>"

lemma weight_sample_group:
  "weight (sample_group p servers) i = (if i < length servers then snd (servers ! i) else 0)"
  by (simp add: weight_def sample_group_def nth_opt_def case_prod_unfold)

lemma weights_sample_group: "ug_current_weights (sample_group p servers) = map (\<lambda>_. 0) servers"
  by (simp add: sample_group_def)

theorem round_robin_fair_witness:
  "count_list (fst (rr_run (sample_group RoundRobin [(''a'', 5), (''b'', 1), (''c'', 1)]) [0, 1, 2] 14)) 0 = 10"
  using round_robin_fair [of "[0, 1, 2]" "sample_group RoundRobin [(''a'', 5), (''b'', 1), (''c'', 1)]" 2]
  by (simp add: weight_sample_group weights_sample_group numeral_2_eq_2)

section \<open>Least connections\<close>

lemma conns_times_weight:
  assumes "a < 2 ^ 36" and "w \<le> u16_max"
  shows "a * w < (2 :: nat) ^ 52"
proof -
  have "a * w \<le> (2 ^ 36 - 1) * (2 ^ 16 - 1)"
    using assms by (intro mult_mono) (auto simp: u16_max_def)
  also have "\<dots> < 2 ^ 52" by simp
  finally show ?thesis .
qed

text \<open>
  C35: the least-connections policy picks the server with the lowest ratio of active connections
  to weight.  The comparison of the rounded \<open>f64\<close> scores agrees with the comparison of the exact
  fractions for every count below \<open>2^36\<close>, so no rounding error ever prefers a busier server, and
  equal ratios fall back to the list position.
\<close>

theorem least_conn_picks_lowest_ratio:
  assumes "group_wf g" and "i \<in> set servers" and "\<forall>j \<in> set servers. 0 < weight g j"
    and "\<forall>j \<in> set servers. unat (active_connections g st j) < 2 ^ 36"
    and "f = hd (order_least_conn g st servers)"
  shows "f \<in> set servers \<and>
    unat (active_connections g st f) * weight g i \<le> unat (active_connections g st i) * weight g f \<and>
    (unat (active_connections g st f) * weight g i = unat (active_connections g st i) * weight g f \<longrightarrow> f \<le> i)"
proof -
  have ne: "order_least_conn g st servers \<noteq> []"
    using assms(2) least_conn.ord_length [of g st servers] by force
  then have f: "f \<in> set servers"
    using assms(5) hd_in_set [OF ne] least_conn.ord_set by metis
  have score: "least_conn_score g st j =
      f64_div (f64_of_nat (unat (active_connections g st j))) (of_nat (weight g j))"
    if "j \<in> set servers" for j
  proof -
    have "max (weight g j) 1 = weight g j" using assms(3) that by (simp add: Suc_leI max_absorb1)
    then show ?thesis by (simp only: least_conn_score_def active_connections_def Let_def)
  qed
  have cmp: "least_conn_score g st j < least_conn_score g st k \<longleftrightarrow>
      unat (active_connections g st j) * weight g k < unat (active_connections g st k) * weight g j"
    if jk: "j \<in> set servers" "k \<in> set servers" for j k
  proof -
    have a: "unat (active_connections g st j) < 2 ^ 36" "unat (active_connections g st k) < 2 ^ 36"
      using assms(4) jk by auto
    have "unat (active_connections g st j) * weight g k + unat (active_connections g st k) * weight g j < 2 ^ 52 + 2 ^ 52"
      using a conns_times_weight weight_le_u16 [OF assms(1)] by (intro add_strict_mono) auto
    also have "\<dots> = (2 :: nat) ^ 53" by simp
    finally show ?thesis
      unfolding score [OF jk(1)] score [OF jk(2)]
      using a assms(3) jk by (intro f64_div_nat_less_iff) auto
  qed
  have "(least_conn_score g st f, f) \<le> (least_conn_score g st i, i)"
    using least_conn.kord_first_minimal [OF assms(2), of g st] assms(5) by simp
  then have min: "least_conn_score g st f < least_conn_score g st i \<or>
      least_conn_score g st f = least_conn_score g st i \<and> f \<le> i"
    by auto
  then have "\<not> least_conn_score g st i < least_conn_score g st f" by auto
  with cmp [OF assms(2) f] min cmp [OF f assms(2)] f show ?thesis by auto
qed

theorem least_conn_picks_lowest_ratio_witness:
  "hd (order_least_conn (sample_group LeastConn [(''a'', 1), (''b'', 3)])
      (sample_store\<lparr>st_conns := (\<lambda>a. if a = 0 then 1 else 2)\<rparr>) [0, 1]) = 1"
proof -
  let ?g = "sample_group LeastConn [(''a'', 1), (''b'', 3)]"
  let ?st = "sample_store\<lparr>st_conns := (\<lambda>a. if a = 0 then 1 else 2)\<rparr>"
  have wf: "group_wf ?g"
    by (simp add: group_wf_def sample_group_def u16_max_def breaker_wf_def breaker_default_def)
  have act: "active_connections ?g ?st 0 = 1" "active_connections ?g ?st 1 = 2"
    by (simp_all add: active_connections_def sample_group_def nth_opt_def)
  have w: "weight ?g 0 = 1" "weight ?g 1 = 3" by (simp_all add: weight_sample_group)
  show ?thesis
    using least_conn_picks_lowest_ratio [OF wf, of 1 "[0, 1]" ?st "hd (order_least_conn ?g ?st [0, 1])"] act w
    by auto
qed

section \<open>The client IP hash\<close>

text \<open>The score of a server depends on its address and weight only, not on its place in the list.\<close>

definition member_score :: "balancer_env \<Rightarrow> ip_addr \<Rightarrow> group_server \<Rightarrow> rat" where
  "member_score e client m =
     (let h = be_fnv e [octets (to_canonical client), map (\<lambda>c. word_of_nat (of_char c)) (gs_addr m)];
          u = f64_div (f64_add (f64_of_nat (unat (drop_bit 11 h))) 1) (f64_add (f64_of_nat (2 ^ 53)) 1)
      in f64_div (- be_ln e u) (of_nat (gs_weight m)))"

lemma hash_score_member:
  "i < length (ug_members g) \<Longrightarrow> hash_score e g i client = member_score e client (ug_members g ! i)"
  by (simp add: hash_score_def member_score_def server_addr_def weight_def)

lemma sort_key_cong: "(\<And>x. x \<in> set xs \<Longrightarrow> f x = g x) \<Longrightarrow> sort_key f xs = sort_key g xs"
proof (induction xs)
  case (Cons x xs)
  have "insort_key f x ys = insort_key g x ys" if "\<forall>y \<in> set ys. f y = g y" for ys
    using that Cons.prems by (induction ys) auto
  with Cons show ?case by simp
qed simp

lemma order_hash_members:
  "map (\<lambda>i. ug_members g ! i) (order_hash e g [0..<length (ug_members g)] client) =
     sort_key (member_score e client) (ug_members g)"
proof -
  let ?xs = "[0..<length (ug_members g)]"
  have "order_hash e g ?xs client = sort_key (\<lambda>i. member_score e client (ug_members g ! i)) ?xs"
    unfolding client_hash.kord_sort by (rule sort_key_cong) (simp add: hash_score_member)
  then show ?thesis by (simp add: map_sort_key [of "(!) (ug_members g)" "member_score e client"] map_nth)
qed

text \<open>
  the client IP hash is a rendezvous hash.  When servers leave the group, the order of the
  remaining servers stays the same for every client, whatever the hash function is: only the
  clients whose first server left move, and they move to the next server of their old order.
\<close>

theorem hash_order_survives_removal:
  assumes "ug_members g' = filter P (ug_members g)"
  shows "map (\<lambda>i. ug_members g' ! i) (order_hash e g' [0..<length (ug_members g')] client) =
    filter P (map (\<lambda>i. ug_members g ! i) (order_hash e g [0..<length (ug_members g)] client))"
  unfolding order_hash_members using assms by (simp add: filter_sort)

end
