(* ===== verification/Group.thy ===== *)
theory Group
  imports Balancer
begin

text \<open>
  The operations of \<open>UpstreamGroup\<close>, \<open>Permit\<close>, \<open>ConnGuard\<close> and \<open>Probe\<close> of \<open>proxy/health.rs\<close>.

  A method takes the group (and the store of the shared cells) and returns the new ones; the time
  that the code reads with \<open>Instant::now()\<close> is an argument.  Log messages are left out.
\<close>

section \<open>A new group\<close>

definition upstream_group_new ::
    "group_server list \<Rightarrow> load_balancing \<Rightarrow> health_check \<Rightarrow> store \<Rightarrow> upstream_group \<times> store" where
  "upstream_group_new members policy hc st =
     (let n = length members; cells = [st_next st..<st_next st + n] in
      (\<lparr>ug_members = members,
        ug_policy = policy,
        ug_health_check = hc,
        ug_servers = replicate n server_health_default,
        ug_current_weights = replicate n 0,
        ug_circuit_breaker = circuit_breaker_default,
        ug_breakers = replicate n breaker_default,
        ug_probe = None,
        ug_active_conns = cells,
        ug_metrics = cells,
        ug_geoip = None\<rparr>,
       st\<lparr>st_conns := (\<lambda>a. if a \<in> set cells then 0 else st_conns st a),
          st_metrics := (\<lambda>a. if a \<in> set cells then live_metrics_default else st_metrics st a),
          st_next := st_next st + n\<rparr>))"

definition with_circuit_breaker :: "upstream_group \<Rightarrow> circuit_breaker \<Rightarrow> upstream_group" where
  "with_circuit_breaker g cb = g\<lparr>ug_circuit_breaker := cb\<rparr>"

text \<open>\<open>if let (Some(prev), Some(new)) = (old.get(prev_idx), new.get(new_idx)) { *new = prev }\<close>.\<close>

definition inherit_slot :: "'a list \<Rightarrow> nat \<Rightarrow> 'a list \<Rightarrow> nat \<Rightarrow> 'a list" where
  "inherit_slot old prev_idx new new_idx =
     (case (nth_opt old prev_idx, nth_opt new new_idx) of
        (Some prev, Some _) \<Rightarrow> new[new_idx := prev]
      | _ \<Rightarrow> new)"

definition inherit_member_state ::
    "upstream_group \<Rightarrow> nat \<Rightarrow> nat \<Rightarrow> upstream_group \<Rightarrow> upstream_group" where
  "inherit_member_state previous new_idx prev_idx g =
     g\<lparr>ug_servers := inherit_slot (ug_servers previous) prev_idx (ug_servers g) new_idx,
       ug_breakers := inherit_slot (ug_breakers previous) prev_idx (ug_breakers g) new_idx,
       ug_active_conns := inherit_slot (ug_active_conns previous) prev_idx (ug_active_conns g) new_idx,
       ug_metrics := inherit_slot (ug_metrics previous) prev_idx (ug_metrics g) new_idx\<rparr>"

text \<open>The server of the previous group with the same address hands its state over.\<close>

definition inherit_state :: "upstream_group \<Rightarrow> upstream_group \<Rightarrow> upstream_group" where
  "inherit_state previous g =
     fold (\<lambda>new_idx g'.
         case position (\<lambda>m. gs_addr m = gs_addr (ug_members g ! new_idx)) (ug_members previous) of
           None \<Rightarrow> g'
         | Some prev_idx \<Rightarrow> inherit_member_state previous new_idx prev_idx g')
       [0..<length (ug_members g)] g"

definition set_probe :: "upstream_group \<Rightarrow> probe \<Rightarrow> upstream_group" where
  "set_probe g p = g\<lparr>ug_probe := Some p\<rparr>"

definition set_geoip :: "upstream_group \<Rightarrow> (ip_addr \<Rightarrow> string option) \<Rightarrow> upstream_group" where
  "set_geoip g lookup = g\<lparr>ug_geoip := Some lookup\<rparr>"

section \<open>Candidates\<close>

definition candidates ::
    "balancer_env \<Rightarrow> upstream_group \<Rightarrow> store \<Rightarrow> ip_addr \<Rightarrow> instant \<Rightarrow> nat list \<times> upstream_group" where
  "candidates e g st client now =
     (let eligible = filter (\<lambda>i. weight g i > 0 \<and> \<not> blocked g i now) [0..<length (ug_members g)];
          is_up = (\<lambda>i. case health g i of None \<Rightarrow> False | Some h \<Rightarrow> is_healthy h now);
          (healthy, unhealthy) = (filter is_up eligible, filter (\<lambda>i. \<not> is_up i) eligible)
      in if healthy = [] then order e g st unhealthy client
         else let (ordered, g') = order e g st healthy client in (ordered @ unhealthy, g'))"

definition is_pinnable :: "upstream_group \<Rightarrow> nat \<Rightarrow> instant \<Rightarrow> bool" where
  "is_pinnable g i now \<longleftrightarrow> \<not> blocked g i now \<and>
     (case health g i of None \<Rightarrow> False | Some h \<Rightarrow> is_healthy h now)"

section \<open>Health reports\<close>

definition report_success :: "upstream_group \<Rightarrow> nat \<Rightarrow> upstream_group" where
  "report_success g i =
     (case health g i of None \<Rightarrow> g
      | Some h \<Rightarrow>
          let h1 = h\<lparr>sh_failures := 0, sh_unhealthy_until := None\<rparr>;
              h2 = (if \<not> sh_check_failed h1 then h1\<lparr>sh_last_error := None\<rparr> else h1)
          in g\<lparr>ug_servers := (ug_servers g)[i := h2]\<rparr>)"

definition report_failure :: "upstream_group \<Rightarrow> nat \<Rightarrow> string \<Rightarrow> instant \<Rightarrow> upstream_group" where
  "report_failure g i error now =
     (case health g i of None \<Rightarrow> g
      | Some h \<Rightarrow>
          let h1 = h\<lparr>sh_last_error := Some error\<rparr>;
              max_fails = hc_max_fails (ug_health_check g);
              h2 = h1\<lparr>sh_failures := sat_add_u32 (sh_failures h1) 1\<rparr>;
              h' = (if max_fails = 0 then h1
                    else if sh_failures h2 < max_fails then h2
                    else h2\<lparr>sh_unhealthy_until := Some (now + hc_fail_timeout (ug_health_check g))\<rparr>)
          in g\<lparr>ug_servers := (ug_servers g)[i := h']\<rparr>)"

definition record_check :: "upstream_group \<Rightarrow> nat \<Rightarrow> string + unit \<Rightarrow> upstream_group" where
  "record_check g i result =
     (case health g i of None \<Rightarrow> g
      | Some h \<Rightarrow>
          let h' = (case result of
                      Inr () \<Rightarrow> server_health_default
                    | Inl error \<Rightarrow> h\<lparr>sh_check_failed := True, sh_last_error := Some error\<rparr>)
          in g\<lparr>ug_servers := (ug_servers g)[i := h']\<rparr>)"

section \<open>The active check\<close>

text \<open>
  What the outside answers to a probe: connecting, connecting and writing the PROXY header,
  resolving a name (the number of addresses), an HTTP status, a gRPC health status.  \<open>None\<close> is an
  answer that does not come within the time limit.
\<close>

record probe_env =
  pe_connect :: "string \<Rightarrow> nat \<Rightarrow> (string + unit) option"
  pe_connect_local :: "string \<Rightarrow> nat \<Rightarrow> (string + unit) option"
  pe_resolve :: "string \<Rightarrow> nat \<Rightarrow> (string + nat) option"
  pe_http :: "string \<Rightarrow> (string + nat) option"
  pe_grpc :: "string \<Rightarrow> string \<Rightarrow> (string + unit) option"
  pe_status_text :: "nat \<Rightarrow> string"
  pe_timeout_text :: "duration \<Rightarrow> string"

definition target :: "'a option list \<Rightarrow> nat \<Rightarrow> string + 'a" where
  "target targets i =
     (case nth_opt targets i of
        Some (Some t) \<Rightarrow> Inr t
      | _ \<Rightarrow> Inl ''the server address has no host or port'')"

definition resolve_host :: "probe_env \<Rightarrow> string \<Rightarrow> nat \<Rightarrow> (string + unit) option" where
  "resolve_host e host port =
     map_option (\<lambda>r. try_then r (\<lambda>n. if n = 0 then Inl (''no IP address found for '' @ host) else Inr ()))
       (pe_resolve e host port)"

definition probe_http :: "probe_env \<Rightarrow> string \<Rightarrow> (string + unit) option" where
  "probe_http e uri =
     map_option (\<lambda>r. try_then r (\<lambda>status.
         if (200 \<le> status \<and> status < 300) \<or> (300 \<le> status \<and> status < 400) then Inr ()
         else Inl (''the active check received status '' @ pe_status_text e status)))
       (pe_http e uri)"

definition probe_run :: "probe_env \<Rightarrow> probe \<Rightarrow> nat \<Rightarrow> (string + unit) option" where
  "probe_run e p i =
     (case p of
        Connect targets \<Rightarrow> (case target targets i of
            Inl err \<Rightarrow> Some (Inl err) | Inr (host, port) \<Rightarrow> pe_connect e host port)
      | ConnectLocal targets \<Rightarrow> (case target targets i of
            Inl err \<Rightarrow> Some (Inl err) | Inr (host, port) \<Rightarrow> pe_connect_local e host port)
      | Resolve targets \<Rightarrow> (case target targets i of
            Inl err \<Rightarrow> Some (Inl err) | Inr (host, port) \<Rightarrow> resolve_host e host port)
      | Http uris \<Rightarrow> (case target uris i of
            Inl err \<Rightarrow> Some (Inl err) | Inr uri \<Rightarrow> probe_http e uri)
      | Grpc targets service \<Rightarrow> (case target targets i of
            Inl err \<Rightarrow> Some (Inl err) | Inr url \<Rightarrow> pe_grpc e url service))"

definition probe_check :: "probe_env \<Rightarrow> probe \<Rightarrow> nat \<Rightarrow> duration \<Rightarrow> string + unit" where
  "probe_check e p i timeout =
     (case probe_run e p i of
        Some r \<Rightarrow> r
      | None \<Rightarrow> Inl (''the active check timed out after '' @ pe_timeout_text e timeout))"

text \<open>\<open>check\<close> records the results in the order in which the tasks finish.\<close>

definition check :: "probe_env \<Rightarrow> upstream_group \<Rightarrow> nat list \<Rightarrow> upstream_group" where
  "check e g finished =
     (case ug_probe g of None \<Rightarrow> g
      | Some p \<Rightarrow>
          fold (\<lambda>i g'. record_check g' i (probe_check e p i (hc_timeout (ug_health_check g)))) finished g)"

section \<open>Permits\<close>

definition record_circuit ::
    "upstream_group \<Rightarrow> nat \<Rightarrow> bool \<Rightarrow> string option \<Rightarrow> instant \<Rightarrow> upstream_group" where
  "record_circuit g i trial failure now =
     (if \<not> cb_enabled (ug_circuit_breaker g) then g
      else case breaker_at g i of None \<Rightarrow> g
      | Some b \<Rightarrow>
          g\<lparr>ug_breakers := (ug_breakers g)[i :=
              snd (record_result b (ug_circuit_breaker g) trial (failure \<noteq> None) now)]\<rparr>)"

definition group_release_trial :: "upstream_group \<Rightarrow> nat \<Rightarrow> upstream_group" where
  "group_release_trial g i =
     (case breaker_at g i of None \<Rightarrow> g
      | Some b \<Rightarrow> g\<lparr>ug_breakers := (ug_breakers g)[i := release_trial b]\<rparr>)"

definition group_circuit_state :: "upstream_group \<Rightarrow> nat \<Rightarrow> circuit_state" where
  "group_circuit_state g i =
     (case breaker_at g i of None \<Rightarrow> StClosed | Some b \<Rightarrow> circuit_state_of b)"

record permit =
  pm_index :: nat
  pm_trial :: bool
  pm_reported :: bool
  pm_active_conn :: "nat option"
  pm_metrics :: "nat option"
  pm_start :: instant

record conn_guard =
  cg_active_conn :: "nat option"
  cg_metrics :: "nat option"

text \<open>\<open>fetch_add\<close> and \<open>fetch_sub\<close> on the counter behind an optional \<open>Arc\<close>, and an update of the
  metrics behind one.\<close>

definition conn_add :: "nat option \<Rightarrow> usize \<Rightarrow> store \<Rightarrow> store" where
  "conn_add cell d st = (case cell of None \<Rightarrow> st
     | Some a \<Rightarrow> st\<lparr>st_conns := (st_conns st)(a := st_conns st a + d)\<rparr>)"

definition metrics_update :: "nat option \<Rightarrow> (live_metrics \<Rightarrow> live_metrics) \<Rightarrow> store \<Rightarrow> store" where
  "metrics_update cell f st = (case cell of None \<Rightarrow> st
     | Some a \<Rightarrow> st\<lparr>st_metrics := (st_metrics st)(a := f (st_metrics st a))\<rparr>)"

definition acquire ::
    "upstream_group \<Rightarrow> store \<Rightarrow> nat \<Rightarrow> instant \<Rightarrow> permit option \<times> upstream_group \<times> store" where
  "acquire g st i now =
     (let (admitted, g1) =
        (if cb_enabled (ug_circuit_breaker g)
         then (case breaker_at g i of
             None \<Rightarrow> (None, g)
           | Some b \<Rightarrow> (let (t, b') = admit b now in
               (t, g\<lparr>ug_breakers := (ug_breakers g)[i := b']\<rparr>)))
         else (Some False, g))
      in case admitted of
           None \<Rightarrow> (None, g1, st)
         | Some trial \<Rightarrow>
             let cell = nth_opt (ug_active_conns g1) i;
                 st1 = conn_add cell 1 st;
                 metrics = nth_opt (ug_metrics g1) i;
                 st2 = metrics_update metrics record_request st1
             in (Some \<lparr>pm_index = i, pm_trial = trial, pm_reported = False,
                       pm_active_conn = cell, pm_metrics = metrics, pm_start = now\<rparr>, g1, st2))"

text \<open>\<open>Permit::record\<close>, \<open>Drop for Permit\<close> and \<open>into_guard\<close>.\<close>

definition permit_record ::
    "permit \<Rightarrow> string option \<Rightarrow> instant \<Rightarrow> upstream_group \<times> store \<Rightarrow> permit \<times> upstream_group \<times> store" where
  "permit_record p failure now gs =
     (let (g, st) = gs;
          elapsed = now - pm_start p;
          st1 = metrics_update (pm_metrics p)
            (\<lambda>m. let m1 = record_rtt m elapsed in if failure \<noteq> None then record_error m1 else m1) st
      in (p\<lparr>pm_reported := True\<rparr>, record_circuit g (pm_index p) (pm_trial p) failure now, st1))"

definition permit_drop :: "permit \<Rightarrow> upstream_group \<times> store \<Rightarrow> upstream_group \<times> store" where
  "permit_drop p gs =
     (let (g, st) = gs;
          st1 = conn_add (pm_active_conn p) (- 1) st
      in (if pm_trial p \<and> \<not> pm_reported p then group_release_trial g (pm_index p) else g, st1))"

definition into_guard ::
    "permit \<Rightarrow> upstream_group \<times> store \<Rightarrow> conn_guard \<times> upstream_group \<times> store" where
  "into_guard p gs =
     (let p1 = p\<lparr>pm_reported := True\<rparr>;
          guard = \<lparr>cg_active_conn = pm_active_conn p1, cg_metrics = pm_metrics p1\<rparr>;
          p2 = p1\<lparr>pm_active_conn := None, pm_metrics := None\<rparr>
      in (guard, permit_drop p2 gs))"

text \<open>The methods that consume a permit end with its drop.\<close>

definition permit_success :: "permit \<Rightarrow> instant \<Rightarrow> upstream_group \<times> store \<Rightarrow> upstream_group \<times> store" where
  "permit_success p now gs =
     (let (g, st) = gs;
          (p', gs') = permit_record p None now (report_success g (pm_index p), st)
      in permit_drop p' gs')"

definition permit_success_keep ::
    "permit \<Rightarrow> instant \<Rightarrow> upstream_group \<times> store \<Rightarrow> conn_guard \<times> upstream_group \<times> store" where
  "permit_success_keep p now gs =
     (let (g, st) = gs;
          (p', gs') = permit_record p None now (report_success g (pm_index p), st)
      in into_guard p' gs')"

definition permit_failure ::
    "permit \<Rightarrow> string \<Rightarrow> instant \<Rightarrow> upstream_group \<times> store \<Rightarrow> upstream_group \<times> store" where
  "permit_failure p error now gs =
     (let (g, st) = gs;
          (p', gs') = permit_record p (Some error) now (report_failure g (pm_index p) error now, st)
      in permit_drop p' gs')"

definition permit_error_response ::
    "permit \<Rightarrow> string \<Rightarrow> instant \<Rightarrow> upstream_group \<times> store \<Rightarrow> upstream_group \<times> store" where
  "permit_error_response p error now gs =
     (let (g, st) = gs;
          (p', gs') = permit_record p (Some error) now (report_success g (pm_index p), st)
      in permit_drop p' gs')"

definition permit_record_bytes :: "permit \<Rightarrow> u64 \<Rightarrow> store \<Rightarrow> store" where
  "permit_record_bytes p bytes st = metrics_update (pm_metrics p) (\<lambda>m. record_bytes m bytes) st"

definition guard_record_bytes :: "conn_guard \<Rightarrow> u64 \<Rightarrow> store \<Rightarrow> store" where
  "guard_record_bytes c bytes st = metrics_update (cg_metrics c) (\<lambda>m. record_bytes m bytes) st"

definition guard_drop :: "conn_guard \<Rightarrow> store \<Rightarrow> store" where
  "guard_drop c st = conn_add (cg_active_conn c) (- 1) st"

section \<open>The health page\<close>

record upstream_health =
  uh_addr :: string
  uh_weight :: nat
  uh_healthy :: bool
  uh_failures :: nat
  uh_last_error :: "string option"
  uh_circuit :: circuit_state
  uh_total_requests :: u64
  uh_active_connections :: usize
  uh_total_errors :: u64
  uh_rtt_ms :: "rat option"
  uh_total_bytes :: u64

definition upstream_health_of :: "upstream_group \<Rightarrow> store \<Rightarrow> instant \<Rightarrow> upstream_health list" where
  "upstream_health_of g st now =
     List.map_filter (\<lambda>(i, m).
       case health g i of None \<Rightarrow> None
       | Some h \<Rightarrow>
           let (requests, errors, rtt, bytes) =
             (case nth_opt (ug_metrics g) i of
                None \<Rightarrow> (0, 0, None, 0)
              | Some a \<Rightarrow> let lm = st_metrics st a in
                  (lm_requests lm, lm_errors lm, avg_rtt_ms lm, lm_total_bytes lm))
           in Some \<lparr>uh_addr = gs_addr m, uh_weight = gs_weight m, uh_healthy = is_healthy h now,
                uh_failures = sh_failures h, uh_last_error = sh_last_error h,
                uh_circuit = group_circuit_state g i, uh_total_requests = requests,
                uh_active_connections = active_connections g st i, uh_total_errors = errors,
                uh_rtt_ms = rtt, uh_total_bytes = bytes\<rparr>)
       (enumerate 0 (ug_members g))"

section \<open>What the operations leave unchanged\<close>

lemma rr_only_weights: "\<exists>c. snd (order_round_robin g servers) = g\<lparr>ug_current_weights := c\<rparr>"
  by (auto simp: order_round_robin_def Let_def split: prod.splits option.splits)

lemma order_only_weights: "\<exists>c. snd (order e g st servers client) = g\<lparr>ug_current_weights := c\<rparr>"
proof -
  have "\<exists>c. g = g\<lparr>ug_current_weights := c\<rparr>" by (rule exI [of _ "ug_current_weights g"]) simp
  then show ?thesis
    using rr_only_weights [of g servers] by (simp add: order_def split: load_balancing.splits)
qed

lemma candidates_only_weights: "\<exists>c. snd (candidates e g st client now) = g\<lparr>ug_current_weights := c\<rparr>"
  using order_only_weights [of e g st _ client]
  by (simp add: candidates_def Let_def case_prod_unfold)

lemma rr_keeps_length: "length (ug_current_weights (snd (order_round_robin g servers))) = length (ug_current_weights g)"
proof -
  have "length c = length (ug_current_weights g)" if "rr_scan g 0 servers (ug_current_weights g) None = (c, b)" for c b
    using rr_scan_length [of g 0 servers "ug_current_weights g" None] that by simp
  then show ?thesis
    by (auto simp: order_round_robin_def Let_def split: prod.splits option.splits)
qed

lemma order_keeps_length: "length (ug_current_weights (snd (order e g st servers client))) = length (ug_current_weights g)"
  by (simp add: order_def rr_keeps_length split: load_balancing.splits)

lemma candidates_keeps_length:
  "length (ug_current_weights (snd (candidates e g st client now))) = length (ug_current_weights g)"
  by (simp add: candidates_def Let_def case_prod_unfold order_keeps_length)

section \<open>Candidates\<close>

definition eligible :: "upstream_group \<Rightarrow> instant \<Rightarrow> nat list" where
  "eligible g now = filter (\<lambda>i. weight g i > 0 \<and> \<not> blocked g i now) [0..<length (ug_members g)]"

definition server_up :: "upstream_group \<Rightarrow> instant \<Rightarrow> nat \<Rightarrow> bool" where
  "server_up g now i = (case health g i of None \<Rightarrow> False | Some h \<Rightarrow> is_healthy h now)"

lemma candidates_split:
  "\<exists>up down. fst (candidates e g st client now) = up @ down \<and>
     mset up = mset (filter (server_up g now) (eligible g now)) \<and>
     mset down = mset (filter (\<lambda>i. \<not> server_up g now i) (eligible g now))"
proof (cases "filter (server_up g now) (eligible g now) = []")
  case True
  then have "fst (candidates e g st client now) =
      [] @ fst (order e g st (filter (\<lambda>i. \<not> server_up g now i) (eligible g now)) client)"
    by (simp add: candidates_def eligible_def server_up_def)
  then show ?thesis using True policy_order.ord_mset by (metis mset.simps(1))
next
  case False
  then have "fst (candidates e g st client now) =
      fst (order e g st (filter (server_up g now) (eligible g now)) client) @
      filter (\<lambda>i. \<not> server_up g now i) (eligible g now)"
    by (simp add: candidates_def eligible_def server_up_def case_prod_unfold Let_def)
  then show ?thesis using policy_order.ord_mset by blast
qed

lemma candidates_mset: "mset (fst (candidates e g st client now)) = mset (eligible g now)"
proof -
  have "mset (filter P xs) + mset (filter (\<lambda>x. \<not> P x) xs) = mset xs" for P :: "nat \<Rightarrow> bool" and xs
    by (induction xs) auto
  then show ?thesis using candidates_split [of e g st client now] by auto
qed

lemma candidates_set: "set (fst (candidates e g st client now)) = set (eligible g now)"
  by (rule mset_eq_setD [OF candidates_mset])

lemma candidates_distinct: "distinct (fst (candidates e g st client now))"
  using mset_eq_imp_distinct_iff [OF candidates_mset [of e g st client now]] by (simp add: eligible_def)

lemma set_eligible:
  "set (eligible g now) = {i. i < length (ug_members g) \<and> 0 < weight g i \<and> \<not> blocked g i now}"
  by (auto simp: eligible_def)

lemma acquire_unblocked:
  assumes "\<not> blocked g i now" and "i < length (ug_breakers g)"
  shows "fst (acquire g st i now) \<noteq> None"
proof (cases "cb_enabled (ug_circuit_breaker g)")
  case True
  then have "\<not> blocks (ug_breakers g ! i) now" using assms by (simp add: blocked_def breaker_at_def)
  then show ?thesis
    using assms(2) True by (simp add: acquire_def breaker_at_def admit_def Let_def)
qed (simp add: acquire_def Let_def)

text \<open>
  C23: the candidates of a request are exactly the servers with a positive weight whose circuit
  lets traffic through, each once; every healthy server comes before every unhealthy one; and at
  that moment each of them can be acquired.  So a request fails for lack of a candidate only when
  every server is drained or blocked, never because all servers are unhealthy.
\<close>

theorem candidates_complete_and_ordered:
  assumes "group_wf g" and "candidates e g st client now = (cs, g')"
  shows "distinct cs \<and>
    set cs = {i. i < length (ug_members g) \<and> 0 < weight g i \<and> \<not> blocked g i now} \<and>
    (\<forall>b < length cs. \<forall>a < b. server_up g now (cs ! b) \<longrightarrow> server_up g now (cs ! a)) \<and>
    (\<forall>i \<in> set cs. fst (acquire g' st i now) \<noteq> None)"
proof -
  obtain up down where split: "cs = up @ down" "mset up = mset (filter (server_up g now) (eligible g now))"
      "mset down = mset (filter (\<lambda>i. \<not> server_up g now i) (eligible g now))"
    using candidates_split [of e g st client now, unfolded assms(2) fst_conv] by blast
  have up: "\<forall>i \<in> set up. server_up g now i" and down: "\<forall>i \<in> set down. \<not> server_up g now i"
    using split(2,3) [THEN mset_eq_setD] by auto
  have order: "server_up g now (cs ! a)" if "b < length cs" "a < b" "server_up g now (cs ! b)" for a b
  proof -
    have "b < length up"
    proof (rule ccontr)
      assume b: "\<not> b < length up"
      then have "cs ! b = down ! (b - length up)" "b - length up < length down"
        using that(1) split(1) by (auto simp: nth_append)
      with down that(3) show False by (metis nth_mem)
    qed
    then show ?thesis using up that split(1) by (simp add: nth_append)
  qed
  obtain c where g': "g' = g\<lparr>ug_current_weights := c\<rparr>"
    using candidates_only_weights [of e g st client now, unfolded assms(2) snd_conv] by blast
  have set: "set cs = {i. i < length (ug_members g) \<and> 0 < weight g i \<and> \<not> blocked g i now}"
    using candidates_set [of e g st client now] assms(2) set_eligible by simp
  have acq: "fst (acquire g' st i now) \<noteq> None" if "i \<in> set cs" for i
  proof (rule acquire_unblocked)
    have i: "\<not> blocked g i now" "i < length (ug_members g)" using that set by auto
    show "\<not> blocked g' i now" using i(1) by (simp add: g' blocked_def breaker_at_def)
    show "i < length (ug_breakers g')" using i(2) group_wf_lengths(3) [OF assms(1)] by (simp add: g')
  qed
  have "distinct cs" using candidates_distinct [of e g st client now] assms(2) by simp
  then show ?thesis using set order acq by blast
qed

lemma group_wf_sample:
  "(\<And>a w. (a, w) \<in> set servers \<Longrightarrow> w \<le> u16_max) \<Longrightarrow> group_wf (sample_group p servers)"
  by (auto simp: group_wf_def sample_group_def list_all_iff)

lemma blocked_sample [simp]: "\<not> blocked (sample_group p servers) i now"
  by (simp add: blocked_def breaker_at_def nth_opt_def blocks_def breaker_default_def sample_group_def)

lemma members_sample [simp]: "length (ug_members (sample_group p servers)) = length servers"
  by (simp add: sample_group_def)

definition sample_env :: balancer_env where
  "sample_env = \<lparr>be_fnv = (\<lambda>_. 7), be_ln = (\<lambda>x. x), be_powf = (\<lambda>x y. x), be_random = (\<lambda>_. 0)\<rparr>"

theorem candidates_complete_and_ordered_witness:
  "set (fst (candidates sample_env (sample_group First [(''a'', 1), (''b'', 0), (''c'', 2)]) sample_store (V4 0) 5)) =
     {0, 2}"
proof -
  let ?g = "sample_group First [(''a'', 1), (''b'', 0), (''c'', 2)]"
  have wf: "group_wf ?g" by (rule group_wf_sample) (auto simp: u16_max_def)
  have "{i. i < length (ug_members ?g) \<and> 0 < weight ?g i \<and> \<not> blocked ?g i 5} = {0, 2}"
    by (auto simp: weight_sample_group less_Suc_eq numeral_3_eq_3 numeral_2_eq_2 split: if_splits)
  then show ?thesis
    using candidates_complete_and_ordered [OF wf, of sample_env sample_store "V4 0" 5
        "fst (candidates sample_env ?g sample_store (V4 0) 5)"
        "snd (candidates sample_env ?g sample_store (V4 0) 5)"]
    by simp
qed

section \<open>The passive health check\<close>

lemmas report_defs = report_success_def report_failure_def record_check_def health_def

lemma report_health_check [frame_simps]:
  "ug_health_check (report_success g i) = ug_health_check g"
  "ug_health_check (report_failure g i error now) = ug_health_check g"
  by (simp_all add: report_defs Let_def split: option.splits)

lemma report_servers_length [frame_simps]:
  "length (ug_servers (report_success g i)) = length (ug_servers g)"
  "length (ug_servers (report_failure g i error now)) = length (ug_servers g)"
  "length (ug_servers (record_check g i r)) = length (ug_servers g)"
  by (simp_all add: report_defs Let_def split: option.splits)

text \<open>The health of a server after a report on any server.\<close>

lemma health_report_success:
  "health (report_success g j) i =
     (if i = j then map_option (\<lambda>h. h\<lparr>sh_failures := 0, sh_unhealthy_until := None,
          sh_last_error := if sh_check_failed h then sh_last_error h else None\<rparr>) (health g i)
      else health g i)"
  by (auto simp: report_defs nth_opt_def Let_def)

lemma health_report_failure:
  "health (report_failure g j error now) i =
     (if i = j then map_option (\<lambda>h.
        let n = sat_add_u32 (sh_failures h) 1; m = hc_max_fails (ug_health_check g) in
        if m = 0 then h\<lparr>sh_last_error := Some error\<rparr>
        else if n < m then h\<lparr>sh_last_error := Some error, sh_failures := n\<rparr>
        else h\<lparr>sh_last_error := Some error, sh_failures := n,
          sh_unhealthy_until := Some (now + hc_fail_timeout (ug_health_check g))\<rparr>) (health g i)
      else health g i)"
  by (auto simp: report_defs nth_opt_def Let_def)

datatype passive_report = Answered | Failed string instant

fun apply_report :: "nat \<times> passive_report \<Rightarrow> upstream_group \<Rightarrow> upstream_group" where
  "apply_report (i, Answered) g = report_success g i"
| "apply_report (i, Failed error now) g = report_failure g i error now"

definition reports_of :: "nat \<Rightarrow> (nat \<times> passive_report) list \<Rightarrow> passive_report list" where
  "reports_of i rs = map snd (filter (\<lambda>r. fst r = i) rs)"

text \<open>The consecutive failures at the end of a sequence of reports, and the time of the last one.\<close>

definition trailing_failures :: "passive_report list \<Rightarrow> nat" where
  "trailing_failures rs = length (takeWhile (\<lambda>r. r \<noteq> Answered) (rev rs))"

definition last_failure :: "passive_report list \<Rightarrow> instant" where
  "last_failure rs = (case rev rs of Failed _ now # _ \<Rightarrow> now | _ \<Rightarrow> 0)"

lemma trailing_failures_snoc [simp]:
  "trailing_failures [] = 0"
  "trailing_failures (rs @ [Answered]) = 0"
  "trailing_failures (rs @ [Failed e t]) = Suc (trailing_failures rs)"
  "last_failure (rs @ [Failed e t]) = t"
  by (simp_all add: trailing_failures_def last_failure_def)

lemma reports_of_snoc [simp]:
  "reports_of i (rs @ [(j, r)]) = (if j = i then reports_of i rs @ [r] else reports_of i rs)"
  by (simp add: reports_of_def)

lemma passive_health_state:
  assumes "health g i = Some h" and "sh_failures h = 0" and "sh_unhealthy_until h = None"
    and "\<not> sh_check_failed h" and "hc_max_fails (ug_health_check g) = m" and "0 < m" and "m \<le> u32_max"
  shows "ug_health_check (fold apply_report rs g) = ug_health_check g \<and>
    length (ug_servers (fold apply_report rs g)) = length (ug_servers g) \<and>
    (\<exists>h'. health (fold apply_report rs g) i = Some h' \<and> \<not> sh_check_failed h' \<and>
      sh_failures h' = min (trailing_failures (reports_of i rs)) u32_max \<and>
      sh_unhealthy_until h' = (if m \<le> trailing_failures (reports_of i rs)
        then Some (last_failure (reports_of i rs) + hc_fail_timeout (ug_health_check g)) else None))"
    (is "?P rs")
proof (induction rs rule: rev_induct)
  case Nil
  then show ?case using assms by (simp add: reports_of_def)
next
  case (snoc r rs)
  obtain j q where r: "r = (j, q)" by (cases r)
  let ?g = "fold apply_report rs g"
  let ?k = "trailing_failures (reports_of i rs)"
  from snoc obtain h' where IH: "ug_health_check ?g = ug_health_check g" "length (ug_servers ?g) = length (ug_servers g)"
      "health ?g i = Some h'" "\<not> sh_check_failed h'" "sh_failures h' = min ?k u32_max"
      "sh_unhealthy_until h' = (if m \<le> ?k
        then Some (last_failure (reports_of i rs) + hc_fail_timeout (ug_health_check g)) else None)"
    by blast
  show ?case
  proof (cases q)
    case Answered
    then show ?thesis
      using IH assms(6) r by (cases "j = i") (auto simp: health_report_success frame_simps)
  next
    case (Failed e t)
    have "sat_add_u32 (min ?k u32_max) 1 = min (Suc ?k) u32_max"
      and "min (Suc ?k) u32_max < m \<longleftrightarrow> \<not> m \<le> Suc ?k"
      using assms(7) by (auto simp: sat_add_u32_def)
    then show ?thesis
      using IH assms(5,6) r Failed
      by (cases "j = i") (auto simp: health_report_failure frame_simps Let_def)
  qed
qed



end
