(* ===== verification/Group_Run.thy ===== *)
theory Group_Run
  imports Group
begin

text \<open>
  An upstream group in use: requests, connections and health checks call the operations of
  \<open>Group\<close> in any order and at any times, and hold permits and connection guards in between.  The
  step relation has one rule per operation; the permits and guards that are out at a moment are
  multisets.  The invariant relates them to the circuits and to the connection counters.
\<close>

section \<open>The step relation\<close>

record group_sys =
  sy_group :: upstream_group
  sy_store :: store
  sy_permits :: "permit multiset"
  sy_guards :: "conn_guard multiset"

inductive group_step :: "group_sys \<Rightarrow> group_sys \<Rightarrow> bool" where
  candidates: "candidates e (sy_group s) (sy_store s) client now = (cs, g') \<Longrightarrow>
    group_step s (s\<lparr>sy_group := g'\<rparr>)"
| acquire: "acquire (sy_group s) (sy_store s) i now = (Some p, g', st') \<Longrightarrow>
    group_step s (s\<lparr>sy_group := g', sy_store := st', sy_permits := add_mset p (sy_permits s)\<rparr>)"
| refused: "acquire (sy_group s) (sy_store s) i now = (None, g', st') \<Longrightarrow>
    group_step s (s\<lparr>sy_group := g', sy_store := st'\<rparr>)"
| success: "p \<in># sy_permits s \<Longrightarrow> permit_success p now (sy_group s, sy_store s) = (g', st') \<Longrightarrow>
    group_step s (s\<lparr>sy_group := g', sy_store := st', sy_permits := sy_permits s - {#p#}\<rparr>)"
| success_keep: "p \<in># sy_permits s \<Longrightarrow>
    permit_success_keep p now (sy_group s, sy_store s) = (c, g', st') \<Longrightarrow>
    group_step s (s\<lparr>sy_group := g', sy_store := st', sy_permits := sy_permits s - {#p#},
      sy_guards := add_mset c (sy_guards s)\<rparr>)"
| failure: "p \<in># sy_permits s \<Longrightarrow> permit_failure p err now (sy_group s, sy_store s) = (g', st') \<Longrightarrow>
    group_step s (s\<lparr>sy_group := g', sy_store := st', sy_permits := sy_permits s - {#p#}\<rparr>)"
| error_response: "p \<in># sy_permits s \<Longrightarrow>
    permit_error_response p err now (sy_group s, sy_store s) = (g', st') \<Longrightarrow>
    group_step s (s\<lparr>sy_group := g', sy_store := st', sy_permits := sy_permits s - {#p#}\<rparr>)"
| drop_permit: "p \<in># sy_permits s \<Longrightarrow> permit_drop p (sy_group s, sy_store s) = (g', st') \<Longrightarrow>
    group_step s (s\<lparr>sy_group := g', sy_store := st', sy_permits := sy_permits s - {#p#}\<rparr>)"
| permit_bytes: "p \<in># sy_permits s \<Longrightarrow>
    group_step s (s\<lparr>sy_store := permit_record_bytes p bytes (sy_store s)\<rparr>)"
| guard_bytes: "c \<in># sy_guards s \<Longrightarrow>
    group_step s (s\<lparr>sy_store := guard_record_bytes c bytes (sy_store s)\<rparr>)"
| drop_guard: "c \<in># sy_guards s \<Longrightarrow>
    group_step s (s\<lparr>sy_store := guard_drop c (sy_store s), sy_guards := sy_guards s - {#c#}\<rparr>)"
| active_check: "group_step s (s\<lparr>sy_group := check pe (sy_group s) finished\<rparr>)"

inductive group_reach :: "group_sys \<Rightarrow> group_sys \<Rightarrow> bool" where
  refl: "group_reach s s"
| step: "group_reach s t \<Longrightarrow> group_step t u \<Longrightarrow> group_reach s u"

section \<open>The ledger\<close>

text \<open>
  What the permits and guards that are out say about the circuits and counters: a half-open
  circuit with a running trial has exactly one trial permit, every other circuit has none, and a
  counter is the number of permits and guards on it (modulo \<open>2^64\<close>, as the atomic counts).
\<close>

definition trials :: "nat \<Rightarrow> permit multiset \<Rightarrow> nat" where
  "trials i ps = size (filter_mset (\<lambda>p. pm_index p = i \<and> pm_trial p) ps)"

definition on_cell :: "nat \<Rightarrow> permit multiset \<Rightarrow> conn_guard multiset \<Rightarrow> nat" where
  "on_cell a ps gs = size (filter_mset (\<lambda>p. pm_active_conn p = Some a) ps) +
     size (filter_mset (\<lambda>c. cg_active_conn c = Some a) gs)"

definition permit_ok :: "upstream_group \<Rightarrow> permit \<Rightarrow> bool" where
  "permit_ok g p \<longleftrightarrow> \<not> pm_reported p \<and> pm_active_conn p = nth_opt (ug_active_conns g) (pm_index p) \<and>
     (pm_trial p \<longrightarrow> pm_index p < length (ug_breakers g) \<and> cb_enabled (ug_circuit_breaker g))"

definition ledger :: "group_sys \<Rightarrow> bool" where
  "ledger s \<longleftrightarrow>
     (\<forall>p \<in># sy_permits s. permit_ok (sy_group s) p) \<and>
     (\<forall>i < length (ug_breakers (sy_group s)). trials i (sy_permits s) =
        (if br_circuit (ug_breakers (sy_group s) ! i) = HalfOpen True then 1 else 0)) \<and>
     (\<forall>a. a \<in> set (ug_active_conns (sy_group s)) \<longrightarrow>
        st_conns (sy_store s) a = of_nat (on_cell a (sy_permits s) (sy_guards s)))"

text \<open>The group as far as the ledger sees it.\<close>

definition same_books :: "upstream_group \<Rightarrow> upstream_group \<Rightarrow> bool" where
  "same_books g h \<longleftrightarrow> ug_active_conns h = ug_active_conns g \<and>
     ug_circuit_breaker h = ug_circuit_breaker g \<and> ug_breakers h = ug_breakers g"

lemma same_books_permit_ok: "same_books g h \<Longrightarrow> permit_ok h p = permit_ok g p"
  by (simp add: permit_ok_def same_books_def)

lemma ledger_same_books:
  assumes "ledger s" and "same_books (sy_group s) g" and "st_conns st = st_conns (sy_store s)"
  shows "ledger (s\<lparr>sy_group := g, sy_store := st\<rparr>)"
  using assms same_books_permit_ok [OF assms(2)]
  by (auto simp: ledger_def same_books_def)

lemma same_books_reports [simp]:
  "same_books g (report_success g i)" "same_books g (report_failure g i error now)"
  "same_books g (record_check g i r)"
  by (simp_all add: same_books_def report_defs Let_def split: option.splits)

lemma same_books_candidates: "same_books g (snd (candidates e g st client now))"
  using candidates_only_weights [of e g st client now] by (auto simp: same_books_def)

lemma same_books_trans: "same_books g h \<Longrightarrow> same_books h k \<Longrightarrow> same_books g k"
  by (simp add: same_books_def)

lemma same_books_check: "same_books g (check pe g finished)"
proof (cases "ug_probe g")
  case (Some p)
  have "same_books g (fold (\<lambda>i g'. record_check g' i (r i)) xs h)" if "same_books g h" for r xs h
    using that
  proof (induction xs arbitrary: h)
    case (Cons i xs)
    have "same_books g (record_check h i (r i))"
      using Cons.prems same_books_reports(3) by (rule same_books_trans)
    then show ?case using Cons.IH by simp
  qed simp
  then show ?thesis using Some by (simp add: check_def same_books_def)
qed (simp add: check_def same_books_def)

lemma metrics_update_conns [simp]: "st_conns (metrics_update cell f st) = st_conns st"
  by (simp add: metrics_update_def split: option.splits)

section \<open>The circuits\<close>

lemma record_result_half_open:
  "br_circuit (snd (record_result b config trial failed now)) = HalfOpen True \<longleftrightarrow>
     br_circuit b = HalfOpen True \<and> \<not> trial"
  by (auto simp: record_result_def finish_trial_def Let_def open_breaker_def breaker_default_def
      split: circuit.splits)

lemma admit_half_open:
  "admit b now = (Some t, b') \<Longrightarrow> br_circuit b \<noteq> HalfOpen True \<and> (br_circuit b' = HalfOpen True \<longleftrightarrow> t)"
  by (auto simp: admit_def blocks_def split: if_splits circuit.splits)

lemma admit_refused: "admit b now = (None, b') \<Longrightarrow> b' = b"
  by (auto simp: admit_def split: if_splits)

lemma release_half_open: "br_circuit (release_trial b) \<noteq> HalfOpen True"
  by (simp add: release_trial_def)

text \<open>How the multisets change.\<close>

lemma trials_add [simp]: "trials i (add_mset p ps) = trials i ps + (if pm_index p = i \<and> pm_trial p then 1 else 0)"
  by (simp add: trials_def)

lemma trials_remove:
  "p \<in># ps \<Longrightarrow> trials i ps = trials i (ps - {#p#}) + (if pm_index p = i \<and> pm_trial p then 1 else 0)"
  using trials_add [of i p "ps - {#p#}"] by simp

lemma on_cell_add [simp]:
  "on_cell a (add_mset p ps) gs = on_cell a ps gs + (if pm_active_conn p = Some a then 1 else 0)"
  "on_cell a ps (add_mset c gs) = on_cell a ps gs + (if cg_active_conn c = Some a then 1 else 0)"
  by (simp_all add: on_cell_def)

lemma on_cell_remove_permit:
  "p \<in># ps \<Longrightarrow> on_cell a ps gs = on_cell a (ps - {#p#}) gs + (if pm_active_conn p = Some a then 1 else 0)"
  using on_cell_add(1) [of a p "ps - {#p#}" gs] by simp

lemma on_cell_remove_guard:
  "c \<in># gs \<Longrightarrow> on_cell a ps gs = on_cell a ps (gs - {#c#}) + (if cg_active_conn c = Some a then 1 else 0)"
  using on_cell_add(2) [of a ps c "gs - {#c#}"] by simp

lemma conn_add_conns:
  "st_conns (conn_add cell d st) a = st_conns st a + (if cell = Some a then d else 0)"
  by (simp add: conn_add_def split: option.splits)

section \<open>Every step keeps the ledger\<close>

text \<open>Taking a permit out of the books: its trial, if it was one, ends, and its count moves on.\<close>

definition settles :: "permit \<Rightarrow> upstream_group \<Rightarrow> upstream_group \<Rightarrow> bool" where
  "settles p g h \<longleftrightarrow> ug_active_conns h = ug_active_conns g \<and>
     ug_circuit_breaker h = ug_circuit_breaker g \<and>
     length (ug_breakers h) = length (ug_breakers g) \<and>
     (\<forall>i < length (ug_breakers g). br_circuit (ug_breakers h ! i) = HalfOpen True \<longleftrightarrow>
        br_circuit (ug_breakers g ! i) = HalfOpen True \<and> \<not> (i = pm_index p \<and> pm_trial p))"

lemma settles_record_circuit:
  assumes "permit_ok g p"
  shows "settles p g (record_circuit g (pm_index p) (pm_trial p) failure now)"
  using assms record_result_half_open
  by (auto simp: settles_def record_circuit_def permit_ok_def breaker_at_def nth_list_update nth_opt_Some_iff
      split: option.splits)

lemma settles_release:
  assumes "permit_ok g p" and "pm_trial p"
  shows "settles p g (group_release_trial g (pm_index p))"
  using assms release_half_open
  by (auto simp: settles_def group_release_trial_def permit_ok_def breaker_at_def nth_list_update nth_opt_Some_iff
      split: option.splits)

lemma settles_no_trial: "\<not> pm_trial p \<Longrightarrow> settles p g g"
  by (simp add: settles_def)

lemma settles_same_books: "same_books g g1 \<Longrightarrow> settles p g1 h \<Longrightarrow> settles p g h"
  by (simp add: settles_def same_books_def)

lemma settles_permit_ok: "settles p g h \<Longrightarrow> permit_ok h q = permit_ok g q"
  by (simp add: settles_def permit_ok_def)

lemma ledger_settle:
  assumes L: "ledger s" and p: "p \<in># sy_permits s" and st: "settles p (sy_group s) g"
    and conns: "\<And>a. a \<in> set (ug_active_conns (sy_group s)) \<Longrightarrow>
      st_conns st a = of_nat (on_cell a (sy_permits s - {#p#}) gs)"
  shows "ledger (s\<lparr>sy_group := g, sy_store := st, sy_permits := sy_permits s - {#p#}, sy_guards := gs\<rparr>)"
proof -
  let ?ps = "sy_permits s"
  have "trials i (?ps - {#p#}) = (if br_circuit (ug_breakers g ! i) = HalfOpen True then 1 else 0)"
    if i: "i < length (ug_breakers (sy_group s))" for i
  proof -
    have old: "trials i ?ps = (if br_circuit (ug_breakers (sy_group s) ! i) = HalfOpen True then 1 else 0)"
      using L i by (simp add: ledger_def)
    have new: "br_circuit (ug_breakers g ! i) = HalfOpen True \<longleftrightarrow>
        br_circuit (ug_breakers (sy_group s) ! i) = HalfOpen True \<and> \<not> (i = pm_index p \<and> pm_trial p)"
      using st i by (simp add: settles_def)
    show ?thesis using old new trials_remove [OF p, of i] by (auto split: if_splits)
  qed
  moreover have "permit_ok g q" if "q \<in># ?ps - {#p#}" for q
    using L that settles_permit_ok [OF st] by (auto simp: ledger_def dest: in_diffD)
  ultimately show ?thesis
    using st conns by (simp add: ledger_def settles_def)
qed

text \<open>The four methods that consume a permit: they settle it, and release its count or hand it to
  the guard.\<close>

lemma permit_drop_reported:
  "permit_drop (p\<lparr>pm_reported := True\<rparr>) (g, st) = (g, conn_add (pm_active_conn p) (- 1) st)"
  by (simp add: permit_drop_def)

lemma permit_finish_conns:
  assumes "permit_success p now (g, st) = (g', st') \<or> permit_failure p err now (g, st) = (g', st') \<or>
    permit_error_response p err now (g, st) = (g', st')"
  shows "(\<exists>h failure. same_books g h \<and> g' = record_circuit h (pm_index p) (pm_trial p) failure now) \<and>
    st_conns st' = st_conns (conn_add (pm_active_conn p) (- 1) st)"
  using assms
  by (auto simp: permit_success_def permit_failure_def permit_error_response_def permit_record_def
      permit_drop_reported Let_def fun_eq_iff conn_add_conns)
    (blast intro: same_books_reports)+

lemma permit_keep_conns:
  assumes "permit_success_keep p now (g, st) = (c, g', st')"
  shows "(\<exists>h failure. same_books g h \<and> g' = record_circuit h (pm_index p) (pm_trial p) failure now) \<and>
    st_conns st' = st_conns st \<and> cg_active_conn c = pm_active_conn p"
  using assms
  by (auto simp: permit_success_keep_def permit_record_def into_guard_def permit_drop_def Let_def conn_add_def)
    (blast intro: same_books_reports)

lemma settles_finish:
  assumes "permit_ok g p" and "same_books g h"
  shows "settles p g (record_circuit h (pm_index p) (pm_trial p) failure now)"
  using assms settles_record_circuit settles_same_books same_books_permit_ok by blast

lemma ledger_release_count:
  assumes L: "ledger s" and p: "p \<in># sy_permits s" and st: "settles p (sy_group s) g"
    and conns: "st_conns st = st_conns (conn_add (pm_active_conn p) (- 1) (sy_store s))"
  shows "ledger (s\<lparr>sy_group := g, sy_store := st, sy_permits := sy_permits s - {#p#}\<rparr>)"
proof -
  have "ledger (s\<lparr>sy_group := g, sy_store := st, sy_permits := sy_permits s - {#p#}, sy_guards := sy_guards s\<rparr>)"
  proof (rule ledger_settle [OF L p st])
    fix a assume "a \<in> set (ug_active_conns (sy_group s))"
    then have "st_conns (sy_store s) a = of_nat (on_cell a (sy_permits s) (sy_guards s))"
      using L by (simp add: ledger_def)
    then show "st_conns st a = of_nat (on_cell a (sy_permits s - {#p#}) (sy_guards s))"
      using on_cell_remove_permit [OF p, of a "sy_guards s"] conns by (simp add: conn_add_conns)
  qed
  then show ?thesis by simp
qed

lemma ledger_finish:
  assumes L: "ledger s" and p: "p \<in># sy_permits s"
    and fin: "permit_success p now (sy_group s, sy_store s) = (g', st') \<or>
      permit_failure p err now (sy_group s, sy_store s) = (g', st') \<or>
      permit_error_response p err now (sy_group s, sy_store s) = (g', st')"
  shows "ledger (s\<lparr>sy_group := g', sy_store := st', sy_permits := sy_permits s - {#p#}\<rparr>)"
proof -
  have ok: "permit_ok (sy_group s) p" using L p by (simp add: ledger_def)
  obtain h failure where h: "same_books (sy_group s) h"
      "g' = record_circuit h (pm_index p) (pm_trial p) failure now"
      "st_conns st' = st_conns (conn_add (pm_active_conn p) (- 1) (sy_store s))"
    using permit_finish_conns [OF fin] by blast
  show ?thesis
    unfolding h(2) by (rule ledger_release_count [OF L p settles_finish [OF ok h(1)] h(3)])
qed

lemma acquire_Some_cases:
  assumes "acquire g st i now = (Some p, g', st')"
  shows "pm_index p = i \<and> \<not> pm_reported p \<and> pm_active_conn p = nth_opt (ug_active_conns g) i \<and>
    st_conns st' = st_conns (conn_add (nth_opt (ug_active_conns g) i) 1 st) \<and>
    (if cb_enabled (ug_circuit_breaker g)
     then \<exists>b b'. breaker_at g i = Some b \<and> admit b now = (Some (pm_trial p), b') \<and>
       g' = g\<lparr>ug_breakers := (ug_breakers g)[i := b']\<rparr>
     else g' = g \<and> \<not> pm_trial p)"
proof (cases "cb_enabled (ug_circuit_breaker g)")
  case False
  then show ?thesis using assms by (auto simp: acquire_def Let_def)
next
  case True
  obtain b where b: "breaker_at g i = Some b"
    using assms True by (cases "breaker_at g i") (simp_all add: acquire_def)
  obtain a b' where ab: "admit b now = (a, b')" by fastforce
  obtain t where "a = Some t"
    using assms True b ab by (cases a) (simp_all add: acquire_def)
  then show ?thesis
    using assms True b ab by (auto simp: acquire_def Let_def)
qed

lemma acquire_None_cases:
  assumes "acquire g st i now = (None, g', st')"
  shows "st' = st \<and> same_books g g'"
proof -
  have *: "(ug_breakers g)[i := b'] = ug_breakers g" if "breaker_at g i = Some b" "admit b now = (None, b')" for b b'
    using that(1) admit_refused [OF that(2)] by (auto simp: breaker_at_def nth_opt_Some_iff)
  show ?thesis
  proof (cases "cb_enabled (ug_circuit_breaker g)")
    case True
    show ?thesis
    proof (cases "breaker_at g i")
      case None
      then show ?thesis using assms True by (simp add: acquire_def same_books_def)
    next
      case (Some b)
      obtain a b' where ab: "admit b now = (a, b')" by fastforce
      have "a = None" using assms True Some ab by (cases a) (simp_all add: acquire_def Let_def)
      then show ?thesis using assms True Some ab * by (auto simp: acquire_def same_books_def)
    qed
  qed (use assms in \<open>simp add: acquire_def Let_def\<close>)
qed

lemma ledger_acquire:
  assumes L: "ledger s" and acq: "acquire (sy_group s) (sy_store s) i now = (Some p, g', st')"
  shows "ledger (s\<lparr>sy_group := g', sy_store := st', sy_permits := add_mset p (sy_permits s)\<rparr>)"
proof -
  let ?g = "sy_group s"
  have p: "pm_index p = i" "\<not> pm_reported p" "pm_active_conn p = nth_opt (ug_active_conns ?g) i"
    and conns: "st_conns st' = st_conns (conn_add (nth_opt (ug_active_conns ?g) i) 1 (sy_store s))"
    and g': "if cb_enabled (ug_circuit_breaker ?g)
     then \<exists>b b'. breaker_at ?g i = Some b \<and> admit b now = (Some (pm_trial p), b') \<and>
       g' = ?g\<lparr>ug_breakers := (ug_breakers ?g)[i := b']\<rparr>
     else g' = ?g \<and> \<not> pm_trial p"
    using acquire_Some_cases [OF acq] by blast+
  have same: "ug_active_conns g' = ug_active_conns ?g" "ug_circuit_breaker g' = ug_circuit_breaker ?g"
      "length (ug_breakers g') = length (ug_breakers ?g)"
    using g' by (auto split: if_splits)
  have trial: "pm_trial p \<Longrightarrow> i < length (ug_breakers ?g) \<and> cb_enabled (ug_circuit_breaker ?g)"
    using g' by (auto simp: breaker_at_def nth_opt_Some_iff split: if_splits)
  have half: "br_circuit (ug_breakers g' ! j) = HalfOpen True \<longleftrightarrow>
      (if i = j \<and> pm_trial p then True else br_circuit (ug_breakers ?g ! j) = HalfOpen True)"
    and fresh: "i = j \<and> pm_trial p \<Longrightarrow> br_circuit (ug_breakers ?g ! j) \<noteq> HalfOpen True"
    if "j < length (ug_breakers ?g)" for j
    using g' that admit_half_open
    by (auto simp: breaker_at_def nth_opt_Some_iff nth_list_update split: if_splits)
  have "trials j (add_mset p (sy_permits s)) =
      (if br_circuit (ug_breakers g' ! j) = HalfOpen True then 1 else 0)"
    if "j < length (ug_breakers ?g)" for j
    using L half [OF that] fresh [OF that] that p by (auto simp: ledger_def)
  moreover have "permit_ok g' q" if "q \<in># add_mset p (sy_permits s)" for q
    using L that same trial p by (auto simp: ledger_def permit_ok_def)
  moreover have "st_conns st' a = of_nat (on_cell a (add_mset p (sy_permits s)) (sy_guards s))"
    if "a \<in> set (ug_active_conns ?g)" for a
    using L that conns p by (simp add: ledger_def conn_add_conns)
  ultimately show ?thesis using same by (simp add: ledger_def)
qed

lemma group_step_ledger:
  assumes "group_step s s'" and L: "ledger s"
  shows "ledger s'"
  using assms(1)
proof cases
  case (candidates e client now cs g')
  then show ?thesis
    using ledger_same_books [OF L, of g' "sy_store s"] same_books_candidates [of "sy_group s" e "sy_store s" client now]
    by simp
next
  case (acquire i now p g' st')
  then show ?thesis using ledger_acquire [OF L] by simp
next
  case (refused i now g' st')
  then show ?thesis using ledger_same_books [OF L] acquire_None_cases by blast
next
  case (success p now g' st')
  then show ?thesis using ledger_finish [OF L] by blast
next
  case (success_keep p now c g' st')
  obtain h failure where h: "same_books (sy_group s) h"
      "g' = record_circuit h (pm_index p) (pm_trial p) failure now"
      "st_conns st' = st_conns (sy_store s)" "cg_active_conn c = pm_active_conn p"
    using permit_keep_conns [OF success_keep(3)] by blast
  have ok: "permit_ok (sy_group s) p" using L success_keep(2) by (simp add: ledger_def)
  have "st_conns st' a = of_nat (on_cell a (sy_permits s - {#p#}) (add_mset c (sy_guards s)))"
    if "a \<in> set (ug_active_conns (sy_group s))" for a
    using L that h(3,4) on_cell_remove_permit [OF success_keep(2), of a "sy_guards s"]
    by (simp add: ledger_def)
  then show ?thesis
    using ledger_settle [OF L success_keep(2) settles_finish [OF ok h(1)]] h(2) success_keep(1) by blast
next
  case (failure p err now g' st')
  then show ?thesis using ledger_finish [OF L] by blast
next
  case (error_response p err now g' st')
  then show ?thesis using ledger_finish [OF L] by blast
next
  case (drop_permit p g' st')
  have ok: "permit_ok (sy_group s) p" using L drop_permit(2) by (simp add: ledger_def)
  then have "settles p (sy_group s) g'" "st_conns st' = st_conns (conn_add (pm_active_conn p) (- 1) (sy_store s))"
    using drop_permit(3) settles_release settles_no_trial
    by (auto simp: permit_drop_def permit_ok_def split: if_splits)
  then show ?thesis using ledger_release_count [OF L drop_permit(2)] drop_permit(1) by simp
next
  case (permit_bytes p bytes)
  then show ?thesis
    using ledger_same_books [OF L, of "sy_group s"] by (simp add: permit_record_bytes_def same_books_def)
next
  case (guard_bytes c bytes)
  then show ?thesis
    using ledger_same_books [OF L, of "sy_group s"] by (simp add: guard_record_bytes_def same_books_def)
next
  case (drop_guard c)
  then show ?thesis
    using L on_cell_remove_guard [OF drop_guard(2)]
    by (auto simp: ledger_def guard_drop_def conn_add_conns)
next
  case (active_check pe finished)
  then show ?thesis using ledger_same_books [OF L same_books_check, of "sy_store s"] by simp
qed

section \<open>Groups from their creation\<close>

text \<open>A group without a predecessor, before its first request.\<close>

definition group_start ::
    "group_server list \<Rightarrow> load_balancing \<Rightarrow> health_check \<Rightarrow> circuit_breaker \<Rightarrow> store \<Rightarrow> group_sys" where
  "group_start members policy hc cb st =
     (let (g, st') = upstream_group_new members policy hc st in
      \<lparr>sy_group = with_circuit_breaker g cb, sy_store = st', sy_permits = {#}, sy_guards = {#}\<rparr>)"

lemma group_start_ledger: "ledger (group_start members policy hc cb st)"
  by (simp add: ledger_def group_start_def upstream_group_new_def with_circuit_breaker_def Let_def
      trials_def on_cell_def breaker_default_def)

lemma group_reach_ledger: "group_reach s t \<Longrightarrow> ledger s \<Longrightarrow> ledger t"
  by (induction rule: group_reach.induct) (auto intro: group_step_ledger)

lemma record_circuit_frame [frame_simps]:
  "ug_active_conns (record_circuit g i t f now) = ug_active_conns g"
  "ug_circuit_breaker (record_circuit g i t f now) = ug_circuit_breaker g"
  "length (ug_breakers (record_circuit g i t f now)) = length (ug_breakers g)"
  "ug_members (record_circuit g i t f now) = ug_members g"
  by (simp_all add: record_circuit_def split: option.splits)

text \<open>No step changes the shape of the group.\<close>

definition same_shape :: "upstream_group \<Rightarrow> upstream_group \<Rightarrow> bool" where
  "same_shape g h \<longleftrightarrow> ug_active_conns h = ug_active_conns g \<and>
     ug_circuit_breaker h = ug_circuit_breaker g \<and> length (ug_breakers h) = length (ug_breakers g)"

lemma same_books_shape: "same_books g h \<Longrightarrow> same_shape g h"
  by (simp add: same_books_def same_shape_def)

lemma acquire_shape: "acquire g st i now = (r, g', st') \<Longrightarrow> same_shape g g'"
proof (cases r)
  case None
  then show "acquire g st i now = (r, g', st') \<Longrightarrow> ?thesis"
    using acquire_None_cases same_books_shape by blast
next
  case (Some p)
  show "acquire g st i now = (r, g', st') \<Longrightarrow> ?thesis"
    using acquire_Some_cases [of g st i now p g' st'] Some by (auto simp: same_shape_def split: if_splits)
qed

lemma group_step_shape:
  assumes "group_step s s'"
  shows "same_shape (sy_group s) (sy_group s')"
  using assms
proof cases
  case (candidates e client now cs g')
  then show ?thesis
    using same_books_shape [OF same_books_candidates [of "sy_group s" e "sy_store s" client now]] by simp
next
  case (acquire i now p g' st')
  then show ?thesis using acquire_shape by simp
next
  case (refused i now g' st')
  then show ?thesis using acquire_shape by simp
next
  case (success p now g' st')
  then obtain h f where "same_books (sy_group s) h" "g' = record_circuit h (pm_index p) (pm_trial p) f now"
    using permit_finish_conns by blast
  then show ?thesis using success by (simp add: same_shape_def same_books_def frame_simps)
next
  case (success_keep p now c g' st')
  then obtain h f where "same_books (sy_group s) h" "g' = record_circuit h (pm_index p) (pm_trial p) f now"
    using permit_keep_conns by blast
  then show ?thesis using success_keep by (simp add: same_shape_def same_books_def frame_simps)
next
  case (failure p err now g' st')
  then obtain h f where "same_books (sy_group s) h" "g' = record_circuit h (pm_index p) (pm_trial p) f now"
    using permit_finish_conns by blast
  then show ?thesis using failure by (simp add: same_shape_def same_books_def frame_simps)
next
  case (error_response p err now g' st')
  then obtain h f where "same_books (sy_group s) h" "g' = record_circuit h (pm_index p) (pm_trial p) f now"
    using permit_finish_conns by blast
  then show ?thesis using error_response by (simp add: same_shape_def same_books_def frame_simps)
next
  case (drop_permit p g' st')
  then show ?thesis
    by (auto simp: permit_drop_def same_shape_def group_release_trial_def split: if_splits option.splits)
next
  case (active_check pe finished)
  then show ?thesis using same_books_shape [OF same_books_check] by simp
qed (simp_all add: same_shape_def)

lemma group_reach_shape: "group_reach s t \<Longrightarrow> same_shape (sy_group s) (sy_group t)"
  by (induction rule: group_reach.induct) (auto simp: same_shape_def dest!: group_step_shape)

text \<open>The permits and guards of server \<open>i\<close>.\<close>

definition in_use :: "group_sys \<Rightarrow> nat \<Rightarrow> nat" where
  "in_use s i = size (filter_mset (\<lambda>p. pm_index p = i) (sy_permits s)) +
     size (filter_mset (\<lambda>c. cg_active_conn c = nth_opt (ug_active_conns (sy_group s)) i) (sy_guards s))"

lemma ledger_in_use:
  assumes "ledger s" and "distinct (ug_active_conns (sy_group s))" and "i < length (ug_active_conns (sy_group s))"
  shows "active_connections (sy_group s) (sy_store s) i = of_nat (in_use s i)"
proof -
  let ?cells = "ug_active_conns (sy_group s)"
  have eq: "pm_active_conn p = Some (?cells ! i) \<longleftrightarrow> pm_index p = i" if "p \<in># sy_permits s" for p
    using assms that by (auto simp: ledger_def permit_ok_def nth_opt_Some_iff nth_eq_iff_index_eq)
  have "filter_mset (\<lambda>p. pm_active_conn p = Some (?cells ! i)) (sy_permits s) =
      filter_mset (\<lambda>p. pm_index p = i) (sy_permits s)"
    by (rule filter_mset_cong0) (rule eq)
  moreover have "st_conns (sy_store s) (?cells ! i) = of_nat (on_cell (?cells ! i) (sy_permits s) (sy_guards s))"
    using assms(1,3) by (simp add: ledger_def)
  ultimately show ?thesis
    using assms(3) by (simp add: active_connections_def in_use_def on_cell_def)
qed

lemma group_start_conns:
  "ug_active_conns (sy_group (group_start members policy hc cb st)) = [st_next st..<st_next st + length members]"
  "length (ug_breakers (sy_group (group_start members policy hc cb st))) = length members"
  "ug_circuit_breaker (sy_group (group_start members policy hc cb st)) = cb"
  by (simp_all add: group_start_def upstream_group_new_def with_circuit_breaker_def Let_def)

text \<open>
  C5: the connection counts neither leak nor underflow.  In every state that a group can reach, the
  active connections of a server are the permits and guards that are out on it, however they were
  used: reported, kept, or dropped without a report.  When all are gone the counter is zero.
\<close>

theorem active_connections_are_open_permits:
  assumes "group_reach (group_start members policy hc cb st) s" and "i < length members"
  shows "active_connections (sy_group s) (sy_store s) i = of_nat (in_use s i) \<and>
    (sy_permits s = {#} \<and> sy_guards s = {#} \<longrightarrow> active_connections (sy_group s) (sy_store s) i = 0)"
proof -
  have cells: "ug_active_conns (sy_group s) = [st_next st..<st_next st + length members]"
    using group_reach_shape [OF assms(1)] by (simp add: same_shape_def group_start_conns)
  have "active_connections (sy_group s) (sy_store s) i = of_nat (in_use s i)"
    using ledger_in_use [OF group_reach_ledger [OF assms(1) group_start_ledger]] cells assms(2) by simp
  then show ?thesis by (simp add: in_use_def)
qed

text \<open>A group of one server, one request that is kept as a connection.\<close>

definition one_server :: "group_server list" where
  "one_server = [\<lparr>gs_addr = ''10.0.0.1:80'', gs_weight = 1, gs_region = None, gs_countries = []\<rparr>]"

definition one_start :: group_sys where
  "one_start = group_start one_server First health_check_default circuit_breaker_default sample_store"

definition one_permit :: permit where
  "one_permit = \<lparr>pm_index = 0, pm_trial = False, pm_reported = False, pm_active_conn = Some 100,
     pm_metrics = Some 100, pm_start = 7\<rparr>"

definition one_acquired :: group_sys where
  "one_acquired = one_start\<lparr>
     sy_store := snd (snd (acquire (sy_group one_start) (sy_store one_start) 0 7)), sy_permits := {#one_permit#}\<rparr>"

lemma one_acquire:
  "acquire (sy_group one_start) (sy_store one_start) 0 7 =
     (Some one_permit, sy_group one_start, sy_store one_acquired)"
proof -
  have "\<not> cb_enabled (ug_circuit_breaker (sy_group one_start))"
      "ug_active_conns (sy_group one_start) = [100]" "ug_metrics (sy_group one_start) = [100]"
    by (simp_all add: one_start_def group_start_def upstream_group_new_def one_server_def
        with_circuit_breaker_def circuit_breaker_default_def sample_store_def Let_def)
  then show ?thesis by (simp add: acquire_def one_acquired_def one_permit_def Let_def)
qed

lemma one_reach: "group_reach one_start one_acquired"
proof -
  have "group_step one_start (one_start\<lparr>sy_group := sy_group one_start, sy_store := sy_store one_acquired,
      sy_permits := add_mset one_permit (sy_permits one_start)\<rparr>)"
    by (rule group_step.acquire [OF one_acquire])
  moreover have "sy_permits one_start = {#}" by (simp add: one_start_def group_start_def Let_def case_prod_unfold)
  ultimately have "group_step one_start one_acquired" by (simp add: one_acquired_def)
  then show ?thesis using group_reach.step [OF group_reach.refl] by blast
qed

theorem active_connections_are_open_permits_witness:
  "active_connections (sy_group one_acquired) (sy_store one_acquired) 0 = 1"
  using active_connections_are_open_permits [OF one_reach [unfolded one_start_def], of 0]
  by (simp add: one_server_def in_use_def one_acquired_def one_start_def one_permit_def
      group_start_def upstream_group_new_def Let_def)

section \<open>The trial slot\<close>



section \<open>A configuration reload\<close>

text \<open>The slots that \<open>inherit_state\<close> fills.\<close>

definition inherit_from :: "upstream_group \<Rightarrow> upstream_group \<Rightarrow> nat \<Rightarrow> nat option" where
  "inherit_from previous g i =
     position (\<lambda>m. gs_addr m = gs_addr (ug_members g ! i)) (ug_members previous)"

definition inherit_fold :: "upstream_group \<Rightarrow> upstream_group \<Rightarrow> nat \<Rightarrow> upstream_group" where
  "inherit_fold previous g k =
     fold (\<lambda>i g'. case inherit_from previous g i of
           None \<Rightarrow> g' | Some j \<Rightarrow> inherit_member_state previous i j g') [0..<k] g"

lemma inherit_state_fold: "inherit_state previous g = inherit_fold previous g (length (ug_members g))"
  by (simp add: inherit_state_def inherit_fold_def inherit_from_def)

lemma inherit_fold_Suc:
  "inherit_fold previous g (Suc k) = (case inherit_from previous g k of
     None \<Rightarrow> inherit_fold previous g k
   | Some j \<Rightarrow> inherit_member_state previous k j (inherit_fold previous g k))"
  by (simp add: inherit_fold_def split: option.splits)

definition inherit_list :: "upstream_group \<Rightarrow> upstream_group \<Rightarrow> nat \<Rightarrow> 'a list \<Rightarrow> 'a list \<Rightarrow> 'a list" where
  "inherit_list previous g k old new = map (\<lambda>i. case inherit_from previous g i of
       None \<Rightarrow> new ! i | Some j \<Rightarrow> if i < k then old ! j else new ! i) [0..<length new]"

lemma inherit_from_bound: "inherit_from previous g i = Some j \<Longrightarrow> j < length (ug_members previous)"
  by (auto simp: inherit_from_def dest: position_Some)

lemma inherit_slot_list:
  assumes "inherit_from previous g k = Some j" and "length old = length (ug_members previous)"
  shows "inherit_slot old j (inherit_list previous g k old new) k = inherit_list previous g (Suc k) old new"
proof -
  have j: "j < length old" using inherit_from_bound [OF assms(1)] assms(2) by simp
  show ?thesis
    using j assms(1)
    by (auto intro!: nth_equalityI simp: inherit_slot_def inherit_list_def nth_opt_def nth_list_update
        less_Suc_eq split: option.splits)
qed

lemma inherit_list_skip:
  "inherit_from previous g k = None \<Longrightarrow> inherit_list previous g (Suc k) old new = inherit_list previous g k old new"
  by (auto intro!: nth_equalityI simp: inherit_list_def less_Suc_eq split: option.splits)

lemma inherit_list_0 [simp]: "inherit_list previous g 0 old new = new"
  by (auto intro!: nth_equalityI simp: inherit_list_def split: option.splits)

lemma inherit_fold_fields:
  assumes "group_wf previous"
  shows "inherit_fold previous g k = g\<lparr>
    ug_servers := inherit_list previous g k (ug_servers previous) (ug_servers g),
    ug_breakers := inherit_list previous g k (ug_breakers previous) (ug_breakers g),
    ug_active_conns := inherit_list previous g k (ug_active_conns previous) (ug_active_conns g),
    ug_metrics := inherit_list previous g k (ug_metrics previous) (ug_metrics g)\<rparr>"
proof (induction k)
  case 0
  then show ?case by (simp add: inherit_fold_def)
next
  case (Suc k)
  then show ?case
    using group_wf_lengths [OF assms]
    by (cases "inherit_from previous g k")
      (simp_all add: inherit_fold_Suc inherit_list_skip inherit_member_state_def inherit_slot_list)
qed

lemma inherit_state_at:
  assumes "group_wf previous" and "group_wf g" and "i < length (ug_members g)"
    and "inherit_from previous g i = Some j"
  shows "health (inherit_state previous g) i = health previous j \<and>
    breaker_at (inherit_state previous g) i = breaker_at previous j \<and>
    nth_opt (ug_active_conns (inherit_state previous g)) i = nth_opt (ug_active_conns previous) j \<and>
    nth_opt (ug_metrics (inherit_state previous g)) i = nth_opt (ug_metrics previous) j"
  using assms group_wf_lengths [OF assms(1)] group_wf_lengths [OF assms(2)] inherit_from_bound [OF assms(4)]
  by (simp add: inherit_state_fold inherit_fold_fields inherit_list_def health_def breaker_at_def)

text \<open>The group that a reload creates over the group it replaces (\<open>GroupRegistry::group\<close>).\<close>

definition group_successor ::
    "upstream_group \<Rightarrow> group_server list \<Rightarrow> load_balancing \<Rightarrow> health_check \<Rightarrow> circuit_breaker \<Rightarrow> store \<Rightarrow>
     upstream_group \<times> store" where
  "group_successor previous members policy hc cb st =
     (let (g, st') = upstream_group_new members policy hc st in
      (inherit_state previous (with_circuit_breaker g cb), st'))"

lemma upstream_group_new_wf:
  "list_all (\<lambda>m. gs_weight m \<le> u16_max) members \<Longrightarrow>
     group_wf (with_circuit_breaker (fst (upstream_group_new members policy hc st)) cb)"
  by (simp add: group_wf_def with_circuit_breaker_def upstream_group_new_def Let_def list_all_length)

lemma group_successor_members:
  assumes "group_wf previous"
  shows "ug_members (fst (group_successor previous members policy hc cb st)) = members"
    and "ug_circuit_breaker (fst (group_successor previous members policy hc cb st)) = cb"
  using assms
  by (simp_all add: group_successor_def inherit_state_fold inherit_fold_fields with_circuit_breaker_def
      upstream_group_new_def Let_def case_prod_unfold)

lemma group_successor_at:
  assumes "group_wf previous" and "list_all (\<lambda>m. gs_weight m \<le> u16_max) members" and "i < length members"
    and "position (\<lambda>m. gs_addr m = gs_addr (members ! i)) (ug_members previous) = Some j"
  shows "health (fst (group_successor previous members policy hc cb st)) i = health previous j \<and>
    breaker_at (fst (group_successor previous members policy hc cb st)) i = breaker_at previous j \<and>
    nth_opt (ug_active_conns (fst (group_successor previous members policy hc cb st))) i =
      nth_opt (ug_active_conns previous) j \<and>
    nth_opt (ug_metrics (fst (group_successor previous members policy hc cb st))) i =
      nth_opt (ug_metrics previous) j"
proof -
  let ?g = "with_circuit_breaker (fst (upstream_group_new members policy hc st)) cb"
  have m: "ug_members ?g = members"
    by (simp add: with_circuit_breaker_def upstream_group_new_def Let_def)
  have eq: "fst (group_successor previous members policy hc cb st) = inherit_state previous ?g"
    by (simp add: group_successor_def case_prod_unfold Let_def)
  show ?thesis
    unfolding eq
    by (rule inherit_state_at [OF assms(1) upstream_group_new_wf [OF assms(2)]])
      (use assms(3,4) m in \<open>simp_all add: inherit_from_def\<close>)
qed

text \<open>
  a configuration reload keeps what is known of a server.  The group that replaces another
  one takes over, for every server whose address was in the old group, its health, its circuit,
  and the very counters that the connections opened through the old group still hold, so those
  connections are counted in the new group until they close.
\<close>

theorem reload_keeps_server_state:
  assumes "group_wf previous" and "list_all (\<lambda>m. gs_weight m \<le> u16_max) members" and "i < length members"
    and "position (\<lambda>m. gs_addr m = gs_addr (members ! i)) (ug_members previous) = Some j"
    and "group_successor previous members policy hc cb st = (g, st')"
    and "\<forall>a \<in> set (ug_active_conns previous). a < st_next st"
  shows "health g i = health previous j \<and> breaker_at g i = breaker_at previous j \<and>
    active_connections g st' i = active_connections previous st j \<and>
    (\<forall>st2. active_connections g st2 i = active_connections previous st2 j)"
proof -
  have same: "health g i = health previous j" "breaker_at g i = breaker_at previous j"
      "nth_opt (ug_active_conns g) i = nth_opt (ug_active_conns previous) j"
    using group_successor_at [OF assms(1-4), of policy hc cb st] assms(5) by auto
  have cell: "st_conns st' a = st_conns st a" if "a < st_next st" for a
    using assms(5) that by (auto simp: group_successor_def upstream_group_new_def Let_def)
  have "active_connections g st2 i = active_connections previous st2 j" for st2
    using same(3) by (simp add: active_connections_def)
  moreover have "active_connections previous st' j = active_connections previous st j"
    using assms(6) cell by (auto simp: active_connections_def nth_opt_Some_iff split: option.splits)
  ultimately show ?thesis using same by simp
qed

text \<open>
  A trial that runs during the reload is the exception.  Its permit reports to the old group, and
  the copied circuit of the new group waits for a report that never comes.
\<close>

definition stuck :: "nat \<Rightarrow> group_sys \<Rightarrow> bool" where
  "stuck i s \<longleftrightarrow> cb_enabled (ug_circuit_breaker (sy_group s)) \<and> i < length (ug_breakers (sy_group s)) \<and>
     br_circuit (ug_breakers (sy_group s) ! i) = HalfOpen True \<and> trials i (sy_permits s) = 0"

lemma stuck_blocked: "stuck i s \<Longrightarrow> blocked (sy_group s) i now"
  by (simp add: stuck_def blocked_def breaker_at_def blocks_def)

lemma stuck_books:
  "stuck i s \<Longrightarrow> same_books (sy_group s) (sy_group s') \<Longrightarrow> trials i (sy_permits s') = 0 \<Longrightarrow> stuck i s'"
  by (simp add: stuck_def same_books_def)

lemma no_trial_permit: "trials i ps = 0 \<Longrightarrow> p \<in># ps \<Longrightarrow> \<not> (pm_index p = i \<and> pm_trial p)"
  by (auto simp: trials_def size_eq_0_iff_empty filter_mset_eq_conv)

lemma record_circuit_stuck:
  assumes "br_circuit (ug_breakers g ! i) = HalfOpen True" and "\<not> (j = i \<and> t)"
  shows "br_circuit (ug_breakers (record_circuit g j t f now) ! i) = HalfOpen True"
  using assms record_result_half_open
  by (cases "j = i") (auto simp: record_circuit_def breaker_at_def nth_opt_Some_iff split: option.splits)

lemma stuck_finish:
  assumes "stuck i s" and "p \<in># sy_permits s" and "same_books (sy_group s) h"
    and "sy_group s' = record_circuit h (pm_index p) (pm_trial p) f now"
    and "sy_permits s' = sy_permits s - {#p#}"
  shows "stuck i s'"
proof -
  have p: "\<not> (pm_index p = i \<and> pm_trial p)"
    by (rule no_trial_permit [OF _ assms(2)]) (use assms(1) in \<open>simp add: stuck_def\<close>)
  have "trials i (sy_permits s') = 0"
    using assms(1,5) trials_remove [OF assms(2), of i] by (simp add: stuck_def)
  moreover have "br_circuit (ug_breakers (sy_group s') ! i) = HalfOpen True"
    unfolding assms(4) using assms(1,3) p by (intro record_circuit_stuck) (auto simp: stuck_def same_books_def)
  ultimately show ?thesis
    using assms(1,3,4) by (simp add: stuck_def same_books_def frame_simps)
qed

lemma stuck_acquire:
  assumes "stuck i s" and "acquire (sy_group s) (sy_store s) j now = (Some p, g', st')"
  shows "stuck i (s\<lparr>sy_group := g', sy_store := st', sy_permits := add_mset p (sy_permits s)\<rparr>)"
proof -
  obtain b b' where b: "breaker_at (sy_group s) j = Some b" "admit b now = (Some (pm_trial p), b')"
      "g' = sy_group s\<lparr>ug_breakers := (ug_breakers (sy_group s))[j := b']\<rparr>" "pm_index p = j"
    using acquire_Some_cases [OF assms(2)] assms(1) by (auto simp: stuck_def)
  have "j \<noteq> i" using b(1) admit_half_open [OF b(2)] assms(1)
    by (auto simp: stuck_def breaker_at_def nth_opt_Some_iff)
  then show ?thesis using assms(1) b(3,4) by (simp add: stuck_def)
qed

lemma stuck_step:
  assumes "group_step s s'" and K: "stuck i s"
  shows "stuck i s'"
proof -
  have t0: "trials i (sy_permits s) = 0" using K by (simp add: stuck_def)
  from assms(1) show ?thesis
  proof cases
    case (candidates e client now cs g')
    then show ?thesis
      using stuck_books [OF K] same_books_candidates [of "sy_group s" e "sy_store s" client now] t0 by simp
  next
    case (acquire j now p g' st')
    then show ?thesis using stuck_acquire [OF K] by simp
  next
    case (refused j now g' st')
    then show ?thesis using stuck_books [OF K] acquire_None_cases t0 by simp
  next
    case (success p now g' st')
    then obtain h f where h: "same_books (sy_group s) h"
        "g' = record_circuit h (pm_index p) (pm_trial p) f now"
      using permit_finish_conns by blast
    show ?thesis
      unfolding success(1)
      by (rule stuck_finish [OF K success(2) h(1), where f = f and now = now]) (simp_all add: h(2))
  next
    case (success_keep p now c g' st')
    then obtain h f where h: "same_books (sy_group s) h"
        "g' = record_circuit h (pm_index p) (pm_trial p) f now"
      using permit_keep_conns by blast
    show ?thesis
      unfolding success_keep(1)
      by (rule stuck_finish [OF K success_keep(2) h(1), where f = f and now = now]) (simp_all add: h(2))
  next
    case (failure p err now g' st')
    then obtain h f where h: "same_books (sy_group s) h"
        "g' = record_circuit h (pm_index p) (pm_trial p) f now"
      using permit_finish_conns by blast
    show ?thesis
      unfolding failure(1)
      by (rule stuck_finish [OF K failure(2) h(1), where f = f and now = now]) (simp_all add: h(2))
  next
    case (error_response p err now g' st')
    then obtain h f where h: "same_books (sy_group s) h"
        "g' = record_circuit h (pm_index p) (pm_trial p) f now"
      using permit_finish_conns by blast
    show ?thesis
      unfolding error_response(1)
      by (rule stuck_finish [OF K error_response(2) h(1), where f = f and now = now]) (simp_all add: h(2))
  next
    case (drop_permit p g' st')
    have p: "\<not> (pm_index p = i \<and> pm_trial p)" using no_trial_permit [OF t0 drop_permit(2)] .
    have "trials i (sy_permits s - {#p#}) = 0" using t0 trials_remove [OF drop_permit(2), of i] by simp
    then show ?thesis
      using drop_permit(1,3) K p
      by (auto simp: stuck_def permit_drop_def group_release_trial_def nth_list_update
          split: if_splits option.splits)
  next
    case (active_check pe finished)
    then show ?thesis using stuck_books [OF K] same_books_check t0 by simp
  qed (use K in \<open>simp_all add: stuck_def\<close>)
qed

lemma stuck_reach: "group_reach s t \<Longrightarrow> stuck i s \<Longrightarrow> stuck i t"
  by (induction rule: group_reach.induct) (auto intro: stuck_step)

text \<open>
  C34: a reload during a trial loses the server.  If the circuit of a server is half-open with its
  trial request running when the group is replaced, the new group blocks that server in every
  state it can reach and at every time: no request is admitted, no report and no active check
  reopens the circuit.
\<close>

theorem reload_during_trial_blocks_forever:
  assumes "group_wf previous" and "list_all (\<lambda>m. gs_weight m \<le> u16_max) members" and "i < length members"
    and "position (\<lambda>m. gs_addr m = gs_addr (members ! i)) (ug_members previous) = Some j"
    and "br_circuit (ug_breakers previous ! j) = HalfOpen True" and "cb_enabled cb"
    and "group_successor previous members policy hc cb st = (g, st')"
    and "group_reach \<lparr>sy_group = g, sy_store = st', sy_permits = {#}, sy_guards = {#}\<rparr> s"
  shows "blocked (sy_group s) i now \<and> fst (acquire (sy_group s) (sy_store s) i now) = None"
proof -
  have j: "j < length (ug_breakers previous)"
    using position_Some [OF assms(4)] group_wf_lengths(3) [OF assms(1)] by simp
  have "breaker_at g i = breaker_at previous j"
    using group_successor_at [OF assms(1-4), of policy hc cb st] assms(7) by simp
  then have b: "i < length (ug_breakers g)" "br_circuit (ug_breakers g ! i) = HalfOpen True"
    using j assms(5) by (auto simp: breaker_at_def nth_opt_def split: if_splits)
  have "ug_circuit_breaker g = cb"
    using group_successor_members(2) [OF assms(1), of members policy hc cb st] assms(7) by simp
  then have "stuck i \<lparr>sy_group = g, sy_store = st', sy_permits = {#}, sy_guards = {#}\<rparr>"
    using b assms(6) by (simp add: stuck_def trials_def)
  then have K: "stuck i s" using stuck_reach [OF assms(8)] by simp
  moreover have "fst (acquire (sy_group s) (sy_store s) i now) = None"
    using K by (simp add: stuck_def acquire_def breaker_at_def admit_def blocks_def)
  ultimately show ?thesis using stuck_blocked by simp
qed

theorem reload_during_trial_blocks_forever_witness:
  "blocked (fst (group_successor
       ((sample_group First [(''a'', 1)])\<lparr>ug_breakers := [breaker_default\<lparr>br_circuit := HalfOpen True\<rparr>]\<rparr>)
       [\<lparr>gs_addr = ''a'', gs_weight = 3, gs_region = None, gs_countries = []\<rparr>]
       First health_check_default (circuit_breaker_default\<lparr>cb_enabled := True\<rparr>) sample_store)) 0 1000000"
proof -
  let ?prev = "(sample_group First [(''a'', 1)])\<lparr>ug_breakers := [breaker_default\<lparr>br_circuit := HalfOpen True\<rparr>]\<rparr>"
  let ?m = "[\<lparr>gs_addr = ''a'', gs_weight = 3, gs_region = None, gs_countries = []\<rparr>]"
  have wf: "group_wf ?prev"
    by (simp add: group_wf_def sample_group_def u16_max_def breaker_wf_def breaker_default_def)
  have w: "list_all (\<lambda>m. gs_weight m \<le> u16_max) ?m" by (simp add: u16_max_def)
  have i: "0 < length ?m" by simp
  have pos: "position (\<lambda>m. gs_addr m = gs_addr (?m ! 0)) (ug_members ?prev) = Some 0"
    by (simp add: sample_group_def)
  have half: "br_circuit (ug_breakers ?prev ! 0) = HalfOpen True" by simp
  have en: "cb_enabled (circuit_breaker_default\<lparr>cb_enabled := True\<rparr>)" by simp
  show ?thesis
    using reload_during_trial_blocks_forever [OF wf w i pos half en prod.collapse [symmetric] group_reach.refl,
        of First health_check_default sample_store 1000000]
    by simp
qed

end
