(* ===== verification/Registry.thy ===== *)
theory Registry
  imports Prelude "HOL-Library.AList"
begin

text \<open>
  \<open>WeakRegistry\<close> of \<open>proxy/registry.rs\<close>: values by key that stay registered while another owner
  holds them.  Upstream groups, rate limiters, concurrency limiters and caches live in such
  registries, which is how they survive a configuration reload.

  A value is an address on a heap that the client of the registry owns.  A \<open>Weak\<close> is the address; it
  can be upgraded while the value has owners, which is the argument \<open>alive\<close> of every operation.
  The hash map is an association list with distinct keys.
\<close>

type_synonym 'k registry = "('k \<times> nat) list"

definition registry_get :: "(nat \<Rightarrow> bool) \<Rightarrow> 'k registry \<Rightarrow> 'k \<Rightarrow> nat option" where
  "registry_get alive entries key =
     (case map_of entries key of
        None \<Rightarrow> None
      | Some a \<Rightarrow> if alive a then Some a else None)"

text \<open>
  \<open>create\<close> stands for the address of the value that the closure builds; the second result says
  whether the closure was called.
\<close>

definition registry_get_or_create ::
    "(nat \<Rightarrow> bool) \<Rightarrow> 'k registry \<Rightarrow> 'k \<Rightarrow> (nat \<Rightarrow> bool) \<Rightarrow> nat \<Rightarrow> nat \<times> bool \<times> 'k registry" where
  "registry_get_or_create alive entries key reuse create =
     (let entries1 = filter (\<lambda>(k, a). alive a) entries in
      case registry_get alive entries1 key of
        Some existing \<Rightarrow>
          if reuse existing then (existing, False, entries1)
          else (create, True, AList.update key create entries1)
      | None \<Rightarrow> (create, True, AList.update key create entries1))"

definition registry_live :: "(nat \<Rightarrow> bool) \<Rightarrow> 'k registry \<Rightarrow> 'k registry" where
  "registry_live alive entries = filter (\<lambda>(k, a). alive a) entries"

section \<open>The contract\<close>

text \<open>What the users of a registry rely on.\<close>

locale weak_registry =
  fixes get :: "(nat \<Rightarrow> bool) \<Rightarrow> 'r \<Rightarrow> 'k \<Rightarrow> nat option"
    and get_or_create :: "(nat \<Rightarrow> bool) \<Rightarrow> 'r \<Rightarrow> 'k \<Rightarrow> (nat \<Rightarrow> bool) \<Rightarrow> nat \<Rightarrow> nat \<times> bool \<times> 'r"
    and valid :: "'r \<Rightarrow> bool"
  assumes reused: "valid r \<Longrightarrow> get alive r k = Some a \<Longrightarrow> reuse a \<Longrightarrow>
      fst (get_or_create alive r k reuse c) = a \<and> \<not> fst (snd (get_or_create alive r k reuse c))"
    and created: "valid r \<Longrightarrow> \<not> (\<exists>a. get alive r k = Some a \<and> reuse a) \<Longrightarrow>
      fst (get_or_create alive r k reuse c) = c \<and> fst (snd (get_or_create alive r k reuse c))"
    and registered: "valid r \<Longrightarrow> alive' (fst (get_or_create alive r k reuse c)) \<Longrightarrow>
      get alive' (snd (snd (get_or_create alive r k reuse c))) k = Some (fst (get_or_create alive r k reuse c))"
    and others: "valid r \<Longrightarrow> k' \<noteq> k \<Longrightarrow> (\<And>a. alive' a \<Longrightarrow> alive a) \<Longrightarrow>
      get alive' (snd (snd (get_or_create alive r k reuse c))) k' = get alive' r k'"
    and valid_kept: "valid r \<Longrightarrow> valid (snd (snd (get_or_create alive r k reuse c)))"
begin

text \<open>Asking twice for the same value gives it twice, as long as somebody holds it.\<close>

lemma stable:
  assumes "valid r" and "get_or_create alive r k reuse c = (a, f, r')" and "alive' a" and "reuse' a"
  shows "fst (get_or_create alive' r' k reuse' c') = a"
proof -
  have "valid r'" using valid_kept [OF assms(1), of alive k reuse c] assms(2) by simp
  moreover have "get alive' r' k = Some a"
    using registered [OF assms(1), of alive' alive k reuse c] assms(2,3) by simp
  ultimately show ?thesis using reused assms(4) by blast
qed

end

lemma map_of_filter_alive:
  "distinct (map fst entries) \<Longrightarrow>
     map_of (filter (\<lambda>(k, a). alive a) entries) key =
       (case map_of entries key of None \<Rightarrow> None | Some a \<Rightarrow> if alive a then Some a else None)"
  by (induction entries) (auto split: option.splits simp: map_of_eq_None_iff)

interpretation registry: weak_registry registry_get registry_get_or_create "\<lambda>r. distinct (map fst r)"
proof
  fix r :: "'k registry" and alive alive' k k' a reuse c
  assume d: "distinct (map fst r)"
  note look = map_of_filter_alive [OF d]
  show "registry_get alive r k = Some a \<Longrightarrow> reuse a \<Longrightarrow>
      fst (registry_get_or_create alive r k reuse c) = a \<and> \<not> fst (snd (registry_get_or_create alive r k reuse c))"
    by (auto simp: registry_get_or_create_def registry_get_def look Let_def split: option.splits if_splits)
  show "\<not> (\<exists>a. registry_get alive r k = Some a \<and> reuse a) \<Longrightarrow>
      fst (registry_get_or_create alive r k reuse c) = c \<and> fst (snd (registry_get_or_create alive r k reuse c))"
    by (auto simp: registry_get_or_create_def registry_get_def look Let_def split: option.splits if_splits)
  show "alive' (fst (registry_get_or_create alive r k reuse c)) \<Longrightarrow>
      registry_get alive' (snd (snd (registry_get_or_create alive r k reuse c))) k =
        Some (fst (registry_get_or_create alive r k reuse c))"
    by (auto simp: registry_get_or_create_def registry_get_def look Let_def update_conv' split: option.splits if_splits)
  show "k' \<noteq> k \<Longrightarrow> (\<And>a. alive' a \<Longrightarrow> alive a) \<Longrightarrow>
      registry_get alive' (snd (snd (registry_get_or_create alive r k reuse c))) k' = registry_get alive' r k'"
    by (auto simp: registry_get_or_create_def registry_get_def look Let_def update_conv' split: option.splits)
  show "distinct (map fst (snd (snd (registry_get_or_create alive r k reuse c))))"
    using d by (auto simp: registry_get_or_create_def Let_def distinct_update distinct_map_filter
        split: option.splits)
qed

end
