(* ===== verification/Group_Registry.thy ===== *)
theory Group_Registry
  imports Group_Run Registry "HOL-Library.Option_ord"
begin

text \<open>
  \<open>GroupRegistry\<close> of \<open>proxy/health.rs\<close>: the upstream groups of the server by proxy and route.  The
  groups live on a heap of the development's own; \<open>alive\<close> says which of them somebody still holds.
\<close>

text \<open>\<open>GroupKey\<close>: the proxy, and the route index for an HTTP route.  A \<open>ShortId\<close> is its text.\<close>

type_synonym group_key = "string \<times> nat option"

record group_world =
  gw_entries :: "group_key registry"
  gw_heap :: "nat \<Rightarrow> upstream_group"
  gw_next :: nat
  gw_store :: store

definition group_unchanged ::
    "upstream_group \<Rightarrow> group_server list \<Rightarrow> load_balancing \<Rightarrow> health_check \<Rightarrow> circuit_breaker \<Rightarrow> bool" where
  "group_unchanged g members policy hc cb \<longleftrightarrow>
     ug_members g = members \<and> ug_policy g = policy \<and> ug_health_check g = hc \<and> ug_circuit_breaker g = cb"

text \<open>The closure that builds a new group: it takes over the state of the previous one, if any.\<close>

definition create_group ::
    "upstream_group option \<Rightarrow> group_server list \<Rightarrow> load_balancing \<Rightarrow> health_check \<Rightarrow> circuit_breaker \<Rightarrow> store \<Rightarrow>
     upstream_group \<times> store" where
  "create_group previous members policy hc cb st =
     (case previous of
        Some prev \<Rightarrow> group_successor prev members policy hc cb st
      | None \<Rightarrow> (let (g, st') = upstream_group_new members policy hc st in (with_circuit_breaker g cb, st')))"

definition registry_group ::
    "(nat \<Rightarrow> bool) \<Rightarrow> group_world \<Rightarrow> group_key \<Rightarrow> group_server list \<Rightarrow> load_balancing \<Rightarrow> health_check \<Rightarrow>
     circuit_breaker \<Rightarrow> probe \<Rightarrow> nat \<times> group_world" where
  "registry_group alive w key members policy hc cb p =
     (let previous = registry_get alive (gw_entries w) key;
          (a, created, entries) = registry_get_or_create alive (gw_entries w) key
             (\<lambda>x. group_unchanged (gw_heap w x) members policy hc cb) (gw_next w);
          w1 = (if created
                then (let (g, st') = create_group (map_option (gw_heap w) previous) members policy hc cb (gw_store w)
                      in w\<lparr>gw_heap := (gw_heap w)(a := g), gw_next := Suc (gw_next w), gw_store := st'\<rparr>)
                else w)
      in (a, w1\<lparr>gw_entries := entries, gw_heap := (gw_heap w1)(a := set_probe (gw_heap w1 a) p)\<rparr>))"

text \<open>The interval of the check task that \<open>spawn_checker\<close> starts for a new group.\<close>

definition checker_interval :: "upstream_group \<Rightarrow> duration option" where
  "checker_interval g =
     (if \<not> hc_is_active (ug_health_check g) then None
      else Some (max (hc_interval (ug_health_check g)) MIN_HEALTH_CHECK_INTERVAL))"

text \<open>The health page of a proxy: the servers of its groups in route order.\<close>

definition snapshot :: "(nat \<Rightarrow> bool) \<Rightarrow> group_world \<Rightarrow> string \<Rightarrow> instant \<Rightarrow> upstream_health list" where
  "snapshot alive w proxy now =
     (let groups = map (\<lambda>((_, route), a). (route, a))
        (filter (\<lambda>((p, _), _). p = proxy) (registry_live alive (gw_entries w)))
      in concat (map (\<lambda>(_, a). upstream_health_of (gw_heap w a) (gw_store w) now) (sort_key fst groups)))"

definition world_wf :: "group_world \<Rightarrow> bool" where
  "world_wf w \<longleftrightarrow> distinct (map fst (gw_entries w)) \<and> (\<forall>(k, a) \<in> set (gw_entries w). a < gw_next w)"

lemma registry_get_in: "registry_get alive r k = Some a \<Longrightarrow> (k, a) \<in> set r \<and> alive a"
  by (auto simp: registry_get_def dest: map_of_SomeD split: option.splits if_splits)

lemma registry_group_reused:
  assumes "world_wf w" and "registry_get alive (gw_entries w) key = Some a"
    and "group_unchanged (gw_heap w a) members policy hc cb"
  shows "\<exists>entries. registry_group alive w key members policy hc cb p =
    (a, w\<lparr>gw_entries := entries, gw_heap := (gw_heap w)(a := set_probe (gw_heap w a) p)\<rparr>)"
proof -
  let ?r = "registry_get_or_create alive (gw_entries w) key
      (\<lambda>x. group_unchanged (gw_heap w x) members policy hc cb) (gw_next w)"
  have "fst ?r = a \<and> \<not> fst (snd ?r)"
    using assms by (intro registry.reused) (auto simp: world_wf_def)
  then obtain entries where "?r = (a, False, entries)" by (cases ?r) auto
  then show ?thesis by (intro exI [of _ entries]) (simp add: registry_group_def)
qed

lemma registry_group_created:
  assumes "world_wf w"
    and "\<not> (\<exists>a. registry_get alive (gw_entries w) key = Some a \<and> group_unchanged (gw_heap w a) members policy hc cb)"
  shows "\<exists>entries. registry_group alive w key members policy hc cb p =
    (gw_next w, w\<lparr>gw_entries := entries,
       gw_heap := (gw_heap w)(gw_next w := set_probe (fst (create_group
         (map_option (gw_heap w) (registry_get alive (gw_entries w) key)) members policy hc cb (gw_store w))) p),
       gw_next := Suc (gw_next w),
       gw_store := snd (create_group (map_option (gw_heap w) (registry_get alive (gw_entries w) key))
         members policy hc cb (gw_store w))\<rparr>)"
proof -
  let ?r = "registry_get_or_create alive (gw_entries w) key
      (\<lambda>x. group_unchanged (gw_heap w x) members policy hc cb) (gw_next w)"
  have "fst ?r = gw_next w \<and> fst (snd ?r)"
    using assms by (intro registry.created) (auto simp: world_wf_def)
  then obtain entries where "?r = (gw_next w, True, entries)" by (cases ?r) auto
  then show ?thesis by (intro exI [of _ entries]) (simp add: registry_group_def case_prod_unfold Let_def)
qed

text \<open>
  a reload leaves a group alone unless its configuration changed.  When the key has a live
  group with the same servers, policy, health check and circuit breaker, the reload returns that
  very group: nothing but the probe changes in it, and the other groups and all counters stay as
  they are.  Otherwise it returns a group at a fresh address, so the requests that still hold the
  old group report to the old group.
\<close>

theorem reload_reuses_unchanged_group:
  assumes "world_wf w" and "registry_group alive w key members policy hc cb p = (b, w')"
    and "registry_get alive (gw_entries w) key = Some a"
  shows "(if group_unchanged (gw_heap w a) members policy hc cb
     then b = a \<and> gw_store w' = gw_store w \<and> gw_heap w' a = set_probe (gw_heap w a) p
     else b \<noteq> a \<and> gw_heap w' a = gw_heap w a) \<and>
    (\<forall>x. x \<noteq> b \<longrightarrow> gw_heap w' x = gw_heap w x)"
proof (cases "group_unchanged (gw_heap w a) members policy hc cb")
  case True
  then show ?thesis using registry_group_reused [OF assms(1,3) True, of p] assms(2) by auto
next
  case False
  have "a < gw_next w"
    using registry_get_in [OF assms(3)] assms(1) by (auto simp: world_wf_def)
  then show ?thesis
    using registry_group_created [OF assms(1), of alive key members policy hc cb p] assms(2,3) False by auto
qed

end
