(* ===== verification/Ip_Text.thy ===== *)
theory Ip_Text
  imports Prelude
begin

text \<open>
  The text form of IP addresses in Rust's standard library: \<open>Display\<close> and \<open>FromStr\<close> of \<open>Ipv4Addr\<close>,
  \<open>Ipv6Addr\<close> and \<open>IpAddr\<close>, which virtual hosts, forwarded headers and the trusted block lists use.

  A parser reads a prefix of the text and returns the rest, as the parser of \<open>core::net\<close> does; an
  address is the text that leaves no rest.
\<close>

section \<open>Numbers\<close>

definition digit_char :: "nat \<Rightarrow> char" where
  "digit_char d = (if d < 10 then char_of (48 + d) else char_of (87 + d))"

definition char_digit :: "nat \<Rightarrow> char \<Rightarrow> nat option" where
  "char_digit radix c =
     (let n = of_char c :: nat;
          d = (if 48 \<le> n \<and> n \<le> 57 then n - 48
               else if 97 \<le> n \<and> n \<le> 122 then n - 87
               else if 65 \<le> n \<and> n \<le> 90 then n - 55
               else radix)
      in if d < radix then Some d else None)"

fun to_radix :: "nat \<Rightarrow> nat \<Rightarrow> string" where
  "to_radix radix n = (if n < radix \<or> radix < 2 then [digit_char n]
     else to_radix radix (n div radix) @ [digit_char (n mod radix)])"

declare to_radix.simps [simp del]

text \<open>\<open>Parser::read_number\<close>: at most \<open>max_digits\<close> digits, no value above \<open>limit\<close>, and no leading
  zero unless it is allowed.\<close>

definition digit_prefix :: "nat \<Rightarrow> string \<Rightarrow> string" where
  "digit_prefix radix s = takeWhile (\<lambda>c. char_digit radix c \<noteq> None) s"

definition digits_value :: "nat \<Rightarrow> string \<Rightarrow> nat" where
  "digits_value radix s = foldl (\<lambda>acc c. acc * radix + the (char_digit radix c)) 0 s"

definition read_number :: "nat \<Rightarrow> nat \<Rightarrow> bool \<Rightarrow> nat \<Rightarrow> string \<Rightarrow> (nat \<times> string) option" where
  "read_number radix max_digits allow_zero_prefix limit s =
     (let ds = digit_prefix radix s in
      if ds = [] \<or> length ds > max_digits \<or> digits_value radix ds > limit then None
      else if \<not> allow_zero_prefix \<and> hd ds = CHR ''0'' \<and> length ds > 1 then None
      else Some (digits_value radix ds, drop (length ds) s))"

text \<open>\<open>Parser::read_separator\<close>: the separator comes before every element but the first.\<close>

definition read_separator :: "char \<Rightarrow> nat \<Rightarrow> (string \<Rightarrow> ('a \<times> string) option) \<Rightarrow> string \<Rightarrow> ('a \<times> string) option" where
  "read_separator sep index inner s =
     (if index = 0 then inner s
      else case s of [] \<Rightarrow> None | c # cs \<Rightarrow> if c = sep then inner cs else None)"

section \<open>IPv4\<close>

definition ipv4_octets :: "32 word \<Rightarrow> nat list" where
  "ipv4_octets a = map (\<lambda>i. unat (drop_bit (8 * (3 - i)) a) mod 256) [0..<4]"

definition fmt_ipv4 :: "32 word \<Rightarrow> string" where
  "fmt_ipv4 a = join_with ''.'' (map (to_radix 10) (ipv4_octets a))"

fun read_octets :: "nat \<Rightarrow> nat \<Rightarrow> string \<Rightarrow> (nat list \<times> string) option" where
  "read_octets 0 i s = Some ([], s)"
| "read_octets (Suc n) i s =
     (case read_separator CHR ''.'' i (read_number 10 3 False 255) s of
        None \<Rightarrow> None
      | Some (v, r) \<Rightarrow> (case read_octets n (Suc i) r of
          None \<Rightarrow> None | Some (vs, r') \<Rightarrow> Some (v # vs, r')))"

definition of_groups :: "nat \<Rightarrow> nat list \<Rightarrow> nat" where
  "of_groups base gs = foldl (\<lambda>acc v. acc * base + v) 0 gs"

definition read_ipv4_addr :: "string \<Rightarrow> (32 word \<times> string) option" where
  "read_ipv4_addr s = map_option (\<lambda>(vs, r). (word_of_nat (of_groups 256 vs), r)) (read_octets 4 0 s)"

definition parse_ipv4 :: "string \<Rightarrow> 32 word option" where
  "parse_ipv4 s =
     (if length s > 15 then None
      else case read_ipv4_addr s of Some (a, []) \<Rightarrow> Some a | _ \<Rightarrow> None)"

section \<open>IPv6\<close>

definition ipv6_segments :: "128 word \<Rightarrow> nat list" where
  "ipv6_segments a = map (\<lambda>i. unat (drop_bit (16 * (7 - i)) a) mod 65536) [0..<8]"

text \<open>The first longest run of zero segments: its start and its length.\<close>

fun zero_span :: "nat \<Rightarrow> nat list \<Rightarrow> nat \<times> nat \<Rightarrow> nat \<times> nat \<Rightarrow> nat \<times> nat" where
  "zero_span i [] current longest = longest"
| "zero_span i (x # xs) current longest =
     (if x = 0
      then (let current' = (if snd current = 0 then i else fst current, Suc (snd current))
            in zero_span (Suc i) xs current' (if snd current' > snd longest then current' else longest))
      else zero_span (Suc i) xs (0, 0) longest)"

definition fmt_subslice :: "nat list \<Rightarrow> string" where
  "fmt_subslice xs = join_with '':'' (map (to_radix 16) xs)"

definition fmt_ipv6 :: "128 word \<Rightarrow> string" where
  "fmt_ipv6 a =
     (if drop_bit 32 a = 0xffff then ''::ffff:'' @ fmt_ipv4 (ucast a)
      else let xs = ipv6_segments a; (start, len) = zero_span 0 xs (0, 0) (0, 0)
        in if len > 1
           then fmt_subslice (take start xs) @ ''::'' @ fmt_subslice (drop (start + len) xs)
           else fmt_subslice xs)"

text \<open>\<open>read_groups\<close>: up to \<open>limit\<close> groups, the last two of which may be an IPv4 address.  The
  result has the groups and whether they end in an IPv4 address.\<close>

fun read_groups :: "nat \<Rightarrow> nat \<Rightarrow> string \<Rightarrow> nat list \<times> bool \<times> string" where
  "read_groups 0 i s = ([], False, s)"
| "read_groups (Suc n) i s =
     (case (if n > 0 then read_separator CHR '':'' i read_ipv4_addr s else None) of
        Some (a, r) \<Rightarrow> ([unat (drop_bit 16 a), unat a mod 65536], True, r)
      | None \<Rightarrow>
          (case read_separator CHR '':'' i (read_number 16 4 True 65535) s of
             None \<Rightarrow> ([], False, s)
           | Some (v, r) \<Rightarrow> (let (vs, v4, r') = read_groups n (Suc i) r in (v # vs, v4, r'))))"

definition read_ipv6_addr :: "string \<Rightarrow> (128 word \<times> string) option" where
  "read_ipv6_addr s =
     (let (head, head_ipv4, r) = read_groups 8 0 s in
      if length head = 8 then Some (word_of_nat (of_groups 65536 head), r)
      else if head_ipv4 then None
      else case strip_prefix ''::'' r of
             None \<Rightarrow> None
           | Some r1 \<Rightarrow>
               (let (tail, _, r2) = read_groups (8 - (length head + 1)) 0 r1 in
                Some (word_of_nat (of_groups 65536
                  (head @ replicate (8 - length head - length tail) 0 @ tail)), r2)))"

section \<open>Addresses\<close>

definition fmt_ip :: "ip_addr \<Rightarrow> string" where
  "fmt_ip ip = (case ip of V4 a \<Rightarrow> fmt_ipv4 a | V6 a \<Rightarrow> fmt_ipv6 a)"

definition read_ip_addr :: "string \<Rightarrow> (ip_addr \<times> string) option" where
  "read_ip_addr s =
     (case read_ipv4_addr s of
        Some (a, r) \<Rightarrow> Some (V4 a, r)
      | None \<Rightarrow> map_option (\<lambda>(a, r). (V6 a, r)) (read_ipv6_addr s))"

definition parse_ip :: "string \<Rightarrow> ip_addr option" where
  "parse_ip s = (case read_ip_addr s of Some (ip, []) \<Rightarrow> Some ip | _ \<Rightarrow> None)"

section \<open>Printing and reading numbers\<close>

lemma char_digit_digit_char:
  "d < radix \<Longrightarrow> radix \<le> 16 \<Longrightarrow> char_digit radix (digit_char d) = Some d"
  by (auto simp: char_digit_def digit_char_def Let_def)

lemma digits_value_snoc:
  "digits_value radix (s @ [c]) = digits_value radix s * radix + the (char_digit radix c)"
  by (simp add: digits_value_def)

lemma digits_value_to_radix:
  "2 \<le> radix \<Longrightarrow> radix \<le> 16 \<Longrightarrow> digits_value radix (to_radix radix n) = n"
proof (induction radix n rule: to_radix.induct)
  case (1 radix n)
  show ?case
  proof (cases "n < radix")
    case True
    then show ?thesis
      using 1 by (subst to_radix.simps) (simp add: digits_value_def char_digit_digit_char)
  next
    case False
    then show ?thesis
      using 1 by (subst to_radix.simps) (simp add: digits_value_snoc char_digit_digit_char)
  qed
qed

lemma to_radix_digits:
  "2 \<le> radix \<Longrightarrow> radix \<le> 16 \<Longrightarrow> c \<in> set (to_radix radix n) \<Longrightarrow> char_digit radix c \<noteq> None"
proof (induction radix n rule: to_radix.induct)
  case (1 radix n)
  then show ?case
    by (subst (asm) (2) to_radix.simps) (auto simp: char_digit_digit_char split: if_splits)
qed

lemma to_radix_not_Nil [simp]: "to_radix radix n \<noteq> []"
  by (subst to_radix.simps) simp

lemma length_to_radix: "2 \<le> radix \<Longrightarrow> 0 < k \<Longrightarrow> n < radix ^ k \<Longrightarrow> length (to_radix radix n) \<le> k"
proof (induction k arbitrary: n)
  case (Suc k)
  show ?case
  proof (cases "n < radix \<or> k = 0")
    case True
    then have "n < radix" using Suc.prems by auto
    then show ?thesis by (subst to_radix.simps) simp
  next
    case False
    then have "n div radix < radix ^ k"
      using Suc.prems by (simp add: less_mult_imp_div_less mult.commute)
    then show ?thesis
      using Suc.IH [of "n div radix"] Suc.prems False by (subst to_radix.simps) simp
  qed
qed simp

lemma hd_to_radix:
  "2 \<le> radix \<Longrightarrow> radix \<le> 16 \<Longrightarrow> hd (to_radix radix n) = CHR ''0'' \<Longrightarrow> n = 0"
proof (induction radix n rule: to_radix.induct)
  case (1 radix n)
  have zero: "d = 0" if "d < 16" "digit_char d = CHR ''0''" for d
  proof -
    have "(of_char (digit_char d) :: nat) = 48" using that(2) by simp
    then show ?thesis using that(1) by (auto simp: digit_char_def split: if_splits)
  qed
  show ?case
  proof (cases "n < radix")
    case True
    then show ?thesis
      using 1(2-4) zero [of n] by (subst (asm) to_radix.simps) simp
  next
    case False
    then have "hd (to_radix radix (n div radix)) = CHR ''0''"
      using 1(2-4) by (subst (asm) (1) to_radix.simps) simp
    then have "n div radix = 0" using 1 False by simp
    then show ?thesis using False 1(2) by (simp add: div_eq_0_iff)
  qed
qed

text \<open>Text that does not go on with a digit.\<close>

definition no_digit :: "nat \<Rightarrow> string \<Rightarrow> bool" where
  "no_digit radix r \<longleftrightarrow> (r = [] \<or> char_digit radix (hd r) = None)"

lemma read_number_to_radix:
  assumes "2 \<le> radix" "radix \<le> 16" "0 < k" "n < radix ^ k" "n \<le> limit" "no_digit radix r"
  shows "read_number radix k z limit (to_radix radix n @ r) = Some (n, r)"
proof -
  have all: "takeWhile (\<lambda>c. char_digit radix c \<noteq> None) (to_radix radix n @ r) = to_radix radix n"
    using to_radix_digits [OF assms(1,2)] assms(6)
    by (subst takeWhile_append2) (auto simp: no_digit_def takeWhile_eq_Nil_iff)
  have len: "length (to_radix radix n) \<le> k" using length_to_radix assms by blast
  have nz: "\<not> (hd (to_radix radix n) = CHR ''0'' \<and> length (to_radix radix n) > 1)"
  proof
    assume h: "hd (to_radix radix n) = CHR ''0'' \<and> length (to_radix radix n) > 1"
    then have "n = 0" using hd_to_radix assms by blast
    then have "to_radix radix n = [digit_char 0]" using assms(1) by (subst to_radix.simps) simp
    with h show False by simp
  qed
  have dp: "digit_prefix radix (to_radix radix n @ r) = to_radix radix n"
    using all by (simp add: digit_prefix_def)
  show ?thesis
    unfolding read_number_def Let_def dp
    using len nz assms(5) digits_value_to_radix [OF assms(1,2)] by auto
qed

section \<open>Printing and reading IPv4 addresses\<close>

lemma ipv4_octets_conv:
  "ipv4_octets a = [unat a div 2 ^ 24, unat a div 2 ^ 16 mod 256, unat a div 2 ^ 8 mod 256, unat a mod 256]"
proof -
  have "unat a < 2 ^ 32" using unsigned_less [of a] by simp
  then have "unat a div 2 ^ 24 < 256" by (simp add: less_mult_imp_div_less)
  moreover have "unat (drop_bit k a) = unat a div 2 ^ k" for k
    unfolding unat_drop_bit_eq by (rule drop_bit_eq_div)
  moreover have "[0..<4] = [0, 1, 2, 3 :: nat]" by (simp add: upt_rec)
  ultimately show ?thesis by (simp add: ipv4_octets_def)
qed

lemma of_groups_octets: "of_groups 256 (ipv4_octets a) = unat a"
proof -
  let ?n = "unat a"
  have "?n div 2 ^ 24 * 256 + ?n div 2 ^ 16 mod 256 = ?n div 2 ^ 16"
    using div_mult_mod_eq [of "?n div 2 ^ 16" 256] by (simp add: div_mult2_eq [symmetric])
  moreover have "?n div 2 ^ 16 * 256 + ?n div 2 ^ 8 mod 256 = ?n div 2 ^ 8"
    using div_mult_mod_eq [of "?n div 2 ^ 8" 256] by (simp add: div_mult2_eq [symmetric])
  moreover have "?n div 2 ^ 8 * 256 + ?n mod 256 = ?n"
    using div_mult_mod_eq [of ?n 256] by simp
  ultimately show ?thesis unfolding ipv4_octets_conv of_groups_def by simp
qed

lemma ipv4_octets_bound: "v \<in> set (ipv4_octets a) \<Longrightarrow> v < 256"
  by (auto simp: ipv4_octets_def)

lemma read_octets_join:
  assumes "vs \<noteq> []" and "\<And>v. v \<in> set vs \<Longrightarrow> v < 256" and "no_digit 10 r"
  shows "read_octets (length vs) i ((if i = 0 then [] else ''.'') @ join_with ''.'' (map (to_radix 10) vs) @ r) =
    Some (vs, r)"
  using assms(1,2)
proof (induction vs arbitrary: i)
  case (Cons v vs)
  have v: "v < 10 ^ 3" "v \<le> 255" using Cons.prems(2) [of v] by auto
  show ?case
  proof (cases "vs = []")
    case True
    then show ?thesis
      using read_number_to_radix [of 10 3 v 255 r False] v assms(3) by (simp add: read_separator_def)
  next
    case False
    let ?rest = "''.'' @ join_with ''.'' (map (to_radix 10) vs) @ r"
    have nd: "no_digit 10 ?rest" by (simp add: no_digit_def char_digit_def)
    have "read_octets (length vs) (Suc i) ?rest = Some (vs, r)"
      using Cons.IH [of "Suc i"] Cons.prems False by simp
    then show ?thesis
      using read_number_to_radix [of 10 3 v 255 ?rest False] v nd False
      by (cases i) (simp_all add: read_separator_def join_with_Cons)
  qed
qed simp

lemma read_ipv4_fmt: "no_digit 10 r \<Longrightarrow> read_ipv4_addr (fmt_ipv4 a @ r) = Some (a, r)"
proof -
  assume r: "no_digit 10 r"
  have ne: "ipv4_octets a \<noteq> []" and len: "length (ipv4_octets a) = 4" by (simp_all add: ipv4_octets_def)
  have "read_octets 4 0 (fmt_ipv4 a @ r) = Some (ipv4_octets a, r)"
    using read_octets_join [OF ne ipv4_octets_bound [of _ a] r, of 0] len by (simp add: fmt_ipv4_def)
  then show ?thesis by (simp add: read_ipv4_addr_def of_groups_octets)
qed

text \<open>Every IPv4 address is read back from its text.\<close>

lemma parse_fmt_ipv4: "parse_ip (fmt_ip (V4 a)) = Some (V4 a)"
  using read_ipv4_fmt [of "[]" a] by (simp add: parse_ip_def read_ip_addr_def fmt_ip_def no_digit_def)

end
