(* ===== verification/Vhost.thy ===== *)
theory Vhost
  imports Api_Error Ip_Text
begin

text \<open>
  Virtual hosts: \<open>SubjectName\<close> and \<open>VirtualHost\<close> of \<open>r3v3rs3-api\<close>.

  The regular expressions of the \<open>regex\<close> crate and the syntax check of \<open>rustls_pki_types::ServerName\<close>
  are parameters (\<open>host_env\<close>): which patterns compile, which texts they match, and which texts are
  server names.
\<close>

record host_env =
  he_server_name :: "string \<Rightarrow> bool"
  he_regex_ok :: "string \<Rightarrow> bool"
  he_regex_match :: "string \<Rightarrow> string \<Rightarrow> bool"

datatype subject_name = DnsName string | WildcardDnsName string | IPAddress ip_addr

datatype virtual_host = SubjectName subject_name | Regex string

definition subject_test :: "subject_name \<Rightarrow> string \<Rightarrow> bool" where
  "subject_test n name =
     (case n of
        DnsName d \<Rightarrow> eq_ignore_ascii_case d name
      | WildcardDnsName d \<Rightarrow>
          eq_ignore_ascii_case d
            (trim_start_matches (\<lambda>c. c = CHR ''.'') (trim_start_matches (\<lambda>c. c \<noteq> CHR ''.'') name))
      | IPAddress addr \<Rightarrow> eq_ignore_ascii_case name (fmt_ip addr))"

definition subject_display :: "subject_name \<Rightarrow> string" where
  "subject_display n = (case n of
      DnsName d \<Rightarrow> d | WildcardDnsName d \<Rightarrow> ''*.'' @ d | IPAddress addr \<Rightarrow> fmt_ip addr)"

text \<open>\<open>str::trim_start_matches("*.")\<close> removes every leading occurrence.\<close>

fun trim_wildcards :: "string \<Rightarrow> string" where
  "trim_wildcards (a # b # s) = (if a = CHR ''*'' \<and> b = CHR ''.'' then trim_wildcards s else a # b # s)"
| "trim_wildcards s = s"

definition replace_stars :: "string \<Rightarrow> string" where
  "replace_stars s = map (\<lambda>c. if c = CHR ''*'' then CHR ''a'' else c) s"

definition subject_from_str :: "host_env \<Rightarrow> string \<Rightarrow> subject_name result" where
  "subject_from_str e s =
     (if \<not> he_server_name e (replace_stars s) then Inl (InvalidSubjectName s)
      else let wildcard = starts_with ''*.'' s; name = trim_wildcards s in
        case parse_ip name of
          Some addr \<Rightarrow> Inr (IPAddress addr)
        | None \<Rightarrow> if wildcard then Inr (WildcardDnsName name) else Inr (DnsName name))"

definition vhost_test :: "host_env \<Rightarrow> virtual_host \<Rightarrow> string \<Rightarrow> bool" where
  "vhost_test e v name = (case v of
      SubjectName n \<Rightarrow> subject_test n name
    | Regex r \<Rightarrow> he_regex_match e r name)"

definition vhost_from_str :: "host_env \<Rightarrow> string \<Rightarrow> virtual_host result" where
  "vhost_from_str e s =
     (case subject_from_str e s of
        Inr n \<Rightarrow> Inr (SubjectName n)
      | Inl _ \<Rightarrow> if he_regex_ok e s then Inr (Regex s) else Inl (InvalidVirtualHost s))"

section \<open>Matching\<close>

text \<open>A DNS name and an address match one host only, up to the case of the letters; a wildcard
  name matches the names with one more label in front.\<close>

lemma subject_test_case_insensitive:
  "eq_ignore_ascii_case a b \<Longrightarrow> subject_test (DnsName d) a = subject_test (DnsName d) b"
  by (auto simp: subject_test_def eq_ignore_ascii_case_def)

lemma wildcard_one_label:
  assumes "CHR ''.'' \<notin> set label" and "label \<noteq> []" and "d \<noteq> []" and "hd d \<noteq> CHR ''.''"
  shows "subject_test (WildcardDnsName d) (label @ ''.'' @ d)"
proof -
  have "dropWhile (\<lambda>c. c \<noteq> CHR ''.'') (label @ CHR ''.'' # d) = CHR ''.'' # d"
    using assms(1) by (induction label) auto
  moreover have "dropWhile (\<lambda>c. c = CHR ''.'') d = d" using assms(3,4) by (cases d) auto
  ultimately show ?thesis by (simp add: subject_test_def trim_start_matches_def)
qed

end
