(* ===== verification/Request_Filter.thy ===== *)
theory Request_Filter
  imports Vhost
begin

text \<open>
  Request matching: \<open>proxy/http/filter.rs\<close>.  A route matches a request by host and by the leading
  segments of its normalized path.  The theory shows what normalization leaves of a path, and that
  a matching route and its result split the normalized path without loss.
\<close>

section \<open>Normalization\<close>

definition is_single_dot :: "string \<Rightarrow> bool" where
  "is_single_dot segment \<longleftrightarrow> eq_ignore_ascii_case segment ''.'' \<or> eq_ignore_ascii_case segment ''%2e''"

definition is_double_dot :: "string \<Rightarrow> bool" where
  "is_double_dot segment \<longleftrightarrow>
     to_ascii_lowercase segment \<in> {''..'', ''.%2e'', ''%2e.'', ''%2e%2e''}"

definition needs_trailing_slash :: "string \<Rightarrow> bool \<Rightarrow> string \<Rightarrow> bool" where
  "needs_trailing_slash path last_was_dot res \<longleftrightarrow>
     (ends_with ''/'' path \<or> last_was_dot) \<and> \<not> ends_with ''/'' res"

text \<open>The loop over the segments: the kept segments, and whether the last one was a dot segment.\<close>

fun normalize_loop :: "string list \<Rightarrow> string list \<Rightarrow> bool \<Rightarrow> string list \<times> bool" where
  "normalize_loop [] normalized last_was_dot = (normalized, last_was_dot)"
| "normalize_loop (segment # segments) normalized last_was_dot =
     (if segment = [] then normalize_loop segments normalized last_was_dot
      else if is_single_dot segment then normalize_loop segments normalized True
      else if is_double_dot segment then normalize_loop segments (butlast normalized) True
      else normalize_loop segments (normalized @ [segment]) False)"

definition normalize_path :: "string \<Rightarrow> string" where
  "normalize_path path =
     (let (normalized, last_was_dot) = normalize_loop (split_on CHR ''/'' path) [] False;
          res = ''/'' @ join_with ''/'' normalized
      in if needs_trailing_slash path last_was_dot res then res @ ''/'' else res)"

definition request_segments :: "string \<Rightarrow> string list" where
  "request_segments path = split_on CHR ''/'' (trim_start_matches (\<lambda>c. c = CHR ''/'') path)"

section \<open>The filter of a route\<close>

record request_filter =
  rf_vhosts :: "virtual_host list"
  rf_path :: "string list"

datatype host_match_kind = MatchAny | MatchRegex | MatchWildcard | MatchExact

datatype match_rank = MatchRank (mr_host: host_match_kind) (mr_segments: nat)

text \<open>The derived order of the two types: a later variant is greater, and ranks compare the host
  first.\<close>

primrec host_match_rank :: "host_match_kind \<Rightarrow> nat" where
  "host_match_rank MatchAny = 0"
| "host_match_rank MatchRegex = 1"
| "host_match_rank MatchWildcard = 2"
| "host_match_rank MatchExact = 3"

lemma host_match_rank_inj: "host_match_rank a = host_match_rank b \<Longrightarrow> a = b"
  by (cases a; cases b) simp_all

instantiation host_match_kind :: linorder
begin
definition less_eq_host_match_def: "a \<le> b \<longleftrightarrow> host_match_rank a \<le> host_match_rank b"
definition less_host_match_def: "a < b \<longleftrightarrow> host_match_rank a < host_match_rank b"
instance
  by standard (auto simp: less_eq_host_match_def less_host_match_def intro: host_match_rank_inj)
end

instantiation match_rank :: linorder
begin
definition less_eq_match_rank_def: "a \<le> b \<longleftrightarrow> (mr_host a, mr_segments a) \<le> (mr_host b, mr_segments b)"
definition less_match_rank_def: "a < b \<longleftrightarrow> (mr_host a, mr_segments a) < (mr_host b, mr_segments b)"
instance
proof
  fix a b c :: match_rank
  show "(a < b) = (a \<le> b \<and> \<not> b \<le> a)" by (auto simp: less_eq_match_rank_def less_match_rank_def)
  show "a \<le> a" by (simp add: less_eq_match_rank_def)
  show "a \<le> b \<Longrightarrow> b \<le> c \<Longrightarrow> a \<le> c" unfolding less_eq_match_rank_def by (rule order_trans)
  show "a \<le> b \<Longrightarrow> b \<le> a \<Longrightarrow> a = b"
    by (cases a; cases b) (auto simp: less_eq_match_rank_def)
  show "a \<le> b \<or> b \<le> a" unfolding less_eq_match_rank_def by (rule linear)
qed
end

definition filter_new :: "virtual_host list \<Rightarrow> string \<Rightarrow> request_filter" where
  "filter_new vhosts path =
     \<lparr>rf_vhosts = vhosts, rf_path = filter (\<lambda>seg. seg \<noteq> []) (split_on CHR ''/'' path)\<rparr>"

definition vhost_match :: "virtual_host \<Rightarrow> host_match_kind" where
  "vhost_match v = (case v of
      SubjectName (WildcardDnsName _) \<Rightarrow> MatchWildcard
    | SubjectName _ \<Rightarrow> MatchExact
    | Regex _ \<Rightarrow> MatchRegex)"

definition host_match :: "host_env \<Rightarrow> request_filter \<Rightarrow> string option \<Rightarrow> host_match_kind option" where
  "host_match e f host =
     (if rf_vhosts f = [] then Some MatchAny
      else case host of None \<Rightarrow> None
      | Some h \<Rightarrow>
          (let ms = map vhost_match (filter (\<lambda>v. vhost_test e v h) (rf_vhosts f)) in
           if ms = [] then None else Some (Max (set ms))))"

definition matches_host :: "host_env \<Rightarrow> request_filter \<Rightarrow> string option \<Rightarrow> bool" where
  "matches_host e f host \<longleftrightarrow> host_match e f host \<noteq> None"

definition rank :: "host_env \<Rightarrow> request_filter \<Rightarrow> string \<Rightarrow> string option \<Rightarrow> match_rank option" where
  "rank e f req_path host =
     (case host_match e f host of
        None \<Rightarrow> None
      | Some h \<Rightarrow>
          (let path = normalize_path req_path;
               matched = length (takeWhile (\<lambda>(a, b). a = b) (zip (request_segments path) (rf_path f)))
           in if matched = length (rf_path f) then Some (MatchRank h matched) else None))"

definition filter_result :: "request_filter \<Rightarrow> string \<Rightarrow> string list" where
  "filter_result f req_path =
     drop (length (rf_path f)) (request_segments (normalize_path req_path))"

section \<open>What normalization leaves\<close>

text \<open>A kept segment is not empty, has no slash and is not a dot segment.\<close>

definition plain_segment :: "string \<Rightarrow> bool" where
  "plain_segment s \<longleftrightarrow> s \<noteq> [] \<and> CHR ''/'' \<notin> set s \<and> \<not> is_single_dot s \<and> \<not> is_double_dot s"

lemma list_all_butlast: "list_all P xs \<Longrightarrow> list_all P (butlast xs)"
  by (auto simp: list_all_iff dest: in_set_butlastD)

lemma normalize_loop_plain:
  "list_all (\<lambda>s. CHR ''/'' \<notin> set s) segs \<Longrightarrow> list_all plain_segment acc \<Longrightarrow>
     list_all plain_segment (fst (normalize_loop segs acc d))"
proof (induction segs acc d rule: normalize_loop.induct)
  case (2 segment segments normalized last_was_dot)
  then show ?case by (simp add: list_all_butlast plain_segment_def)
qed simp

lemma normalize_loop_of_plain:
  "(\<And>s. s \<in> set segs \<Longrightarrow> s = [] \<or> plain_segment s) \<Longrightarrow>
     fst (normalize_loop segs acc d) = acc @ filter (\<lambda>s. s \<noteq> []) segs \<and>
     (\<not> d \<longrightarrow> \<not> snd (normalize_loop segs acc d))"
  by (induction segs acc d rule: normalize_loop.induct) (auto simp: plain_segment_def)

text \<open>
  The shape of a normalized path: plain segments, and a final empty segment when the path ends in
  a slash, which the root path always does.
\<close>

definition canonical :: "string list \<Rightarrow> bool \<Rightarrow> string list" where
  "canonical ns slash = ns @ (if slash \<or> ns = [] then [[]] else [])"

definition canonical_path :: "string list \<Rightarrow> bool \<Rightarrow> string" where
  "canonical_path ns slash = ''/'' @ join_with ''/'' (canonical ns slash)"

lemma canonical_not_Nil [simp]: "canonical ns slash \<noteq> []"
  by (simp add: canonical_def)

lemma canonical_no_slash:
  "(\<And>s. s \<in> set ns \<Longrightarrow> plain_segment s) \<Longrightarrow> s \<in> set (canonical ns slash) \<Longrightarrow> CHR ''/'' \<notin> set s"
  by (auto simp: canonical_def plain_segment_def split: if_splits)

lemma join_with_snoc_Nil: "ns \<noteq> [] \<Longrightarrow> join_with sep (ns @ [[]]) = join_with sep ns @ sep"
  by (induction ns rule: induct_list012) auto

lemma join_plain_last:
  assumes "ns \<noteq> []" and "\<And>s. s \<in> set ns \<Longrightarrow> plain_segment s"
  shows "join_with ''/'' ns \<noteq> [] \<and> last (join_with ''/'' ns) \<noteq> CHR ''/''"
  using assms
proof (induction ns rule: induct_list012)
  case (2 x)
  then have "x \<noteq> []" "CHR ''/'' \<notin> set x" by (auto simp: plain_segment_def)
  then show ?case by (metis join_with.simps(2) last_in_set)
qed auto

lemma ends_with_slash_iff: "ends_with ''/'' s \<longleftrightarrow> s \<noteq> [] \<and> last s = CHR ''/''"
  by (auto simp: ends_with_iff) (metis append_butlast_last_id)

lemma split_canonical_path:
  assumes "\<And>s. s \<in> set ns \<Longrightarrow> plain_segment s"
  shows "split_on CHR ''/'' (canonical_path ns slash) = [] # canonical ns slash"
proof -
  have eq: "canonical_path ns slash = join_with ''/'' ([] # canonical ns slash)"
    by (simp add: canonical_path_def join_with_Cons)
  show ?thesis
    unfolding eq by (rule split_join_with) (use canonical_no_slash [OF assms] in auto)
qed

lemma normalize_path_shape:
  "\<exists>ns slash. normalize_path path = canonical_path ns slash \<and> (\<forall>s \<in> set ns. plain_segment s) \<and>
     ns = fst (normalize_loop (split_on CHR ''/'' path) [] False)"
proof -
  obtain ns d where loop: "normalize_loop (split_on CHR ''/'' path) [] False = (ns, d)" by fastforce
  have plain: "plain_segment s" if "s \<in> set ns" for s
  proof -
    have "list_all (\<lambda>s. CHR ''/'' \<notin> set s) (split_on CHR ''/'' path)"
      unfolding list_all_iff by (blast dest: split_on_pieces)
    from normalize_loop_plain [OF this, of "[]" False] show ?thesis using loop that by (auto simp: list_all_iff)
  qed
  have "normalize_path path = canonical_path ns (ends_with ''/'' path \<or> d)"
  proof (cases "ns = []")
    case True
    then show ?thesis
      using loop by (simp add: normalize_path_def canonical_path_def canonical_def needs_trailing_slash_def
          ends_with_slash_iff)
  next
    case False
    then have "\<not> ends_with ''/'' (''/'' @ join_with ''/'' ns)"
      using join_plain_last [OF False plain] by (simp add: ends_with_slash_iff)
    then show ?thesis
      using loop False
      by (auto simp: normalize_path_def canonical_path_def canonical_def needs_trailing_slash_def
          join_with_snoc_Nil)
  qed
  then show ?thesis using plain loop by (metis fst_conv)
qed

lemma normalize_canonical_path:
  assumes plain: "\<And>s. s \<in> set ns \<Longrightarrow> plain_segment s"
  shows "normalize_path (canonical_path ns slash) = canonical_path ns slash"
proof -
  have segs: "s = [] \<or> plain_segment s" if "s \<in> set ([] # canonical ns slash)" for s
    using that plain by (auto simp: canonical_def split: if_splits)
  have f: "filter (\<lambda>s. s \<noteq> []) ([] # canonical ns slash) = ns"
    using plain by (auto simp: canonical_def plain_segment_def filter_id_conv)
  have loop: "normalize_loop (split_on CHR ''/'' (canonical_path ns slash)) [] False = (ns, False)"
    using normalize_loop_of_plain [OF segs, where acc = "[]" and d = False] f
    by (simp add: split_canonical_path [OF plain] prod_eq_iff)
  show ?thesis
  proof (cases "ns = []")
    case True
    then show ?thesis
      using loop by (simp add: normalize_path_def canonical_path_def canonical_def needs_trailing_slash_def
          ends_with_slash_iff)
  next
    case False
    have l: "join_with ''/'' ns \<noteq> []" "last (join_with ''/'' ns) \<noteq> CHR ''/''"
      using join_plain_last [OF False plain] by auto
    then show ?thesis
      using loop False
      by (simp add: normalize_path_def canonical_path_def canonical_def needs_trailing_slash_def
          ends_with_slash_iff join_with_snoc_Nil)
  qed
qed

lemma normalize_path_idem: "normalize_path (normalize_path path) = normalize_path path"
  using normalize_path_shape [of path] normalize_canonical_path by metis

lemma request_segments_canonical:
  assumes plain: "\<And>s. s \<in> set ns \<Longrightarrow> plain_segment s"
  shows "request_segments (canonical_path ns slash) = canonical ns slash"
proof -
  have "trim_start_matches (\<lambda>c. c = CHR ''/'') (canonical_path ns slash) = join_with ''/'' (canonical ns slash)"
  proof (cases ns)
    case Nil
    then show ?thesis by (simp add: canonical_path_def canonical_def trim_start_matches_def)
  next
    case (Cons x xs)
    then obtain c cs where c: "x = c # cs" "c \<noteq> CHR ''/''"
      using plain [of x] by (cases x) (auto simp: plain_segment_def)
    then have "\<exists>r. join_with ''/'' (canonical ns slash) = c # r"
      using Cons by (cases "xs @ (if slash \<or> ns = [] then [[]] else [])") (auto simp: canonical_def)
    then show ?thesis using c by (auto simp: canonical_path_def trim_start_matches_def)
  qed
  then show ?thesis
    using canonical_no_slash [OF plain] by (simp add: request_segments_def split_join_with)
qed

lemma normalized_no_dots:
  "list_all (\<lambda>s. \<not> is_single_dot s \<and> \<not> is_double_dot s) (request_segments (normalize_path path))"
proof -
  obtain ns slash where p: "normalize_path path = canonical_path ns slash"
    and plain: "\<And>s. s \<in> set ns \<Longrightarrow> plain_segment s"
    using normalize_path_shape [of path] by blast
  have nil: "\<not> is_single_dot []" "\<not> is_double_dot []"
    by (simp_all add: is_single_dot_def is_double_dot_def eq_ignore_ascii_case_def to_ascii_lowercase_def)
  have "list_all (\<lambda>s. \<not> is_single_dot s \<and> \<not> is_double_dot s) (canonical ns slash)"
    using plain nil by (auto simp: list_all_iff canonical_def plain_segment_def)
  then show ?thesis using request_segments_canonical [OF plain] p by simp
qed

section \<open>The properties of request matching\<close>

text \<open>
  C29: normalization resolves every dot segment.  A normalized path starts with a slash, none of its
  segments is a single or double dot segment in any spelling (plain or percent-encoded, in any
  case), only the last segment may be empty, and normalizing again changes nothing.
\<close>

theorem normalize_path_resolves_dots:
  "starts_with ''/'' (normalize_path path) \<and>
   list_all (\<lambda>s. \<not> is_single_dot s \<and> \<not> is_double_dot s) (request_segments (normalize_path path)) \<and>
   list_all (\<lambda>s. s \<noteq> []) (butlast (request_segments (normalize_path path))) \<and>
   normalize_path (normalize_path path) = normalize_path path"
proof -
  obtain ns slash where p: "normalize_path path = canonical_path ns slash"
    and plain: "\<And>s. s \<in> set ns \<Longrightarrow> plain_segment s"
    using normalize_path_shape [of path] by blast
  have segs: "request_segments (normalize_path path) = canonical ns slash"
    using request_segments_canonical [OF plain] p by simp
  have "s \<noteq> []" if "s \<in> set (butlast (canonical ns slash))" for s
    using that plain by (auto simp: canonical_def plain_segment_def butlast_append dest: in_set_butlastD split: if_splits)
  moreover have "starts_with ''/'' (normalize_path path)"
    unfolding p by (simp add: canonical_path_def starts_with_iff)
  ultimately show ?thesis using segs normalize_path_idem normalized_no_dots [of path] by (auto simp: list_all_iff)
qed

text \<open>A route matches when its segments are the leading segments of the request.\<close>

lemma takeWhile_zip_prefix:
  "length (takeWhile (\<lambda>(a, b). a = b) (zip xs ys)) = length ys \<longleftrightarrow> (\<exists>zs. xs = ys @ zs)"
proof (induction xs arbitrary: ys)
  case (Cons x xs)
  then show ?case by (cases ys) auto
qed auto

lemma rank_Some_iff:
  "rank e f path host = Some r \<longleftrightarrow>
     host_match e f host = Some (mr_host r) \<and> mr_segments r = length (rf_path f) \<and>
     (\<exists>rest. request_segments (normalize_path path) = rf_path f @ rest)"
proof (cases "host_match e f host")
  case (Some h)
  let ?segs = "request_segments (normalize_path path)"
  show ?thesis
  proof (cases "\<exists>rest. ?segs = rf_path f @ rest")
    case True
    then have "length (takeWhile (\<lambda>(a, b). a = b) (zip ?segs (rf_path f))) = length (rf_path f)"
      by (simp add: takeWhile_zip_prefix)
    then show ?thesis using Some True by (cases r) (auto simp: rank_def Let_def)
  next
    case False
    then have "length (takeWhile (\<lambda>(a, b). a = b) (zip ?segs (rf_path f))) \<noteq> length (rf_path f)"
      by (simp add: takeWhile_zip_prefix)
    then show ?thesis using Some False by (simp add: rank_def Let_def)
  qed
qed (simp add: rank_def)

text \<open>
  a matching route splits the request path without loss.  When a route matches, the normalized
  request path is the route path followed by the segments handed on, no handed-on segment is a dot
  segment, so the request cannot climb out of the route, and spelling the path with dot segments
  or repeated slashes does not change which routes match.
\<close>

theorem matching_route_splits_path:
  assumes "rank e f path host = Some r"
  shows "request_segments (normalize_path path) = rf_path f @ filter_result f path \<and>
    list_all (\<lambda>s. \<not> is_single_dot s \<and> \<not> is_double_dot s) (filter_result f path) \<and>
    rank e f (normalize_path path) host = Some r \<and>
    filter_result f (normalize_path path) = filter_result f path"
proof -
  obtain rest where rest: "request_segments (normalize_path path) = rf_path f @ rest"
    using assms by (auto simp: rank_Some_iff)
  then have res: "filter_result f path = rest" by (simp add: filter_result_def)
  have "list_all (\<lambda>s. \<not> is_single_dot s \<and> \<not> is_double_dot s) (request_segments (normalize_path path))"
    using normalized_no_dots by blast
  then show ?thesis
    using rest res assms by (simp add: rank_Some_iff normalize_path_idem filter_result_def)
qed

section \<open>Host matching\<close>

text \<open>The match of a route is its most specific virtual host.\<close>

lemma host_match_Some_iff:
  "host_match e f (Some h) = Some m \<longleftrightarrow>
     (if rf_vhosts f = [] then m = MatchAny
      else m \<in> vhost_match ` {v \<in> set (rf_vhosts f). vhost_test e v h} \<and>
        (\<forall>v \<in> set (rf_vhosts f). vhost_test e v h \<longrightarrow> vhost_match v \<le> m))"
proof (cases "rf_vhosts f = []")
  case False
  let ?S = "vhost_match ` {v \<in> set (rf_vhosts f). vhost_test e v h}"
  have fin: "finite ?S" by simp
  have eq: "set (map vhost_match (filter (\<lambda>v. vhost_test e v h) (rf_vhosts f))) = ?S" by auto
  show ?thesis
  proof (cases "?S = {}")
    case True
    then show ?thesis using False by (auto simp: host_match_def filter_empty_conv Let_def)
  next
    case ne: False
    have "host_match e f (Some h) = Some (Max ?S)"
      using False ne eq by (auto simp: host_match_def Let_def filter_empty_conv)
    then show ?thesis
      using False ne fin by (auto simp: Max_eq_iff)
  qed
qed (auto simp: host_match_def)

end
