(* ===== verification/Router.thy ===== *)
theory Router
  imports Request_Filter
begin

text \<open>
  The router of an HTTP port: \<open>proxy/http/route.rs\<close>.  It holds the routes of all proxies of the
  port in order and picks the most specific one for a request.

  The record of a route has here the fields that the router itself reads; the request pipeline
  extends it with the policies of the route.
\<close>

record custom_error_page =
  ep_status :: nat
  ep_body :: string

record filtered_route =
  fr_filter :: request_filter
  fr_base_path :: string
  fr_error_pages :: "custom_error_page list"
  fr_hide_branding :: bool

definition base_path :: "request_filter \<Rightarrow> string" where
  "base_path f = concat (map (\<lambda>segment. ''/'' @ segment) (rf_path f))"

text \<open>The loop of \<open>get_route\<close>: the first route of the highest rank.\<close>

fun best_route ::
    "host_env \<Rightarrow> string \<Rightarrow> string option \<Rightarrow> (match_rank \<times> 'a filtered_route_scheme) option \<Rightarrow>
     'a filtered_route_scheme list \<Rightarrow> (match_rank \<times> 'a filtered_route_scheme) option" where
  "best_route e path host best [] = best"
| "best_route e path host best (route # routes) =
     (case rank e (fr_filter route) path host of
        None \<Rightarrow> best_route e path host best routes
      | Some r \<Rightarrow>
          best_route e path host
            (if (case best of None \<Rightarrow> True | Some (best_rank, _) \<Rightarrow> r > best_rank) then Some (r, route) else best)
            routes)"

definition get_route ::
    "host_env \<Rightarrow> 'a filtered_route_scheme list \<Rightarrow> string \<Rightarrow> string option \<Rightarrow>
     (string list \<times> 'a filtered_route_scheme) option" where
  "get_route e routes path host =
     map_option (\<lambda>(_, route). (filter_result (fr_filter route) path, route))
       (best_route e path host None routes)"

definition has_matching_vhost :: "host_env \<Rightarrow> 'a filtered_route_scheme list \<Rightarrow> string \<Rightarrow> bool" where
  "has_matching_vhost e routes host \<longleftrightarrow>
     list_ex (\<lambda>r. list_ex (\<lambda>v. vhost_test e v host) (rf_vhosts (fr_filter r))) routes"

fun is_branding_hidden :: "host_env \<Rightarrow> 'a filtered_route_scheme list \<Rightarrow> string option \<Rightarrow> bool" where
  "is_branding_hidden e [] host = False"
| "is_branding_hidden e (route # routes) host =
     (if matches_host e (fr_filter route) host then fr_hide_branding route
      else is_branding_hidden e routes host)"

fun find_error_pages :: "host_env \<Rightarrow> 'a filtered_route_scheme list \<Rightarrow> string option \<Rightarrow> custom_error_page list" where
  "find_error_pages e [] host = []"
| "find_error_pages e (route # routes) host =
     (if matches_host e (fr_filter route) host \<and> fr_error_pages route \<noteq> [] then fr_error_pages route
      else find_error_pages e routes host)"

text \<open>The pages of a theme with the proxy's own pages over them.\<close>

fun override_page :: "custom_error_page list \<Rightarrow> custom_error_page \<Rightarrow> custom_error_page list" where
  "override_page [] page = [page]"
| "override_page (p # ps) page = (if ep_status p = ep_status page then page # ps else p # override_page ps page)"

definition resolve_effective_error_pages ::
    "string option \<Rightarrow> custom_error_page list \<Rightarrow> (string \<times> custom_error_page list) list \<Rightarrow> custom_error_page list" where
  "resolve_effective_error_pages theme_id overrides themes =
     (let pages = (case theme_id of None \<Rightarrow> []
        | Some i \<Rightarrow> (case find (\<lambda>t. fst t = i) themes of None \<Rightarrow> [] | Some t \<Rightarrow> snd t))
      in foldl override_page pages overrides)"

section \<open>The most specific route wins\<close>

lemma best_route_spec:
  "case best_route e path host best routes of
     None \<Rightarrow> best = None \<and> (\<forall>r \<in> set routes. rank e (fr_filter r) path host = None)
   | Some (m, route) \<Rightarrow>
       (\<forall>r \<in> set routes. \<forall>n. rank e (fr_filter r) path host = Some n \<longrightarrow> n \<le> m) \<and>
       (case best of None \<Rightarrow> True | Some (b, _) \<Rightarrow> b \<le> m) \<and>
       (best = Some (m, route) \<or>
        (\<exists>k < length routes. routes ! k = route \<and> rank e (fr_filter route) path host = Some m \<and>
          (\<forall>j < k. \<forall>n. rank e (fr_filter (routes ! j)) path host = Some n \<longrightarrow> n < m) \<and>
          (case best of None \<Rightarrow> True | Some (b, _) \<Rightarrow> b < m)))"
proof (induction routes arbitrary: best)
  case Nil
  then show ?case by (auto split: option.splits)
next
  case (Cons route routes)
  show ?case
  proof (cases "rank e (fr_filter route) path host")
    case None
    note IH = Cons.IH [of best]
    show ?thesis
    proof (cases "best_route e path host best routes")
      case none: None
      then show ?thesis using IH None by simp
    next
      case (Some p)
      obtain m x where p: "p = (m, x)" by (cases p)
      have "best = Some (m, x) \<or> (\<exists>k < length (route # routes). (route # routes) ! k = x \<and>
          rank e (fr_filter x) path host = Some m \<and>
          (\<forall>j < k. \<forall>n. rank e (fr_filter ((route # routes) ! j)) path host = Some n \<longrightarrow> n < m) \<and>
          (case best of None \<Rightarrow> True | Some (b, _) \<Rightarrow> b < m))"
      proof (cases "best = Some (m, x)")
        case False
        then obtain k where "k < length routes" "routes ! k = x" "rank e (fr_filter x) path host = Some m"
            "\<forall>j < k. \<forall>n. rank e (fr_filter (routes ! j)) path host = Some n \<longrightarrow> n < m"
            "case best of None \<Rightarrow> True | Some (b, _) \<Rightarrow> b < m"
          using IH Some p by auto
        then show ?thesis
          using None by (intro disjI2 exI [of _ "Suc k"]) (auto simp: less_Suc_eq_0_disj)
      qed simp
      then show ?thesis using IH Some p None by simp
    qed
  next
    case (Some n)
    let ?b = "if (case best of None \<Rightarrow> True | Some (b, _) \<Rightarrow> n > b) then Some (n, route) else best"
    note IH = Cons.IH [of ?b]
    have "?b \<noteq> None" by (cases best) auto
    then obtain b0 r0 where b0: "?b = Some (b0, r0)" by (metis not_None_eq surj_pair)
    then have b0n: "n \<le> b0" "case best of None \<Rightarrow> True | Some (b, _) \<Rightarrow> b \<le> b0"
      by (auto split: if_splits option.splits prod.splits)
    obtain m x where p: "best_route e path host ?b routes = Some (m, x)"
      using IH b0 by (auto split: option.splits)
    have max: "\<forall>r \<in> set routes. \<forall>n. rank e (fr_filter r) path host = Some n \<longrightarrow> n \<le> m" "b0 \<le> m"
      using IH [unfolded b0 p [unfolded b0] option.case prod.case] by blast+
    have src: "(b0, r0) = (m, x) \<or> (\<exists>k < length routes. routes ! k = x \<and>
          rank e (fr_filter x) path host = Some m \<and>
          (\<forall>j < k. \<forall>n. rank e (fr_filter (routes ! j)) path host = Some n \<longrightarrow> n < m) \<and> b0 < m)"
      using IH [unfolded b0 p [unfolded b0] option.case prod.case option.inject] by blast
    have "best = Some (m, x) \<or> (\<exists>k < length (route # routes). (route # routes) ! k = x \<and>
          rank e (fr_filter x) path host = Some m \<and>
          (\<forall>j < k. \<forall>n. rank e (fr_filter ((route # routes) ! j)) path host = Some n \<longrightarrow> n < m) \<and>
          (case best of None \<Rightarrow> True | Some (b, _) \<Rightarrow> b < m))"
      using src
    proof
      assume e: "(b0, r0) = (m, x)"
      show ?thesis
      proof (cases "best = ?b")
        case False
        then have "(n, route) = (m, x)" "case best of None \<Rightarrow> True | Some (b, _) \<Rightarrow> b < n"
          using b0 e by (auto split: if_splits)
        then show ?thesis using Some by (intro disjI2 exI [of _ 0]) auto
      qed (use b0 e in simp)
    next
      assume "\<exists>k < length routes. routes ! k = x \<and> rank e (fr_filter x) path host = Some m \<and>
          (\<forall>j < k. \<forall>n. rank e (fr_filter (routes ! j)) path host = Some n \<longrightarrow> n < m) \<and> b0 < m"
      then obtain k where k: "k < length routes" "routes ! k = x" "rank e (fr_filter x) path host = Some m"
          "\<forall>j < k. \<forall>n. rank e (fr_filter (routes ! j)) path host = Some n \<longrightarrow> n < m" "b0 < m"
        by blast
      have "case best of None \<Rightarrow> True | Some (b, _) \<Rightarrow> b < m"
        using b0n(2) k(5) by (auto split: option.splits)
      then show ?thesis
        using k Some b0n(1) by (intro disjI2 exI [of _ "Suc k"]) (auto simp: less_Suc_eq_0_disj)
    qed
    moreover have "\<forall>r \<in> set (route # routes). \<forall>n. rank e (fr_filter r) path host = Some n \<longrightarrow> n \<le> m"
      using max Some b0n(1) by auto
    moreover have "case best of None \<Rightarrow> True | Some (b, _) \<Rightarrow> b \<le> m"
      using b0n(2) max(2) by (auto split: option.splits)
    ultimately show ?thesis using Some p by simp
  qed
qed

text \<open>
  C11: the router picks the most specific route.  A request gets a route whenever some route matches
  it; the route it gets has the highest rank of all (exact host before wildcard before regular
  expression before any host, then the longest path), every route before it in the list ranks
  lower, and the segments passed on are those after the path of that route.
\<close>

theorem get_route_most_specific:
  "case get_route e routes path host of
     None \<Rightarrow> list_all (\<lambda>r. rank e (fr_filter r) path host = None) routes
   | Some (rest, route) \<Rightarrow>
       (\<exists>k m. k < length routes \<and> routes ! k = route \<and> rank e (fr_filter route) path host = Some m \<and>
         list_all (\<lambda>r. case rank e (fr_filter r) path host of None \<Rightarrow> True | Some n \<Rightarrow> n \<le> m) routes \<and>
         list_all (\<lambda>r. case rank e (fr_filter r) path host of None \<Rightarrow> True | Some n \<Rightarrow> n < m) (take k routes) \<and>
         request_segments (normalize_path path) = rf_path (fr_filter route) @ rest)"
proof (cases "best_route e path host None routes")
  case None
  then show ?thesis
    using best_route_spec [where e = e and path = path and host = host and best = None and routes = routes] by (simp add: get_route_def list_all_iff)
next
  case (Some p)
  obtain m route where p: "p = (m, route)" by (cases p)
  have max: "\<forall>r \<in> set routes. \<forall>n. rank e (fr_filter r) path host = Some n \<longrightarrow> n \<le> m"
    using best_route_spec [where e = e and path = path and host = host and best = None and routes = routes] Some p by simp
  obtain k where k: "k < length routes" "routes ! k = route" "rank e (fr_filter route) path host = Some m"
      "\<forall>j < k. \<forall>n. rank e (fr_filter (routes ! j)) path host = Some n \<longrightarrow> n < m"
    using best_route_spec [where e = e and path = path and host = host and best = None and routes = routes] Some p by auto
  have "list_all (\<lambda>r. case rank e (fr_filter r) path host of None \<Rightarrow> True | Some n \<Rightarrow> n \<le> m) routes"
    using max by (auto simp: list_all_iff split: option.splits)
  moreover have "list_all (\<lambda>r. case rank e (fr_filter r) path host of None \<Rightarrow> True | Some n \<Rightarrow> n < m) (take k routes)"
    using k(1,4) by (auto simp: list_all_length split: option.splits)
  moreover have "request_segments (normalize_path path) = rf_path (fr_filter route) @ filter_result (fr_filter route) path"
    using k(3) by (auto simp: rank_Some_iff filter_result_def)
  ultimately show ?thesis using Some p k by (auto simp: get_route_def)
qed

section \<open>Error pages\<close>

lemma find_override_page:
  "find (\<lambda>p. ep_status p = s) (override_page ps page) =
     (if ep_status page = s then Some page else find (\<lambda>p. ep_status p = s) ps)"
  by (induction ps page rule: override_page.induct) auto

text \<open>The page of a status: the last own page for it, or the page of the theme.\<close>

lemma resolve_error_pages_lookup:
  "find (\<lambda>p. ep_status p = s) (foldl override_page pages overrides) =
     (case find (\<lambda>p. ep_status p = s) (rev overrides) of
        Some p \<Rightarrow> Some p | None \<Rightarrow> find (\<lambda>p. ep_status p = s) pages)"
proof (induction overrides arbitrary: pages rule: rev_induct)
  case (snoc x xs)
  then show ?case by (simp add: find_override_page)
qed simp

end
