(* ===== verification/Http_Headers.thy ===== *)
theory Http_Headers
  imports Ip_Text "HOL-Library.Sublist"
begin

text \<open>
  HTTP header fields.  A \<open>HeaderMap\<close> is a multimap: the list of its fields with lower-case names.
  Which byte strings are text (\<open>HeaderValue::to_str\<close>) and which become values
  (\<open>HeaderValue::from_bytes\<close> and \<open>HeaderValue::from_str\<close>) is decided byte by byte by the \<open>http\<close>
  crate; the byte classes are the parameters of \<open>http_env\<close>.
\<close>

type_synonym headers = "(string \<times> string) list"

record http_env =
  hx_text_byte :: "char \<Rightarrow> bool"
  hx_value_byte :: "char \<Rightarrow> bool"
  hx_str_byte :: "char \<Rightarrow> bool"

definition get_all :: "headers \<Rightarrow> string \<Rightarrow> string list" where
  "get_all hs name = map snd (filter (\<lambda>h. fst h = name) hs)"

definition get :: "headers \<Rightarrow> string \<Rightarrow> string option" where
  "get hs name = (case get_all hs name of [] \<Rightarrow> None | v # _ \<Rightarrow> Some v)"

definition contains_key :: "headers \<Rightarrow> string \<Rightarrow> bool" where
  "contains_key hs name \<longleftrightarrow> get_all hs name \<noteq> []"

definition hremove :: "headers \<Rightarrow> string \<Rightarrow> headers" where
  "hremove hs name = filter (\<lambda>h. fst h \<noteq> name) hs"

definition happend :: "headers \<Rightarrow> string \<Rightarrow> string \<Rightarrow> headers" where
  "happend hs name v = hs @ [(name, v)]"

definition hinsert :: "headers \<Rightarrow> string \<Rightarrow> string \<Rightarrow> headers" where
  "hinsert hs name v = hremove hs name @ [(name, v)]"

definition to_str :: "http_env \<Rightarrow> string \<Rightarrow> string option" where
  "to_str h v = (if list_all (hx_text_byte h) v then Some v else None)"

definition header_value :: "http_env \<Rightarrow> string \<Rightarrow> string option" where
  "header_value h v = (if list_all (hx_value_byte h) v then Some v else None)"

definition header_from_str :: "http_env \<Rightarrow> string \<Rightarrow> string option" where
  "header_from_str h v = (if list_all (hx_str_byte h) v then Some v else None)"

lemma get_all_hremove [simp]: "get_all (hremove hs n) m = (if m = n then [] else get_all hs m)"
proof (cases "m = n")
  case True
  then show ?thesis by (simp add: get_all_def hremove_def)
next
  case False
  then have "(\<lambda>h. fst h \<noteq> n \<and> fst h = m) = (\<lambda>h. fst (h :: string \<times> string) = m)" by (auto simp: fun_eq_iff)
  then show ?thesis using False by (simp add: get_all_def hremove_def)
qed

lemma get_all_happend [simp]:
  "get_all (happend hs n v) m = (if m = n then get_all hs m @ [v] else get_all hs m)"
  by (simp add: get_all_def happend_def)

lemma get_all_hinsert [simp]: "get_all (hinsert hs n v) m = (if m = n then [v] else get_all hs m)"
  using get_all_happend [of "hremove hs n" n v m] by (simp add: hinsert_def happend_def)

lemma get_hinsert [simp]: "get (hinsert hs n v) m = (if m = n then Some v else get hs m)"
  by (simp add: get_def)

lemma get_hremove [simp]: "get (hremove hs n) m = (if m = n then None else get hs m)"
  by (simp add: get_def)

lemma get_all_foldl_happend:
  "get_all (foldl (\<lambda>hs v. happend hs n v) hs vs) m = (if m = n then get_all hs m @ vs else get_all hs m)"
  by (induction vs arbitrary: hs) auto

section \<open>Numbers\<close>

text \<open>\<open>str::parse::<u64>\<close>: decimal digits, an optional plus sign, no overflow.\<close>

definition parse_u64 :: "string \<Rightarrow> nat option" where
  "parse_u64 s =
     (let ds = (case s of c # cs \<Rightarrow> if c = CHR ''+'' then cs else s | [] \<Rightarrow> []) in
      if ds \<noteq> [] \<and> list_all (\<lambda>c. char_digit 10 c \<noteq> None) ds \<and> digits_value 10 ds \<le> u64_max
      then Some (digits_value 10 ds) else None)"

section \<open>UTF-8\<close>

text \<open>\<open>std::str::from_utf8\<close> accepts the well-formed byte sequences of the Unicode standard.\<close>

definition utf8_cont :: "char \<Rightarrow> bool" where
  "utf8_cont c \<longleftrightarrow> (let n = of_char c :: nat in 128 \<le> n \<and> n \<le> 191)"

definition utf8_in :: "char \<Rightarrow> nat \<Rightarrow> nat \<Rightarrow> bool" where
  "utf8_in c a b \<longleftrightarrow> (let n = of_char c :: nat in a \<le> n \<and> n \<le> b)"

fun utf8_valid :: "string \<Rightarrow> bool" where
  "utf8_valid [] = True"
| "utf8_valid (a # s) =
     (if utf8_in a 0 127 then utf8_valid s
      else case s of
        b # s1 \<Rightarrow>
          if utf8_in a 194 223 then utf8_cont b \<and> utf8_valid s1
          else (case s1 of
            c # s2 \<Rightarrow>
              if utf8_in a 224 224 then utf8_in b 160 191 \<and> utf8_cont c \<and> utf8_valid s2
              else if utf8_in a 225 236 \<or> utf8_in a 238 239 then utf8_cont b \<and> utf8_cont c \<and> utf8_valid s2
              else if utf8_in a 237 237 then utf8_in b 128 159 \<and> utf8_cont c \<and> utf8_valid s2
              else (case s2 of
                d # s3 \<Rightarrow>
                  if utf8_in a 240 240 then utf8_in b 144 191 \<and> utf8_cont c \<and> utf8_cont d \<and> utf8_valid s3
                  else if utf8_in a 241 243 then utf8_cont b \<and> utf8_cont c \<and> utf8_cont d \<and> utf8_valid s3
                  else if utf8_in a 244 244 then utf8_in b 128 143 \<and> utf8_cont c \<and> utf8_cont d \<and> utf8_valid s3
                  else False
              | [] \<Rightarrow> False)
          | [] \<Rightarrow> False)
      | [] \<Rightarrow> False)"

end
