(* ===== verification/Cookie.thy ===== *)
theory Cookie
  imports Http_Headers
begin

text \<open>
  The cookies of a request that only the proxy itself uses: \<open>proxy/http/cookie.rs\<close>.  The sticky
  session cookie and the session cookie of an authenticated client are read here and removed
  before the request goes to the upstream server.
\<close>

definition is_blank :: "char \<Rightarrow> bool" where
  "is_blank c \<longleftrightarrow> c = CHR '' '' \<or> c = CHR 0x09"

definition trim_ascii :: "string \<Rightarrow> string" where
  "trim_ascii bytes = trim_end_matches is_blank (trim_start_matches is_blank bytes)"

definition split_cookie_pair :: "string \<Rightarrow> (string \<times> string) option" where
  "split_cookie_pair pair =
     (let trimmed = trim_ascii pair in
      case position (\<lambda>b. b = CHR ''='') trimmed of
        None \<Rightarrow> None
      | Some eq_pos \<Rightarrow> Some (take eq_pos trimmed, drop (eq_pos + 1) trimmed))"

definition cookie_values :: "headers \<Rightarrow> string \<Rightarrow> string list" where
  "cookie_values hs name =
     filter utf8_valid
       (map snd (filter (\<lambda>p. fst p = name)
         (List.map_filter split_cookie_pair
           (concat (map (split_on CHR '';'') (get_all hs ''cookie''))))))"

definition join_cookie_parts :: "string list \<Rightarrow> string" where
  "join_cookie_parts parts = join_with ''; '' parts"

text \<open>The loop of \<open>without_cookie\<close> keeps the parts that are neither empty nor the cookie.\<close>

definition keeps_part :: "string \<Rightarrow> string \<Rightarrow> bool" where
  "keeps_part name trimmed \<longleftrightarrow> trimmed \<noteq> [] \<and>
     (case split_cookie_pair trimmed of None \<Rightarrow> True | Some (k, _) \<Rightarrow> k \<noteq> name)"

definition without_cookie :: "http_env \<Rightarrow> string \<Rightarrow> string \<Rightarrow> string option" where
  "without_cookie h value name =
     (let remaining = filter (keeps_part name) (map trim_ascii (split_on CHR '';'' value)) in
      if remaining = [] then None else header_value h (join_cookie_parts remaining))"

definition remove_cookie :: "http_env \<Rightarrow> headers \<Rightarrow> string \<Rightarrow> headers" where
  "remove_cookie h hs name =
     (let values = List.map_filter (\<lambda>v. without_cookie h v name) (get_all hs ''cookie'') in
      foldl (\<lambda>hs v. happend hs ''cookie'' v) (hremove hs ''cookie'') values)"

section \<open>Trimming\<close>

lemma trim_end_matches_snoc: "trim_end_matches P (s @ [c]) = (if P c then trim_end_matches P s else s @ [c])"
  by (simp add: trim_end_matches_def)

lemma last_dropWhile: "\<not> P c \<Longrightarrow> last (dropWhile P (xs @ [c])) = c"
  by (induction xs) auto

lemma dropWhile_trim_end:
  "dropWhile P (trim_end_matches P (dropWhile P s)) = trim_end_matches P (dropWhile P s)"
proof (cases "dropWhile P s")
  case Nil
  then show ?thesis by (simp only: Nil trim_end_matches_def) simp
next
  case (Cons c cs)
  then have c: "\<not> P c" using hd_dropWhile [of P s] by simp
  have "trim_end_matches P (c # cs) = [] \<or> hd (trim_end_matches P (c # cs)) = c"
  proof (cases "rev (c # cs)" rule: rev_cases)
    case (snoc ys y)
    then have "y = c" "rev cs = ys" by auto
    have "dropWhile P (rev cs @ [c]) \<noteq> []" using c by (simp add: dropWhile_eq_Nil_conv)
    moreover have "last (dropWhile P (rev cs @ [c])) = c" using c by (rule last_dropWhile)
    ultimately show ?thesis by (simp add: trim_end_matches_def hd_rev)
  qed simp
  then show ?thesis
    using c Cons by (cases "trim_end_matches P (c # cs)") auto
qed

lemma dropWhile_twice: "dropWhile P (dropWhile P s) = dropWhile P s"
  by (induction s) auto

lemma trim_end_idem: "trim_end_matches P (trim_end_matches P s) = trim_end_matches P s"
  by (simp add: trim_end_matches_def dropWhile_twice)

lemma trim_ascii_idem [simp]: "trim_ascii (trim_ascii s) = trim_ascii s"
  by (simp add: trim_ascii_def trim_start_matches_def dropWhile_trim_end trim_end_idem)

lemma trim_ascii_blank [simp]: "trim_ascii (CHR '' '' # s) = trim_ascii s"
  by (simp add: trim_ascii_def trim_start_matches_def is_blank_def)

lemma trim_ascii_subset: "set (trim_ascii s) \<subseteq> set s"
  by (auto simp: trim_ascii_def trim_start_matches_def trim_end_matches_def dest!: set_dropWhileD)

lemma split_cookie_pair_trim [simp]: "split_cookie_pair (trim_ascii s) = split_cookie_pair s"
  by (simp add: split_cookie_pair_def)

lemma split_cookie_pair_blank [simp]: "split_cookie_pair (CHR '' '' # s) = split_cookie_pair s"
  by (simp add: split_cookie_pair_def)

lemma split_cookie_pair_Nil [simp]: "split_cookie_pair [] = None"
  by (simp add: split_cookie_pair_def trim_ascii_def trim_start_matches_def trim_end_matches_def)

section \<open>Removing a cookie\<close>

text \<open>The name and value pairs of one \<open>Cookie\<close> header.\<close>

definition pairs_of :: "string \<Rightarrow> (string \<times> string) list" where
  "pairs_of value = List.map_filter split_cookie_pair (split_on CHR '';'' value)"

lemma map_filter_append: "List.map_filter f (xs @ ys) = List.map_filter f xs @ List.map_filter f ys"
  by (simp add: List.map_filter_def)

lemma map_filter_concat: "List.map_filter f (concat xss) = concat (map (List.map_filter f) xss)"
  by (induction xss) (simp_all add: map_filter_append)

lemma cookie_values_pairs:
  "cookie_values hs name =
     filter utf8_valid (map snd (filter (\<lambda>p. fst p = name) (concat (map pairs_of (get_all hs ''cookie'')))))"
proof -
  have "List.map_filter split_cookie_pair \<circ> split_on CHR '';'' = pairs_of"
    by (simp add: fun_eq_iff pairs_of_def)
  then show ?thesis unfolding cookie_values_def map_filter_concat by simp
qed

lemma split_on_Cons_neq: "x \<noteq> c \<Longrightarrow> split_on c (x # s) = (x # hd (split_on c s)) # tl (split_on c s)"
  by (cases "split_on c s") auto

lemma split_join_cookie:
  assumes "rs \<noteq> []" and "\<And>r. r \<in> set rs \<Longrightarrow> CHR '';'' \<notin> set r"
  shows "split_on CHR '';'' (join_cookie_parts rs) = hd rs # map (Cons (CHR '' '')) (tl rs)"
  using assms
proof (induction rs)
  case (Cons r rs)
  show ?case
  proof (cases rs)
    case Nil
    then show ?thesis using Cons.prems by (simp add: join_cookie_parts_def split_on_no_delim)
  next
    case (Cons s ss)
    have "split_on CHR '';'' (join_cookie_parts rs) = hd rs # map (Cons (CHR '' '')) (tl rs)"
      using Cons.IH Cons.prems Cons by simp
    then show ?thesis
      using Cons Cons.prems
      by (simp add: join_cookie_parts_def split_on_append_delim split_on_Cons_neq)
  qed
qed simp

lemma map_filter_blank: "List.map_filter split_cookie_pair (map (Cons (CHR '' '')) xs) = List.map_filter split_cookie_pair xs"
  by (induction xs) (simp_all add: List.map_filter_simps split: option.splits)

lemma pairs_of_join:
  assumes "rs \<noteq> []" and "\<And>r. r \<in> set rs \<Longrightarrow> CHR '';'' \<notin> set r"
  shows "pairs_of (join_cookie_parts rs) = List.map_filter split_cookie_pair rs"
proof -
  have "rs = hd rs # tl rs" using assms(1) by simp
  then have "List.map_filter split_cookie_pair rs = List.map_filter split_cookie_pair (hd rs # tl rs)" by simp
  also have "\<dots> = List.map_filter split_cookie_pair (hd rs # map (Cons (CHR '' '')) (tl rs))"
    by (simp add: List.map_filter_simps map_filter_blank split: option.splits)
  finally show ?thesis unfolding pairs_of_def by (simp add: split_join_cookie [OF assms])
qed

lemma pairs_of_kept:
  "List.map_filter split_cookie_pair (filter (keeps_part name) (map trim_ascii ps)) =
     filter (\<lambda>p. fst p \<noteq> name) (List.map_filter split_cookie_pair ps)"
proof (induction ps)
  case (Cons p ps)
  have empty: "trim_ascii p = [] \<Longrightarrow> split_cookie_pair p = None"
    using split_cookie_pair_trim [of p] by simp
  show ?case
    using Cons empty
    by (cases "split_cookie_pair p") (auto simp: List.map_filter_simps keeps_part_def split: prod.splits)
qed (simp add: List.map_filter_simps)

text \<open>The documented behaviour of \<open>HeaderValue\<close> that cookie removal relies on: the separator that it
  writes between two cookies is made of value bytes.\<close>

definition separators_ok :: "http_env \<Rightarrow> bool" where
  "separators_ok h \<longleftrightarrow> hx_value_byte h (CHR '';'') \<and> hx_value_byte h (CHR '' '')"

lemma join_cookie_value:
  "separators_ok h \<Longrightarrow> (\<And>r. r \<in> set rs \<Longrightarrow> list_all (hx_value_byte h) r) \<Longrightarrow>
     list_all (hx_value_byte h) (join_cookie_parts rs)"
  unfolding join_cookie_parts_def
  by (induction rs rule: induct_list012) (auto simp: separators_ok_def)

lemma split_on_subset: "p \<in> set (split_on c s) \<Longrightarrow> set p \<subseteq> set s"
  by (induction s arbitrary: p) (fastforce split: list.splits if_splits)+

lemma without_cookie_pairs:
  assumes "separators_ok h" and "list_all (hx_value_byte h) value"
  shows "(case without_cookie h value name of None \<Rightarrow> [] | Some v \<Rightarrow> pairs_of v) =
    filter (\<lambda>p. fst p \<noteq> name) (pairs_of value)"
proof -
  let ?rs = "filter (keeps_part name) (map trim_ascii (split_on CHR '';'' value))"
  have sub: "set r \<subseteq> set value \<and> CHR '';'' \<notin> set r" if r: "r \<in> set ?rs" for r
  proof -
    obtain p where p: "p \<in> set (split_on CHR '';'' value)" "r = trim_ascii p" using r by auto
    then show ?thesis using trim_ascii_subset [of p] split_on_subset [OF p(1)] split_on_pieces [OF p(1)] by auto
  qed
  then have ok: "list_all (hx_value_byte h) (join_cookie_parts ?rs)"
    using assms by (intro join_cookie_value) (auto simp: list_all_iff)
  have kept: "List.map_filter split_cookie_pair ?rs = filter (\<lambda>p. fst p \<noteq> name) (pairs_of value)"
    unfolding pairs_of_def by (rule pairs_of_kept)
  show ?thesis
  proof (cases "?rs = []")
    case True
    then show ?thesis using kept by (simp add: without_cookie_def List.map_filter_simps)
  next
    case False
    have "without_cookie h value name = Some (join_cookie_parts ?rs)"
      using ok False by (simp add: without_cookie_def header_value_def del: filter_empty_conv)
    then show ?thesis using pairs_of_join [OF False] sub kept by simp
  qed
qed

lemma get_all_remove_cookie:
  "get_all (remove_cookie h hs name) n =
     (if n = ''cookie'' then List.map_filter (\<lambda>v. without_cookie h v name) (get_all hs ''cookie'') else get_all hs n)"
  by (simp add: remove_cookie_def get_all_foldl_happend)

lemma concat_pairs_removed:
  assumes "separators_ok h" and "list_all (list_all (hx_value_byte h)) vs"
  shows "concat (map pairs_of (List.map_filter (\<lambda>v. without_cookie h v name) vs)) =
    filter (\<lambda>p. fst p \<noteq> name) (concat (map pairs_of vs))"
  using assms(2)
proof (induction vs)
  case (Cons v vs)
  then show ?case
    using without_cookie_pairs [OF assms(1), of v name]
    by (auto simp: List.map_filter_simps split: option.splits)
qed (simp add: List.map_filter_simps)

lemma cookie_values_remove_cookie:
  assumes "separators_ok h" and "list_all (list_all (hx_value_byte h)) (get_all hs ''cookie'')"
  shows "cookie_values (remove_cookie h hs name) other = (if other = name then [] else cookie_values hs other)"
proof -
  let ?ps = "concat (map pairs_of (get_all hs ''cookie''))"
  have "filter (\<lambda>p. fst p = other) (filter (\<lambda>p. fst p \<noteq> name) ps) =
      (if other = name then [] else filter (\<lambda>p. fst p = other) ps)" for ps :: "(string \<times> string) list"
    by (induction ps) auto
  from this [of ?ps] show ?thesis
    using concat_pairs_removed [OF assms, of name]
    by (simp add: cookie_values_pairs get_all_remove_cookie)
qed

text \<open>Whatever the bytes of a request are, no pair of the removed cookie and no new pair is left.\<close>

lemma without_cookie_Some_pairs:
  assumes "without_cookie h value name = Some v"
  shows "pairs_of v = filter (\<lambda>p. fst p \<noteq> name) (pairs_of value)"
proof -
  let ?rs = "filter (keeps_part name) (map trim_ascii (split_on CHR '';'' value))"
  have v: "v = join_cookie_parts ?rs" "?rs \<noteq> []"
    using assms by (auto simp: without_cookie_def header_value_def Let_def simp del: filter_empty_conv split: if_splits)
  have "CHR '';'' \<notin> set r" if r: "r \<in> set ?rs" for r
  proof -
    obtain p where p: "p \<in> set (split_on CHR '';'' value)" "r = trim_ascii p" using r by auto
    then show ?thesis using trim_ascii_subset [of p] split_on_pieces [OF p(1)] by auto
  qed
  then show ?thesis unfolding v(1) using pairs_of_join [OF v(2)] pairs_of_kept
    by (simp add: pairs_of_def)
qed

definition cookie_names :: "headers \<Rightarrow> string set" where
  "cookie_names hs = fst ` set (concat (map pairs_of (get_all hs ''cookie'')))"

lemma cookie_names_remove_cookie: "cookie_names (remove_cookie h hs name) \<subseteq> cookie_names hs - {name}"
proof
  fix n assume "n \<in> cookie_names (remove_cookie h hs name)"
  then obtain v v' p where p: "v \<in> set (get_all hs ''cookie'')" "without_cookie h v name = Some v'" "p \<in> set (pairs_of v')" "n = fst p"
    by (auto simp: cookie_names_def get_all_remove_cookie List.map_filter_def)
  then have "p \<in> set (pairs_of v)" "fst p \<noteq> name" using without_cookie_Some_pairs [OF p(2)] by auto
  then show "n \<in> cookie_names hs - {name}" using p(1,4) by (auto simp: cookie_names_def)
qed

lemma cookie_values_no_name: "name \<notin> cookie_names hs \<Longrightarrow> cookie_values hs name = []"
  by (force simp: cookie_names_def cookie_values_pairs filter_empty_conv)

text \<open>
  a cookie of the proxy itself is taken out of a request completely and alone.  After the
  removal the request has no value of that cookie, every other cookie has exactly its values in
  their order, and no other header changes.
\<close>

theorem remove_cookie_exact:
  assumes "separators_ok h" and "list_all (list_all (hx_value_byte h)) (get_all hs ''cookie'')"
  shows "cookie_values (remove_cookie h hs name) other = (if other = name then [] else cookie_values hs other) \<and>
    (n = ''cookie'' \<or> get_all (remove_cookie h hs name) n = get_all hs n)"
  using cookie_values_remove_cookie [OF assms, of name other] by (simp add: get_all_remove_cookie)

end
