(* ===== verification/Proxy_Error.thy ===== *)
theory Proxy_Error
  imports Http_Headers Ip_Text
begin

text \<open>
  The errors of the HTTP proxy (\<open>proxy/http/error.rs\<close>): the status that the client receives and the
  headers that the error response must carry.
\<close>

datatype proxy_error =
    DomainFrontingDetected
  | NoRouteFound
  | IpNotAllowed
  | ClientCertRequired
  | TooManyRequests duration
  | TooManyConcurrentRequests
  | Unauthorized string
  | AuthServiceUnavailable
  | UpstreamClientCertInvalid
  | UpstreamTimeout
  | NoUpstreamAvailable
  | NoUpstreamServers
  | PayloadTooLarge
  | UpstreamUriInvalid
  | BotBlocked

definition error_code :: "proxy_error \<Rightarrow> nat" where
  "error_code err = (case err of
      UpstreamTimeout \<Rightarrow> 504
    | NoUpstreamAvailable \<Rightarrow> 503
    | DomainFrontingDetected \<Rightarrow> 421
    | NoRouteFound \<Rightarrow> 502
    | IpNotAllowed \<Rightarrow> 403 | ClientCertRequired \<Rightarrow> 403 | BotBlocked \<Rightarrow> 403
    | PayloadTooLarge \<Rightarrow> 413
    | TooManyRequests _ \<Rightarrow> 429 | TooManyConcurrentRequests \<Rightarrow> 429
    | Unauthorized _ \<Rightarrow> 401
    | AuthServiceUnavailable \<Rightarrow> 502 | UpstreamClientCertInvalid \<Rightarrow> 502
    | NoUpstreamServers \<Rightarrow> 502 | UpstreamUriInvalid \<Rightarrow> 502)"

text \<open>\<open>Duration::as_secs\<close> and \<open>subsec_nanos\<close>: the seconds, rounded up, and at least one.\<close>

definition error_headers :: "proxy_error \<Rightarrow> headers" where
  "error_headers err = (case err of
      TooManyRequests retry_after \<Rightarrow>
        (let seconds = retry_after div 1000000000 + (if retry_after mod 1000000000 > 0 then 1 else 0)
         in hinsert [] ''retry-after'' (to_radix 10 (max seconds 1)))
    | TooManyConcurrentRequests \<Rightarrow> hinsert [] ''retry-after'' ''1''
    | Unauthorized challenge \<Rightarrow> hinsert [] ''www-authenticate'' challenge
    | _ \<Rightarrow> [])"

end
