(* ===== verification/Affinity.thy ===== *)
theory Affinity
  imports Cookie Proxy_Error Api_Error
begin

text \<open>
  Sticky sessions: \<open>proxy/http/affinity.rs\<close> and \<open>StickyCookie\<close> of \<open>r3v3rs3-api/src/upstream.rs\<close>.
  Every server of a route has a cookie value, the signature of its URL; a request whose cookie is
  the value of a server is pinned to that server.

  The signature (HMAC-SHA256 in base64url with the process key) is the parameter \<open>sign\<close>.
\<close>

record sticky_cookie =
  sc_enabled :: bool
  sc_name :: string
  sc_max_age :: "duration option"

definition is_ascii_graphic :: "char \<Rightarrow> bool" where
  "is_ascii_graphic c \<longleftrightarrow> (let n = of_char c :: nat in 33 \<le> n \<and> n \<le> 126)"

definition is_cookie_token :: "string \<Rightarrow> bool" where
  "is_cookie_token name \<longleftrightarrow> name \<noteq> [] \<and>
     list_all (\<lambda>c. is_ascii_graphic c \<and>
       c \<notin> set (''()<>@,;:'' @ [CHR 0x5C, CHR 0x22] @ ''/[]?={}'')) name"

definition sticky_cookie_validate :: "sticky_cookie \<Rightarrow> unit result" where
  "sticky_cookie_validate c =
     (if \<not> is_cookie_token (sc_name c) then Inl (InvalidStickyCookieName (sc_name c))
      else case sc_max_age c of None \<Rightarrow> Inr ()
      | Some a \<Rightarrow> if a = 0 then Inl InvalidTimeout else Inr ())"

record affinity =
  af_name :: string
  af_tokens :: "string list"
  af_cookies :: "(string \<times> string) list"

text \<open>\<open>collect::<Option<Vec<_>>>()\<close>.\<close>

fun collect_options :: "'a option list \<Rightarrow> 'a list option" where
  "collect_options [] = Some []"
| "collect_options (x # xs) = (case (x, collect_options xs) of (Some y, Some ys) \<Rightarrow> Some (y # ys) | _ \<Rightarrow> None)"

definition cookie_attributes :: "sticky_cookie \<Rightarrow> string \<Rightarrow> string" where
  "cookie_attributes config base_path =
     (let path = (if base_path = [] then ''/'' else base_path);
          max_age = (case sc_max_age config of None \<Rightarrow> []
            | Some a \<Rightarrow> ''; Max-Age='' @ to_radix 10 (a div 1000000000))
      in ''; Path='' @ path @ ''; HttpOnly; SameSite=Lax'' @ max_age)"

definition affinity_new ::
    "http_env \<Rightarrow> (string \<Rightarrow> string option) \<Rightarrow> sticky_cookie \<Rightarrow> string \<times> nat option \<Rightarrow> string list \<Rightarrow> string \<Rightarrow>
     affinity option" where
  "affinity_new h sign config key server_urls base_path =
     (let (proxy, route) = key;
          attributes = cookie_attributes config base_path;
          route_text = to_radix 10 (case route of None \<Rightarrow> 0 | Some r \<Rightarrow> r)
      in case collect_options (map (\<lambda>url. sign (proxy @ ''/'' @ route_text @ ''/'' @ url)) server_urls) of
           None \<Rightarrow> None
         | Some tokens \<Rightarrow>
             (case collect_options (map (\<lambda>token.
                  let cookie = sc_name config @ ''='' @ token @ attributes in
                  case (header_from_str h cookie, header_from_str h (cookie @ ''; Secure'')) of
                    (Some plain, Some secure) \<Rightarrow> Some (plain, secure)
                  | _ \<Rightarrow> None) tokens) of
                None \<Rightarrow> None
              | Some cookies \<Rightarrow> Some \<lparr>af_name = sc_name config, af_tokens = tokens, af_cookies = cookies\<rparr>))"

definition pinned :: "affinity \<Rightarrow> headers \<Rightarrow> nat option" where
  "pinned a hs = find_map (\<lambda>value. position (\<lambda>token. token = value) (af_tokens a)) (cookie_values hs (af_name a))"

definition affinity_strip :: "http_env \<Rightarrow> affinity \<Rightarrow> headers \<Rightarrow> headers" where
  "affinity_strip h a hs = remove_cookie h hs (af_name a)"

definition set_cookie :: "affinity \<Rightarrow> nat \<Rightarrow> bool \<Rightarrow> string option" where
  "set_cookie a i secure =
     map_option (\<lambda>(plain, with_secure). if secure then with_secure else plain) (nth_opt (af_cookies a) i)"

section \<open>The cookie comes back\<close>

lemma collect_options_Some:
  "collect_options xs = Some ys \<longleftrightarrow> xs = map Some ys"
proof (induction xs arbitrary: ys)
  case (Cons x xs)
  show ?case
  proof (cases "collect_options xs")
    case None
    then have "xs \<noteq> map Some zs" for zs using Cons.IH [of zs] by simp
    then show ?thesis using None by (auto split: option.splits)
  next
    case (Some zs)
    then have "xs = map Some zs" using Cons.IH by simp
    then show ?thesis using Some by (cases x) (auto simp: inj_map_eq_map)
  qed
qed auto

lemma affinity_new_fields:
  assumes "affinity_new h sign config key urls base_path = Some a"
  shows "af_name a = sc_name config \<and> length (af_tokens a) = length urls \<and>
    length (af_cookies a) = length urls \<and>
    (\<forall>i < length urls. \<exists>secure. af_cookies a ! i =
      (sc_name config @ ''='' @ af_tokens a ! i @ cookie_attributes config base_path, secure))"
proof -
  obtain tokens cookies where t: "map (\<lambda>url. sign (fst key @ ''/'' @
        to_radix 10 (case snd key of None \<Rightarrow> 0 | Some r \<Rightarrow> r) @ ''/'' @ url)) urls = map Some tokens"
    and c: "map (\<lambda>token. let cookie = sc_name config @ ''='' @ token @ cookie_attributes config base_path in
        case (header_from_str h cookie, header_from_str h (cookie @ ''; Secure'')) of
          (Some plain, Some secure) \<Rightarrow> Some (plain, secure) | _ \<Rightarrow> None) tokens = map Some cookies"
    and a: "a = \<lparr>af_name = sc_name config, af_tokens = tokens, af_cookies = cookies\<rparr>"
    using assms unfolding affinity_new_def Let_def
    by (auto simp: case_prod_unfold collect_options_Some split: option.splits)
  have lt: "length tokens = length urls" using arg_cong [OF t, of length] by simp
  have lc: "length cookies = length tokens" using arg_cong [OF c, of length] by simp
  have "\<exists>secure. cookies ! i = (sc_name config @ ''='' @ tokens ! i @ cookie_attributes config base_path, secure)"
    if i: "i < length tokens" for i
    using arg_cong [OF c, of "\<lambda>xs. xs ! i"] i lc
    by (auto simp: header_from_str_def Let_def split: if_splits dest: sym)
  then show ?thesis using a lt lc by auto
qed

text \<open>A text that a cookie can carry: nothing that ends or trims a pair.\<close>

definition cookie_safe :: "string \<Rightarrow> bool" where
  "cookie_safe s \<longleftrightarrow> list_all (\<lambda>c. is_ascii_graphic c \<and> c \<noteq> CHR '';'') s"

lemma graphic_not_blank: "is_ascii_graphic c \<Longrightarrow> \<not> is_blank c"
  by (auto simp: is_ascii_graphic_def is_blank_def Let_def)

lemma trim_ascii_safe: "cookie_safe s \<Longrightarrow> trim_ascii s = s"
proof -
  assume s: "cookie_safe s"
  then have nb: "\<not> is_blank c" if "c \<in> set s" for c
    using that graphic_not_blank by (auto simp: cookie_safe_def list_all_iff)
  have "dropWhile is_blank s = s" using nb by (cases s) auto
  moreover have "dropWhile is_blank (rev s) = rev s" using nb by (cases "rev s") (auto dest: arg_cong [where f = set])
  ultimately show ?thesis by (simp add: trim_ascii_def trim_start_matches_def trim_end_matches_def)
qed

lemma position_append: "c \<notin> set a \<Longrightarrow> position (\<lambda>b. b = c) (a @ c # s) = Some (length a)"
  by (induction a) auto

lemma utf8_graphic: "list_all is_ascii_graphic s \<Longrightarrow> utf8_valid s"
  by (induction s) (auto simp: is_ascii_graphic_def utf8_in_def Let_def)

lemma token_no_equals: "is_cookie_token name \<Longrightarrow> CHR ''='' \<notin> set name \<and> cookie_safe name"
  by (auto simp: is_cookie_token_def list_all_iff cookie_safe_def)

lemma position_distinct:
  "distinct xs \<Longrightarrow> i < length xs \<Longrightarrow> position (\<lambda>x. x = xs ! i) xs = Some i"
proof (induction xs arbitrary: i)
  case (Cons x xs)
  then show ?case by (cases i) auto
qed simp

lemma cookie_pair_value:
  assumes "is_cookie_token name" and "cookie_safe v"
  shows "cookie_values [(''cookie'', name @ ''='' @ v)] name = [v]"
proof -
  have n: "CHR ''='' \<notin> set name" "cookie_safe name" using token_no_equals [OF assms(1)] by auto
  have safe: "cookie_safe (name @ ''='' @ v)"
    using n(2) assms(2) by (simp add: cookie_safe_def is_ascii_graphic_def)
  have "CHR '';'' \<notin> set (name @ ''='' @ v)" using safe by (auto simp: cookie_safe_def list_all_iff)
  then have split: "split_on CHR '';'' (name @ ''='' @ v) = [name @ ''='' @ v]" by (rule split_on_no_delim)
  have "split_cookie_pair (name @ ''='' @ v) = Some (name, v)"
    using trim_ascii_safe [OF safe] position_append [OF n(1), of v] by (simp add: split_cookie_pair_def)
  moreover have "utf8_valid v" using assms(2) by (intro utf8_graphic) (auto simp: cookie_safe_def list_all_iff)
  ultimately show ?thesis
    using split by (simp add: cookie_values_def get_all_def List.map_filter_simps)
qed

text \<open>
  a sticky cookie pins the client to the server that set it.  When a client returns the cookie
  that a server of the route set, the request is pinned to exactly that server.  The signatures of
  the servers must differ and be printable, which HMAC-SHA256 in base64url guarantees up to
  collisions.
\<close>

theorem sticky_cookie_roundtrip:
  assumes "sticky_cookie_validate config = Inr ()"
    and "affinity_new h sign config key urls base_path = Some a"
    and "distinct (af_tokens a)" and "list_all cookie_safe (af_tokens a)" and "i < length urls"
  shows "\<exists>token. set_cookie a i False = Some (sc_name config @ ''='' @ token @ cookie_attributes config base_path) \<and>
    pinned a [(''cookie'', sc_name config @ ''='' @ token)] = Some i"
proof -
  have f: "af_name a = sc_name config" "length (af_tokens a) = length urls" "length (af_cookies a) = length urls"
    using affinity_new_fields [OF assms(2)] by auto
  obtain secure where c: "af_cookies a ! i =
      (sc_name config @ ''='' @ af_tokens a ! i @ cookie_attributes config base_path, secure)"
    using affinity_new_fields [OF assms(2)] assms(5) by blast
  have tok: "is_cookie_token (sc_name config)"
    using assms(1) by (auto simp: sticky_cookie_validate_def split: if_splits)
  have safe: "cookie_safe (af_tokens a ! i)" using assms(4,5) f(2) by (simp add: list_all_length)
  have "pinned a [(''cookie'', sc_name config @ ''='' @ af_tokens a ! i)] = Some i"
    using cookie_pair_value [OF tok safe] position_distinct [OF assms(3)] assms(5) f by (simp add: pinned_def)
  then show ?thesis using c f assms(5) by (auto simp: set_cookie_def)
qed

end
