(* ===== verification/Rewrite.thy ===== *)
theory Rewrite
  imports Api_Error
begin

text \<open>
  Path rewriting (\<open>proxy/http/rewrite.rs\<close>), redirect rules (\<open>proxy/http/redirect.rs\<close>) and fixed
  responses (\<open>proxy/http/fixed.rs\<close>), with their configuration in \<open>r3v3rs3-api\<close>.

  The \<open>regex\<close> crate is a parameter: \<open>replace\<close> replaces the first match, \<open>expand\<close> expands a template
  with the captures of the first match.  \<open>hv_ok\<close> says which texts are header values.
\<close>

record regex_env =
  rx_replace :: "string \<Rightarrow> string \<Rightarrow> string \<Rightarrow> string"
  rx_expand :: "string \<Rightarrow> string \<Rightarrow> string \<Rightarrow> string option"
  rx_ok :: "string \<Rightarrow> bool"
  hv_ok :: "string \<Rightarrow> bool"

section \<open>Path rewrite\<close>

record path_rewrite =
  pr_strip_prefix :: bool
  pr_regex :: "string option"
  pr_replacement :: string
  pr_add_prefix :: string

definition path_rewrite_default :: path_rewrite where
  "path_rewrite_default =
     \<lparr>pr_strip_prefix = True, pr_regex = None, pr_replacement = [], pr_add_prefix = []\<rparr>"

definition path_rewrite_validate :: "path_rewrite \<Rightarrow> unit result" where
  "path_rewrite_validate c =
     (let prefix = pr_add_prefix c in
      if prefix = [] \<or> (starts_with ''/'' prefix \<and> CHR ''?'' \<notin> set prefix \<and> CHR ''#'' \<notin> set prefix)
      then Inr () else Inl (InvalidPathPrefix prefix))"

record rewrite =
  rw_kept :: "string list"
  rw_regex :: "(string \<times> string) option"
  rw_prefix :: "string list"

definition path_segments :: "string \<Rightarrow> string list" where
  "path_segments path = filter (\<lambda>segment. segment \<noteq> []) (split_on CHR ''/'' path)"

definition rewrite_new :: "path_rewrite \<Rightarrow> string \<Rightarrow> rewrite" where
  "rewrite_new config route_path =
     \<lparr>rw_kept = (if pr_strip_prefix config then [] else path_segments route_path),
      rw_regex = map_option (\<lambda>regex. (regex, pr_replacement config)) (pr_regex config),
      rw_prefix = path_segments (pr_add_prefix config)\<rparr>"

definition join_path :: "string list \<Rightarrow> string" where
  "join_path segments = concat (map (\<lambda>segment. ''/'' @ segment) segments)"

definition split_path :: "string \<Rightarrow> string list" where
  "split_path path =
     (if path = [] then []
      else split_on CHR ''/'' (case strip_prefix ''/'' path of Some p \<Rightarrow> p | None \<Rightarrow> path))"

definition rewrite_apply :: "regex_env \<Rightarrow> rewrite \<Rightarrow> string list \<Rightarrow> string list" where
  "rewrite_apply e rw rest =
     (let segments = rw_kept rw @ rest;
          segments' = (case rw_regex rw of
              None \<Rightarrow> segments
            | Some (regex, replacement) \<Rightarrow>
                split_path (rx_replace e regex (join_path segments) replacement))
      in rw_prefix rw @ segments')"

section \<open>Redirects\<close>

datatype redirect_status = MovedPermanently | Found | TemporaryRedirect | PermanentRedirect

definition redirect_code :: "redirect_status \<Rightarrow> nat" where
  "redirect_code s = (case s of
      MovedPermanently \<Rightarrow> 301 | Found \<Rightarrow> 302 | TemporaryRedirect \<Rightarrow> 307 | PermanentRedirect \<Rightarrow> 308)"

definition redirect_try_from :: "nat \<Rightarrow> redirect_status result" where
  "redirect_try_from code =
     (case find (\<lambda>s. redirect_code s = code) [MovedPermanently, Found, TemporaryRedirect, PermanentRedirect] of
        None \<Rightarrow> Inl (InvalidRedirectStatus code)
      | Some s \<Rightarrow> Inr s)"

text \<open>\<open>char::is_control\<close> on ASCII; the other control characters U+0080 to U+009F are two bytes that
  start with \<open>0xC2\<close> in UTF-8.\<close>

fun has_control :: "string \<Rightarrow> bool" where
  "has_control [] = False"
| "has_control (c # cs) =
     (let n = of_char c :: nat in
      n < 32 \<or> n = 127 \<or>
      (n = 194 \<and> (case cs of [] \<Rightarrow> False | d # _ \<Rightarrow> (128 :: nat) \<le> of_char d \<and> (of_char d :: nat) \<le> 159)) \<or>
      has_control cs)"

definition validate_target :: "string \<Rightarrow> unit result" where
  "validate_target target =
     (if target = [] \<or> starts_with ''//'' target \<or> starts_with [CHR ''/'', CHR 0x5C] target \<or> has_control target
      then Inl (InvalidRedirectTarget target) else Inr ())"

record redirect_rule =
  rr_regex :: string
  rr_target :: string
  rr_status :: redirect_status

definition rule_location :: "regex_env \<Rightarrow> redirect_rule \<Rightarrow> string \<Rightarrow> string option" where
  "rule_location e rule subject = rx_expand e (rr_regex rule) subject (rr_target rule)"

text \<open>A redirect is its status and its \<open>Location\<close>.\<close>

definition redirect_response_of ::
    "regex_env \<Rightarrow> redirect_rule list \<Rightarrow> string option \<Rightarrow> string option \<Rightarrow> (nat \<times> string) option" where
  "redirect_response_of e rules host path_and_query =
     (if rules = [] then None
      else let path = (case path_and_query of None \<Rightarrow> ''/'' | Some p \<Rightarrow> p);
               subject = (case host of None \<Rightarrow> [] | Some h \<Rightarrow> h) @ path
        in find_map (\<lambda>rule. case rule_location e rule subject of
               None \<Rightarrow> None
             | Some location \<Rightarrow>
                 if hv_ok e location then Some (redirect_code (rr_status rule), location) else None) rules)"

section \<open>Fixed responses\<close>

record fixed_redirect =
  fd_target :: string
  fd_status :: redirect_status
  fd_preserve_path :: bool

record fixed_status =
  fs_status :: nat
  fs_body :: string

datatype fixed_response = FixedRedirect fixed_redirect | FixedStatus fixed_status

text \<open>A response as far as a fixed response sets it: status, \<open>Location\<close>, \<open>Content-Type\<close>, body.\<close>

record fixed_answer =
  fa_status :: nat
  fa_location :: "string option"
  fa_content_type :: "string option"
  fa_body :: string

definition sanitize_preserve_path :: "string \<Rightarrow> string" where
  "sanitize_preserve_path path = trim_start_matches (\<lambda>c. c = CHR ''/'' \<or> c = CHR 0x5C) path"

definition build_preserved_location :: "string \<Rightarrow> string \<Rightarrow> string" where
  "build_preserved_location target raw_path =
     (let suffix = sanitize_preserve_path raw_path;
          target = trim_end_matches (\<lambda>c. c = CHR ''/'') target
      in if suffix = [] then (if target = [] then ''/'' else target @ ''/'')
         else if target = [] then ''/'' @ suffix
         else target @ ''/'' @ suffix)"

text \<open>\<open>StatusCode::from_u16\<close> accepts 100 to 999.\<close>

definition status_code :: "nat \<Rightarrow> nat" where
  "status_code code = (if 100 \<le> code \<and> code \<le> 999 then code else 500)"

definition fixed_redirect_response :: "regex_env \<Rightarrow> fixed_redirect \<Rightarrow> string option \<Rightarrow> fixed_answer" where
  "fixed_redirect_response e redirect path_and_query =
     (let location = (if fd_preserve_path redirect
            then build_preserved_location (fd_target redirect)
                   (case path_and_query of None \<Rightarrow> ''/'' | Some p \<Rightarrow> p)
            else fd_target redirect)
      in if \<not> hv_ok e location
         then \<lparr>fa_status = 500, fa_location = None, fa_content_type = None, fa_body = []\<rparr>
         else \<lparr>fa_status = status_code (redirect_code (fd_status redirect)), fa_location = Some location,
               fa_content_type = None, fa_body = []\<rparr>)"

definition fixed_status_response :: "fixed_status \<Rightarrow> fixed_answer" where
  "fixed_status_response fixed =
     \<lparr>fa_status = status_code (fs_status fixed), fa_location = None,
      fa_content_type = (if fs_body fixed \<noteq> [] then Some ''text/plain; charset=utf-8'' else None),
      fa_body = fs_body fixed\<rparr>"

definition fixed_respond :: "regex_env \<Rightarrow> fixed_response \<Rightarrow> string option \<Rightarrow> fixed_answer" where
  "fixed_respond e fixed path_and_query =
     (case fixed of
        FixedRedirect r \<Rightarrow> fixed_redirect_response e r path_and_query
      | FixedStatus s \<Rightarrow> fixed_status_response s)"

section \<open>Rewriting\<close>

lemma join_path_Cons: "join_path (s # ss) = ''/'' @ s @ join_path ss"
  by (simp add: join_path_def)

lemma join_path_join_with: "ss \<noteq> [] \<Longrightarrow> join_path ss = ''/'' @ join_with ''/'' ss"
proof (induction ss)
  case (Cons s ss)
  then show ?case by (cases ss) (simp_all add: join_path_def)
qed simp

text \<open>\<open>split\<close> reads what \<open>join\<close> wrote.\<close>

lemma split_join_path:
  assumes "\<And>s. s \<in> set ss \<Longrightarrow> CHR ''/'' \<notin> set s"
  shows "split_path (join_path ss) = ss"
proof (cases "ss = []")
  case True
  then show ?thesis by (simp add: join_path_def split_path_def)
next
  case False
  then show ?thesis
    using assms by (simp add: join_path_join_with split_path_def split_join_with)
qed

text \<open>
  a rewrite changes the path only as configured.  The upstream path is the configured prefix,
  then the route path unless it is stripped, then the rest of the request path; and a regular
  expression that leaves the joined path as it is leaves the segments as they are, empty segments
  and trailing slashes included.
\<close>

theorem rewrite_without_match_keeps_segments:
  assumes "list_all (\<lambda>s. CHR ''/'' \<notin> set s) rest"
    and "\<forall>regex. pr_regex config = Some regex \<longrightarrow> rx_replace e regex
        (join_path ((if pr_strip_prefix config then [] else path_segments route_path) @ rest)) (pr_replacement config) =
        join_path ((if pr_strip_prefix config then [] else path_segments route_path) @ rest)"
  shows "rewrite_apply e (rewrite_new config route_path) rest =
    path_segments (pr_add_prefix config) @
    (if pr_strip_prefix config then [] else path_segments route_path) @ rest"
proof -
  let ?segs = "(if pr_strip_prefix config then [] else path_segments route_path) @ rest"
  have "CHR ''/'' \<notin> set s" if "s \<in> set ?segs" for s
    using that assms(1) by (auto simp: path_segments_def list_all_iff dest: split_on_pieces split: if_splits)
  then have split: "split_path (join_path ?segs) = ?segs" by (rule split_join_path)
  show ?thesis
  proof (cases "pr_regex config")
    case (Some regex)
    then show ?thesis using split assms(2) by (simp add: rewrite_apply_def rewrite_new_def)
  qed (simp add: rewrite_apply_def rewrite_new_def)
qed

section \<open>Redirect targets\<close>

lemma sanitize_no_slash:
  assumes "sanitize_preserve_path p \<noteq> []"
  shows "hd (sanitize_preserve_path p) \<noteq> CHR ''/'' \<and> hd (sanitize_preserve_path p) \<noteq> CHR 0x5C"
  using hd_dropWhile [OF assms [unfolded sanitize_preserve_path_def trim_start_matches_def]]
  by (simp add: sanitize_preserve_path_def trim_start_matches_def)

lemma trim_end_slash_prefix: "\<exists>n. target = trim_end_matches (\<lambda>c. c = CHR ''/'') target @ replicate n (CHR ''/'')"
proof -
  have "takeWhile (\<lambda>c. c = CHR ''/'') (rev target) =
      replicate (length (takeWhile (\<lambda>c. c = CHR ''/'') (rev target))) (CHR ''/'')"
    by (intro replicate_eqI) (auto dest: set_takeWhileD)
  moreover have "target = rev (dropWhile (\<lambda>c. c = CHR ''/'') (rev target)) @ rev (takeWhile (\<lambda>c. c = CHR ''/'') (rev target))"
    by (metis rev_append rev_rev_ident takeWhile_dropWhile_id)
  ultimately show ?thesis unfolding trim_end_matches_def by (metis rev_replicate)
qed

text \<open>
  a redirect that keeps the request path is no open redirect.  If the configured target passes
  validation, the built location never starts with \<open>//\<close> or \<open>/\<close> and a backslash, whatever the
  request path is, so a redirect to a path of the same site cannot be turned into a redirect to
  another host.
\<close>

theorem preserved_location_not_protocol_relative:
  assumes "validate_target target = Inr ()"
  shows "\<not> starts_with ''//'' (build_preserved_location target raw_path) \<and>
    \<not> starts_with [CHR ''/'', CHR 0x5C] (build_preserved_location target raw_path)"
proof -
  let ?t = "trim_end_matches (\<lambda>c. c = CHR ''/'') target"
  let ?s = "sanitize_preserve_path raw_path"
  have v: "\<not> starts_with ''//'' target" "\<not> starts_with [CHR ''/'', CHR 0x5C] target"
    using assms by (auto simp: validate_target_def split: if_splits)
  obtain n where n: "target = ?t @ replicate n (CHR ''/'')" using trim_end_slash_prefix by blast
  have s: "?s \<noteq> [] \<Longrightarrow> hd ?s \<noteq> CHR ''/'' \<and> hd ?s \<noteq> CHR 0x5C" using sanitize_no_slash by blast
  show ?thesis
  proof (cases ?t)
    case Nil
    then show ?thesis
      using s by (cases ?s) (auto simp: build_preserved_location_def Let_def starts_with_def)
  next
    case (Cons a as)
    have last: "last ?t \<noteq> CHR ''/''"
    proof -
      have "dropWhile (\<lambda>c. c = CHR ''/'') (rev target) \<noteq> []" using Cons by (auto simp: trim_end_matches_def)
      from hd_dropWhile [OF this] show ?thesis by (simp add: trim_end_matches_def last_rev)
    qed
    show ?thesis
    proof (cases as)
      case Nil
      then have "a \<noteq> CHR ''/''" using Cons last by simp
      then show ?thesis
        using Cons Nil by (auto simp: build_preserved_location_def Let_def starts_with_def)
    next
      case as: (Cons b bs)
      have "target = a # b # bs @ replicate n (CHR ''/'')" using n Cons as by simp
      then have "\<not> (a = CHR ''/'' \<and> (b = CHR ''/'' \<or> b = CHR 0x5C))"
        using v by (auto simp: starts_with_def)
      then show ?thesis
        using Cons as by (auto simp: build_preserved_location_def Let_def starts_with_def)
    qed
  qed
qed

end
