(* ===== verification/Pool.thy ===== *)
theory Pool
  imports Group_Run Affinity Rewrite Request_Filter "HOL-Library.Code_Target_Nat"
begin

text \<open>
  The upstream side of an HTTP route: \<open>proxy/http/pool.rs\<close>.  \<open>select\<close> orders the servers for a request,
  \<open>send_with_retries\<close> sends it and tries the next server after a failure that the retry policy
  names.

  The network is the parameter \<open>pl_send\<close>: the result of sending a request at an attempt.  While an
  attempt waits, other requests use the same group; \<open>pl_between\<close> is whatever they do to it.  The
  \<open>url\<close> and \<open>http\<close> crates are the parameter \<open>pl_uri\<close>: the URI of a server with its path and query
  replaced, or nothing when that is not a valid URI.  Log messages are left out.
\<close>

section \<open>Configuration\<close>

datatype retry_on = RetryConnect | RetryTimeout | RetryHttp502 | RetryHttp503 | RetryHttp504

record retry_policy =
  rp_attempts :: nat
  rp_retry_on :: "retry_on list"
  rp_replay_body_limit :: nat

definition retry_policy_default :: retry_policy where
  "retry_policy_default = \<lparr>rp_attempts = 2, rp_retry_on = [RetryConnect], rp_replay_body_limit = 0\<rparr>"

definition retry_policy_validate :: "retry_policy \<Rightarrow> unit result" where
  "retry_policy_validate p = (if 1 \<le> rp_attempts p \<and> rp_attempts p \<le> 10 then Inr () else Inl InvalidRetryAttempts)"

section \<open>Requests and servers\<close>

text \<open>The URL of a server as text, and its path.\<close>

record server =
  sv_url :: string
  sv_path :: string

record uri =
  uri_text :: string
  uri_authority :: "string option"

record up_request =
  uq_method :: string
  uq_uri :: uri
  uq_query :: "string option"
  uq_headers :: headers
  uq_body_size :: "nat option"

record send_error =
  se_error :: "proxy_error option"
  se_text :: string
  se_connect :: bool

text \<open>A response is its status and its \<open>Content-Length\<close> header.\<close>

datatype send_result = SendOk nat "string option" | SendErr send_error

definition send_error_other :: "proxy_error \<Rightarrow> send_error" where
  "send_error_other err = \<lparr>se_error = Some err, se_text = [], se_connect = False\<rparr>"

type_synonym upstream_state = "upstream_group \<times> store"

record pool_env =
  pl_balancer :: balancer_env
  pl_http :: http_env
  pl_regex :: regex_env
  pl_uri :: "server \<Rightarrow> string \<Rightarrow> string option \<Rightarrow> uri option"
  pl_send :: "nat \<Rightarrow> up_request \<Rightarrow> send_result"
  pl_body_read :: "up_request \<Rightarrow> bool"
  pl_between :: "nat \<Rightarrow> upstream_state \<Rightarrow> upstream_state"
  pl_claimed :: "nat \<Rightarrow> instant"
  pl_answered :: "nat \<Rightarrow> instant"
  pl_status_text :: "nat \<Rightarrow> string"

record upstream =
  up_servers :: "server list"
  up_retry :: retry_policy
  up_affinity :: "affinity option"
  up_rewrite :: rewrite

record sticky_target =
  sk_pinned :: "nat option"
  sk_secure :: bool

record upstream_target =
  tg_candidates :: "nat list"
  tg_path_segments :: "string list"
  tg_query :: "string option"
  tg_sticky :: "sticky_target option"

section \<open>The URI of a server\<close>

definition is_dot_segment :: "string \<Rightarrow> bool" where
  "is_dot_segment segment \<longleftrightarrow>
     to_ascii_lowercase segment \<in> {''.'', ''..'', ''%2e'', ''.%2e'', ''%2e.'', ''%2e%2e''}"

definition upstream_path :: "server \<Rightarrow> string list \<Rightarrow> string" where
  "upstream_path s segments =
     (if segments = [] then sv_path s
      else trim_end_matches (\<lambda>c. c = CHR ''/'') (sv_path s) @ ''/'' @
        join_with ''/'' (filter (\<lambda>segment. \<not> is_dot_segment segment) segments))"

definition upstream_uri :: "pool_env \<Rightarrow> server \<Rightarrow> string list \<Rightarrow> string option \<Rightarrow> proxy_error + uri" where
  "upstream_uri e s segments query =
     (case pl_uri e s (upstream_path s segments) query of
        None \<Rightarrow> Inl UpstreamUriInvalid
      | Some u \<Rightarrow> Inr u)"

definition apply_server ::
    "pool_env \<Rightarrow> upstream \<Rightarrow> up_request \<Rightarrow> nat \<Rightarrow> upstream_target \<Rightarrow> proxy_error + up_request" where
  "apply_server e up req i tg =
     (case nth_opt (up_servers up) i of
        None \<Rightarrow> Inl NoUpstreamServers
      | Some s \<Rightarrow>
          (case upstream_uri e s (tg_path_segments tg) (tg_query tg) of
             Inl err \<Rightarrow> Inl err
           | Inr u \<Rightarrow>
               let headers = (case uri_authority u of
                     None \<Rightarrow> uq_headers req
                   | Some host \<Rightarrow> (case header_from_str (pl_http e) host of
                         None \<Rightarrow> uq_headers req
                       | Some v \<Rightarrow> hinsert (uq_headers req) ''host'' v))
               in Inr (req\<lparr>uq_uri := u, uq_headers := headers\<rparr>)))"

section \<open>Selecting a server\<close>

definition pin ::
    "pool_env \<Rightarrow> upstream_group \<Rightarrow> affinity \<Rightarrow> up_request \<Rightarrow> nat list \<Rightarrow> bool \<Rightarrow> instant \<Rightarrow>
     sticky_target \<times> up_request \<times> nat list" where
  "pin e g a req cands secure now =
     (let pinned_to = (case pinned a (uq_headers req) of None \<Rightarrow> None
            | Some i \<Rightarrow> if is_pinnable g i now then Some i else None);
          req' = req\<lparr>uq_headers := affinity_strip (pl_http e) a (uq_headers req)\<rparr>;
          cands' = (case pinned_to of None \<Rightarrow> cands
            | Some i \<Rightarrow> i # filter (\<lambda>c. c \<noteq> i) cands)
      in (\<lparr>sk_pinned = pinned_to, sk_secure = secure\<rparr>, req', cands'))"

definition select ::
    "pool_env \<Rightarrow> upstream \<Rightarrow> upstream_state \<Rightarrow> up_request \<Rightarrow> string list \<Rightarrow> ip_addr \<Rightarrow> bool \<Rightarrow> instant \<Rightarrow>
     (proxy_error + upstream_target option \<times> up_request) \<times> upstream_state" where
  "select e up us req segments client secure now =
     (if up_servers up = [] then (Inr (None, req), us)
      else
        let (g, st) = us;
            (cs, g1) = candidates (pl_balancer e) g st client now;
            (sticky, req1, cs1) = (case up_affinity up of
                None \<Rightarrow> (None, req, cs)
              | Some a \<Rightarrow> (let (sk, req', cs') = pin e g1 a req cs secure now in (Some sk, req', cs')));
            tg = \<lparr>tg_candidates = cs1,
                  tg_path_segments = rewrite_apply (pl_regex e) (up_rewrite up) segments,
                  tg_query = uq_query req1,
                  tg_sticky = sticky\<rparr>
        in case cs1 of
             [] \<Rightarrow> (Inr (Some tg, req1), (g1, st))
           | first # _ \<Rightarrow>
               (case apply_server e up req1 first tg of
                  Inl err \<Rightarrow> (Inl err, (g1, st))
                | Inr req2 \<Rightarrow> (Inr (Some tg, req2), (g1, st))))"

section \<open>The copies of a request\<close>

record replay =
  ry_first :: "up_request option"
  ry_copy :: "up_request option"
  ry_method :: string

definition body_length :: "http_env \<Rightarrow> up_request \<Rightarrow> nat option" where
  "body_length h req =
     (case uq_body_size req of
        Some n \<Rightarrow> Some n
      | None \<Rightarrow> (case get (uq_headers req) ''content-length'' of
          None \<Rightarrow> None
        | Some v \<Rightarrow> (case to_str h v of None \<Rightarrow> None | Some t \<Rightarrow> parse_u64 t)))"

definition replay_prepare :: "pool_env \<Rightarrow> up_request \<Rightarrow> nat \<Rightarrow> send_error + replay" where
  "replay_prepare e req limit =
     (let length_ok = (case body_length (pl_http e) req of None \<Rightarrow> False | Some n \<Rightarrow> n \<le> limit) in
      if contains_key (uq_headers req) ''upgrade'' \<or> \<not> length_ok
      then Inr \<lparr>ry_first = Some req, ry_copy = None, ry_method = uq_method req\<rparr>
      else if uq_body_size req = Some 0
      then Inr \<lparr>ry_first = Some req, ry_copy = Some req, ry_method = uq_method req\<rparr>
      else if \<not> pl_body_read e req
      then Inl \<lparr>se_error = None, se_text = ''the request body cannot be read'', se_connect = False\<rparr>
      else Inr \<lparr>ry_first = Some req, ry_copy = Some req, ry_method = uq_method req\<rparr>)"

definition replay_next :: "replay \<Rightarrow> up_request option \<times> replay" where
  "replay_next r =
     (case ry_first r of
        Some req \<Rightarrow> (Some req, r\<lparr>ry_first := None\<rparr>)
      | None \<Rightarrow> (ry_copy r, r))"

section \<open>Sending\<close>

definition is_idempotent :: "string \<Rightarrow> bool" where
  "is_idempotent method \<longleftrightarrow>
     method \<in> {''GET'', ''HEAD'', ''OPTIONS'', ''TRACE'', ''PUT'', ''DELETE''}"

definition is_gateway_error :: "nat \<Rightarrow> bool" where
  "is_gateway_error status \<longleftrightarrow> status \<in> {502, 503, 504}"

definition retry_reason :: "send_result \<Rightarrow> retry_on option" where
  "retry_reason r = (case r of
      SendErr err \<Rightarrow>
        if se_connect err then Some RetryConnect
        else if se_error err = Some UpstreamTimeout then Some RetryTimeout
        else None
    | SendOk status _ \<Rightarrow>
        if status = 502 then Some RetryHttp502
        else if status = 503 then Some RetryHttp503
        else if status = 504 then Some RetryHttp504
        else None)"

definition should_retry :: "retry_policy \<Rightarrow> send_result \<Rightarrow> string \<Rightarrow> bool" where
  "should_retry policy r method =
     (case retry_reason r of
        None \<Rightarrow> False
      | Some reason \<Rightarrow> reason \<in> set (rp_retry_on policy) \<and> (reason = RetryConnect \<or> is_idempotent method))"

text \<open>\<open>candidates.find_map(|index| self.group.acquire(index))\<close>: the rest of the iterator stays for the
  next attempt.\<close>

fun claim_next ::
    "nat list \<Rightarrow> instant \<Rightarrow> upstream_state \<Rightarrow> permit option \<times> nat list \<times> upstream_state" where
  "claim_next [] now us = (None, [], us)"
| "claim_next (i # is) now (g, st) =
     (case acquire g st i now of
        (Some p, g', st') \<Rightarrow> (Some p, is, (g', st'))
      | (None, g', st') \<Rightarrow> claim_next is now (g', st'))"

definition record_response_permit ::
    "pool_env \<Rightarrow> send_result \<Rightarrow> permit \<Rightarrow> instant \<Rightarrow> upstream_state \<Rightarrow> conn_guard option \<times> upstream_state" where
  "record_response_permit e r p now us =
     (let (g, st) = us;
          st1 = (case r of
              SendOk _ (Some cl) \<Rightarrow>
                (case parse_u64 (case to_str (pl_http e) cl of None \<Rightarrow> [] | Some t \<Rightarrow> t) of
                   None \<Rightarrow> st
                 | Some bytes \<Rightarrow> permit_record_bytes p (word_of_nat bytes) st)
            | _ \<Rightarrow> st)
      in case r of
           SendOk status _ \<Rightarrow>
             if is_gateway_error status
             then (None, permit_error_response p (''the server answered '' @ pl_status_text e status) now (g, st1))
             else (let (guard, us') = permit_success_keep p now (g, st1) in (Some guard, us'))
         | SendErr err \<Rightarrow> (None, permit_failure p (se_text err) now (g, st1)))"

definition remember :: "upstream \<Rightarrow> upstream_target \<Rightarrow> nat \<Rightarrow> string option \<Rightarrow> string option" where
  "remember up tg i slot =
     (case (up_affinity up, tg_sticky tg) of
        (Some a, Some sk) \<Rightarrow> if sk_pinned sk = Some i then None else set_cookie a i (sk_secure sk)
      | _ \<Rightarrow> slot)"

text \<open>What a run of the loop leaves: the result, the attempts with their server, request and result,
  the cookie slot, the guard of the response, and the group.\<close>

record retry_run =
  rn_result :: send_result
  rn_trace :: "(nat \<times> up_request \<times> send_result) list"
  rn_cookie :: "string option"
  rn_guard :: "conn_guard option"
  rn_state :: upstream_state

fun retry_loop ::
    "pool_env \<Rightarrow> upstream \<Rightarrow> upstream_target \<Rightarrow> nat \<Rightarrow> nat \<Rightarrow> replay \<Rightarrow> nat list \<Rightarrow> retry_run \<Rightarrow> retry_run" where
  "retry_loop e up tg 0 attempt ry cs run = run"
| "retry_loop e up tg (Suc n) attempt ry cs run =
     (case replay_next ry of
        (None, _) \<Rightarrow> run
      | (Some req, ry') \<Rightarrow>
          (case claim_next cs (pl_claimed e attempt) (rn_state run) of
             (None, _, us) \<Rightarrow> run\<lparr>rn_state := us\<rparr>
           | (Some p, cs', us) \<Rightarrow>
               (case (if take 1 (tg_candidates tg) \<noteq> [pm_index p]
                      then apply_server e up req (pm_index p) tg else Inr req) of
                  Inl err \<Rightarrow> run\<lparr>rn_result := SendErr (send_error_other err), rn_state := permit_drop p us\<rparr>
                | Inr req' \<Rightarrow>
                    let r = pl_send e attempt req';
                        (guard, us') = record_response_permit e r p (pl_answered e attempt) (pl_between e attempt us);
                        cookie = (case r of SendOk _ _ \<Rightarrow> remember up tg (pm_index p) (rn_cookie run) | SendErr _ \<Rightarrow> rn_cookie run);
                        run' = \<lparr>rn_result = r, rn_trace = rn_trace run @ [(pm_index p, req', r)],
                                rn_cookie = cookie, rn_guard = guard, rn_state = us'\<rparr>
                    in if should_retry (up_retry up) r (ry_method ry)
                       then retry_loop e up tg n (Suc attempt) ry' cs' run' else run')))"

definition send_with_retries ::
    "pool_env \<Rightarrow> upstream \<Rightarrow> replay \<Rightarrow> upstream_target \<Rightarrow> upstream_state \<Rightarrow> retry_run" where
  "send_with_retries e up ry tg us =
     retry_loop e up tg (max (rp_attempts (up_retry up)) 1) 1 ry (tg_candidates tg)
       \<lparr>rn_result = SendErr (send_error_other NoUpstreamAvailable), rn_trace = [], rn_cookie = None,
        rn_guard = None, rn_state = us\<rparr>"

section \<open>Which servers are tried\<close>

lemma claim_next_Some:
  assumes "claim_next cs now us = (Some p, cs', us')"
  shows "\<exists>pre. cs = pre @ pm_index p # cs'"
  using assms
proof (induction cs now us rule: claim_next.induct)
  case (2 i js now g st)
  obtain r g1 st1 where a: "acquire g st i now = (r, g1, st1)" by (cases "acquire g st i now")
  show ?case
  proof (cases r)
    case None
    then obtain pre where "js = pre @ pm_index p # cs'" using 2 a by (metis (no_types, lifting) case_prod_conv claim_next.simps(2) option.case(1))
    then show ?thesis by (intro exI [of _ "i # pre"]) simp
  next
    case (Some q)
    then have "q = p" "cs' = js" using 2 a by auto
    moreover have "pm_index q = i" using acquire_Some_cases a Some by blast
    ultimately show ?thesis by (intro exI [of _ "[]"]) simp
  qed
qed simp

lemma replay_next_Some:
  "replay_next ry = (Some req, ry') \<Longrightarrow>
     (ry_first ry = Some req \<or> ry_first ry = None \<and> ry_copy ry = Some req) \<and>
     ry_first ry' = None \<and> ry_copy ry' = ry_copy ry \<and> ry_method ry' = ry_method ry"
  by (auto simp: replay_next_def split: option.splits)

text \<open>A result that no server gave: the URI of the next server cannot be built.\<close>

definition target_error :: "pool_env \<Rightarrow> upstream \<Rightarrow> upstream_target \<Rightarrow> replay \<Rightarrow> send_result \<Rightarrow> bool" where
  "target_error e up tg ry r \<longleftrightarrow>
     (\<exists>req i err. (ry_first ry = Some req \<or> ry_copy ry = Some req) \<and>
        apply_server e up req i tg = Inl err \<and> r = SendErr (send_error_other err))"

text \<open>One attempt of the loop, and what follows it.\<close>

lemma retry_loop_step:
  obtains (stop) us r where "retry_loop e up tg (Suc n) k ry cs run = run\<lparr>rn_result := r, rn_state := us\<rparr>"
      "r = rn_result run \<or> target_error e up tg ry r"
  | (attempt) req ry' p cs' req' run' where
      "replay_next ry = (Some req, ry')"
      "\<exists>us us'. claim_next cs (pl_claimed e k) us = (Some p, cs', us')"
      "(if take 1 (tg_candidates tg) \<noteq> [pm_index p] then apply_server e up req (pm_index p) tg else Inr req) = Inr req'"
      "rn_trace run' = rn_trace run @ [(pm_index p, req', pl_send e k req')]"
      "rn_result run' = pl_send e k req'"
      "retry_loop e up tg (Suc n) k ry cs run =
        (if should_retry (up_retry up) (pl_send e k req') (ry_method ry)
         then retry_loop e up tg n (Suc k) ry' cs' run' else run')"
proof -
  obtain q ry' where rn: "replay_next ry = (q, ry')" by fastforce
  obtain p cs' us where cl: "claim_next cs (pl_claimed e k) (rn_state run) = (p, cs', us)" by (metis prod_cases3)
  show ?thesis
  proof (cases q)
    case None
    then have "retry_loop e up tg (Suc n) k ry cs run = run\<lparr>rn_result := rn_result run, rn_state := rn_state run\<rparr>"
      using rn by simp
    then show ?thesis by (rule stop) simp
  next
    case q: (Some req)
    show ?thesis
    proof (cases p)
      case None
      then have "retry_loop e up tg (Suc n) k ry cs run = run\<lparr>rn_result := rn_result run, rn_state := us\<rparr>"
        using rn cl q by simp
      then show ?thesis by (rule stop) simp
    next
      case p: (Some p0)
      let ?a = "if take 1 (tg_candidates tg) \<noteq> [pm_index p0] then apply_server e up req (pm_index p0) tg else Inr req"
      show ?thesis
      proof (cases ?a)
        case (Inl err)
        have "retry_loop e up tg (Suc n) k ry cs run =
            run\<lparr>rn_result := SendErr (send_error_other err), rn_state := permit_drop p0 us\<rparr>"
          using rn cl q p Inl by simp
        moreover have "target_error e up tg ry (SendErr (send_error_other err))"
          using replay_next_Some [of ry req ry'] rn q Inl unfolding target_error_def by (auto split: if_splits)
        ultimately show ?thesis using stop by blast
      next
        case (Inr req')
        let ?r = "pl_send e k req'"
        obtain guard us' where g: "record_response_permit e ?r p0 (pl_answered e k) (pl_between e k us) = (guard, us')"
          by (metis surj_pair)
        let ?run' = "\<lparr>rn_result = ?r, rn_trace = rn_trace run @ [(pm_index p0, req', ?r)],
            rn_cookie = (case ?r of SendOk _ _ \<Rightarrow> remember up tg (pm_index p0) (rn_cookie run) | SendErr _ \<Rightarrow> rn_cookie run),
            rn_guard = guard, rn_state = us'\<rparr>"
        have step: "retry_loop e up tg (Suc n) k ry cs run = (if should_retry (up_retry up) ?r (ry_method ry)
            then retry_loop e up tg n (Suc k) ry' cs' ?run' else ?run')"
          using rn cl q p Inr g by (simp add: Let_def)
        show ?thesis
        proof (rule attempt)
          show "replay_next ry = (Some req, ry')" using rn q by simp
          show "\<exists>us us'. claim_next cs (pl_claimed e k) us = (Some p0, cs', us')" using cl p by blast
          show "?a = Inr req'" by (rule Inr)
          show "rn_trace ?run' = rn_trace run @ [(pm_index p0, req', ?r)]" by simp
          show "rn_result ?run' = ?r" by simp
        qed (rule step)
      qed
    qed
  qed
qed

definition sent_to :: "pool_env \<Rightarrow> upstream \<Rightarrow> upstream_target \<Rightarrow> up_request \<Rightarrow> nat \<Rightarrow> up_request \<Rightarrow> bool" where
  "sent_to e up tg req i req' \<longleftrightarrow>
     (if take 1 (tg_candidates tg) = [i] then req' = req else apply_server e up req i tg = Inr req')"

lemma retry_loop_trace:
  assumes "\<And>q. ry_first ry = Some q \<Longrightarrow> q = req" and "\<And>q. ry_copy ry = Some q \<Longrightarrow> q = req"
  shows "\<exists>tr. rn_trace (retry_loop e up tg n k ry cs run) = rn_trace run @ tr \<and> length tr \<le> n \<and>
    subseq (map fst tr) cs \<and>
    list_all (\<lambda>(i, q, r). should_retry (up_retry up) r (ry_method ry)) (butlast tr) \<and>
    list_all (\<lambda>(i, q, r). sent_to e up tg req i q) tr \<and>
    (ry_copy ry = None \<longrightarrow> length tr \<le> 1) \<and>
    (rn_result (retry_loop e up tg n k ry cs run) = (if tr = [] then rn_result run else snd (snd (last tr))) \<or>
     target_error e up tg ry (rn_result (retry_loop e up tg n k ry cs run)))"
  using assms
proof (induction n arbitrary: k ry cs run)
  case 0
  then show ?case by (intro exI [of _ "[]"]) simp
next
  case (Suc n)
  show ?case
  proof (rule retry_loop_step [of e up tg n k ry cs run])
    fix us r
    assume "retry_loop e up tg (Suc n) k ry cs run = run\<lparr>rn_result := r, rn_state := us\<rparr>"
      and "r = rn_result run \<or> target_error e up tg ry r"
    then show ?thesis by (intro exI [of _ "[]"]) simp
  next
    fix req0 ry' p cs' req' run'
    assume rn: "replay_next ry = (Some req0, ry')"
      and cl: "\<exists>us us'. claim_next cs (pl_claimed e k) us = (Some p, cs', us')"
      and ap: "(if take 1 (tg_candidates tg) \<noteq> [pm_index p] then apply_server e up req0 (pm_index p) tg else Inr req0) = Inr req'"
      and tr': "rn_trace run' = rn_trace run @ [(pm_index p, req', pl_send e k req')]"
      and res': "rn_result run' = pl_send e k req'"
      and step: "retry_loop e up tg (Suc n) k ry cs run =
        (if should_retry (up_retry up) (pl_send e k req') (ry_method ry)
         then retry_loop e up tg n (Suc k) ry' cs' run' else run')"
    let ?x = "(pm_index p, req', pl_send e k req')"
    have req0: "req0 = req" using replay_next_Some [OF rn] Suc.prems by auto
    have sent: "sent_to e up tg req (pm_index p) req'" using ap req0 by (auto simp: sent_to_def split: if_splits)
    obtain pre where cs: "cs = pre @ pm_index p # cs'" using cl claim_next_Some by blast
    have sub1: "subseq [pm_index p] cs" using cs by (simp add: list_emb_append2)
    show ?thesis
    proof (cases "should_retry (up_retry up) (pl_send e k req') (ry_method ry)")
      case False
      then show ?thesis
        using step tr' res' sent sub1 by (intro exI [of _ "[?x]"]) simp
    next
      case True
      have ry': "ry_first ry' = None" "ry_copy ry' = ry_copy ry" "ry_method ry' = ry_method ry"
        using replay_next_Some [OF rn] by auto
      obtain tr where tr: "rn_trace (retry_loop e up tg n (Suc k) ry' cs' run') = rn_trace run' @ tr"
          "length tr \<le> n" "subseq (map fst tr) cs'"
          "list_all (\<lambda>(i, q, r). should_retry (up_retry up) r (ry_method ry)) (butlast tr)"
          "list_all (\<lambda>(i, q, r). sent_to e up tg req i q) tr"
          "rn_result (retry_loop e up tg n (Suc k) ry' cs' run') = (if tr = [] then rn_result run' else snd (snd (last tr))) \<or>
           target_error e up tg ry' (rn_result (retry_loop e up tg n (Suc k) ry' cs' run'))"
        using Suc.IH [of ry' "Suc k" cs' run'] Suc.prems ry' by auto
      have te: "target_error e up tg ry' r \<Longrightarrow> target_error e up tg ry r" for r
        using ry' by (auto simp: target_error_def)
      have single: "tr = []" if "ry_copy ry = None"
      proof -
        have "replay_next ry' = (None, ry')" using ry' that by (simp add: replay_next_def)
        then have "retry_loop e up tg n (Suc k) ry' cs' run' = run'" by (cases n) simp_all
        then show ?thesis using tr(1) by simp
      qed
      have sub: "subseq (map fst (?x # tr)) cs"
        using tr(3) cs by (simp add: subseq_append_le_same_iff list_emb_append2 subseq_Cons2_iff)
      have bl: "list_all (\<lambda>(i, q, r). should_retry (up_retry up) r (ry_method ry)) (butlast (?x # tr))"
        using tr(4) True by simp
      have res: "rn_result (retry_loop e up tg n (Suc k) ry' cs' run') = snd (snd (last (?x # tr))) \<or>
           target_error e up tg ry (rn_result (retry_loop e up tg n (Suc k) ry' cs' run'))"
        using tr(6) te res' by (auto split: if_splits)
      show ?thesis
        using step True tr(1,2,5) tr' sent sub bl single res
        by (intro exI [of _ "?x # tr"]) auto
    qed
  qed
qed

section \<open>Retries\<close>

lemma replay_prepare_Inr:
  assumes "replay_prepare e req limit = Inr ry"
  shows "ry_first ry = Some req" and "ry_copy ry = None \<or> ry_copy ry = Some req" and "ry_method ry = uq_method req"
    and "ry_copy ry \<noteq> None \<Longrightarrow> \<not> contains_key (uq_headers req) ''upgrade''"
    and "ry_copy ry \<noteq> None \<Longrightarrow> \<exists>n. body_length (pl_http e) req = Some n \<and> n \<le> limit"
  using assms by (auto simp: replay_prepare_def Let_def split: if_splits option.splits)

lemma prepared_trace:
  assumes "replay_prepare e req limit = Inr ry"
    and run: "run = send_with_retries e up ry tg us"
  shows "length (rn_trace run) \<le> max (rp_attempts (up_retry up)) 1"
    and "subseq (map fst (rn_trace run)) (tg_candidates tg)"
    and "list_all (\<lambda>(i, q, r). should_retry (up_retry up) r (uq_method req)) (butlast (rn_trace run))"
    and "list_all (\<lambda>(i, q, r). sent_to e up tg req i q) (rn_trace run)"
    and "ry_copy ry = None \<Longrightarrow> length (rn_trace run) \<le> 1"
    and "rn_result run = (if rn_trace run = [] then SendErr (send_error_other NoUpstreamAvailable)
           else snd (snd (last (rn_trace run)))) \<or> target_error e up tg ry (rn_result run)"
proof -
  let ?run0 = "\<lparr>rn_result = SendErr (send_error_other NoUpstreamAvailable), rn_trace = [], rn_cookie = None,
      rn_guard = None, rn_state = us\<rparr>"
  have "ry_first ry = Some q \<Longrightarrow> q = req" "ry_copy ry = Some q \<Longrightarrow> q = req" for q
    using replay_prepare_Inr(1,2) [OF assms(1)] by auto
  from retry_loop_trace [OF this, where e = e and up = up and tg = tg and n = "max (rp_attempts (up_retry up)) 1"
      and k = 1 and cs = "tg_candidates tg" and run = ?run0]
  obtain tr where "rn_trace run = tr" "length tr \<le> max (rp_attempts (up_retry up)) 1"
      "subseq (map fst tr) (tg_candidates tg)"
      "list_all (\<lambda>(i, q, r). should_retry (up_retry up) r (ry_method ry)) (butlast tr)"
      "list_all (\<lambda>(i, q, r). sent_to e up tg req i q) tr"
      "ry_copy ry = None \<longrightarrow> length tr \<le> 1"
      "rn_result run = (if tr = [] then rn_result ?run0 else snd (snd (last tr))) \<or> target_error e up tg ry (rn_result run)"
    unfolding run send_with_retries_def by (auto simp del: retry_loop.simps)
  then show "length (rn_trace run) \<le> max (rp_attempts (up_retry up)) 1"
    and "subseq (map fst (rn_trace run)) (tg_candidates tg)"
    and "list_all (\<lambda>(i, q, r). should_retry (up_retry up) r (uq_method req)) (butlast (rn_trace run))"
    and "list_all (\<lambda>(i, q, r). sent_to e up tg req i q) (rn_trace run)"
    and "ry_copy ry = None \<Longrightarrow> length (rn_trace run) \<le> 1"
    and "rn_result run = (if rn_trace run = [] then SendErr (send_error_other NoUpstreamAvailable)
           else snd (snd (last (rn_trace run)))) \<or> target_error e up tg ry (rn_result run)"
    using replay_prepare_Inr(3) [OF assms(1)] by (simp_all split: if_splits)
qed

lemma should_retry_cases:
  "should_retry p r m \<Longrightarrow> retry_reason r = Some RetryConnect \<or> is_idempotent m"
  by (auto simp: should_retry_def split: option.splits)

text \<open>C3: A prepared request is sent at most as often as the policy allows, and at most once to each
  candidate, in the order of the candidates.  It is sent again only after a failure that the policy
  names; a request whose method is not idempotent is sent again only after a connection failure; a
  request whose body was not kept (an upgrade, or a body of unknown length or over the limit) is sent
  at most once.  The client gets the result of the last attempt, and the no-server error when there
  was none, unless the URI of a server cannot be built.\<close>

theorem retries_are_bounded_and_safe:
  assumes "replay_prepare e req limit = Inr ry" and "run = send_with_retries e up ry tg us"
  shows "length (rn_trace run) \<le> max (rp_attempts (up_retry up)) 1 \<and>
    subseq (map fst (rn_trace run)) (tg_candidates tg) \<and>
    list_all (\<lambda>(i, q, r). should_retry (up_retry up) r (uq_method req)) (butlast (rn_trace run)) \<and>
    (\<not> is_idempotent (uq_method req) \<longrightarrow>
      list_all (\<lambda>(i, q, r). retry_reason r = Some RetryConnect) (butlast (rn_trace run))) \<and>
    (contains_key (uq_headers req) ''upgrade'' \<or> (case body_length (pl_http e) req of None \<Rightarrow> True | Some n \<Rightarrow> limit < n)
      \<longrightarrow> length (rn_trace run) \<le> 1) \<and>
    (rn_result run = (if rn_trace run = [] then SendErr (send_error_other NoUpstreamAvailable)
        else snd (snd (last (rn_trace run)))) \<or>
     target_error e up tg ry (rn_result run))"
proof (intro conjI)
  note tr = prepared_trace [OF assms]
  show "length (rn_trace run) \<le> max (rp_attempts (up_retry up)) 1" by (rule tr(1))
  show "subseq (map fst (rn_trace run)) (tg_candidates tg)" by (rule tr(2))
  show retry: "list_all (\<lambda>(i, q, r). should_retry (up_retry up) r (uq_method req)) (butlast (rn_trace run))" by (rule tr(3))
  show "\<not> is_idempotent (uq_method req) \<longrightarrow>
      list_all (\<lambda>(i, q, r). retry_reason r = Some RetryConnect) (butlast (rn_trace run))"
    using retry should_retry_cases by (fastforce simp: list_all_iff)
  show "contains_key (uq_headers req) ''upgrade'' \<or> (case body_length (pl_http e) req of None \<Rightarrow> True | Some n \<Rightarrow> limit < n)
      \<longrightarrow> length (rn_trace run) \<le> 1"
    using tr(5) replay_prepare_Inr(4,5) [OF assms(1)] by (cases "ry_copy ry = None") auto
  show "rn_result run = (if rn_trace run = [] then SendErr (send_error_other NoUpstreamAvailable)
        else snd (snd (last (rn_trace run)))) \<or> target_error e up tg ry (rn_result run)" by (rule tr(6))
qed

definition sample_pool_env :: pool_env where
  "sample_pool_env =
     \<lparr>pl_balancer = sample_env,
      pl_http = \<lparr>hx_text_byte = (\<lambda>_. True), hx_value_byte = (\<lambda>_. True), hx_str_byte = (\<lambda>_. True)\<rparr>,
      pl_regex = \<lparr>rx_replace = (\<lambda>r s t. s), rx_expand = (\<lambda>r s t. None), rx_ok = (\<lambda>_. True), hv_ok = (\<lambda>_. True)\<rparr>,
      pl_uri = (\<lambda>s path query. Some \<lparr>uri_text = sv_url s @ path, uri_authority = Some (sv_url s)\<rparr>),
      pl_send = (\<lambda>k req. if k = 1 then SendErr \<lparr>se_error = None, se_text = ''refused'', se_connect = True\<rparr>
                  else SendOk 200 None),
      pl_body_read = (\<lambda>_. True),
      pl_between = (\<lambda>_ us. us),
      pl_claimed = (\<lambda>k. k),
      pl_answered = (\<lambda>k. k),
      pl_status_text = (\<lambda>_. [])\<rparr>"

definition sample_upstream :: upstream where
  "sample_upstream =
     \<lparr>up_servers = [\<lparr>sv_url = ''a'', sv_path = ''/''\<rparr>, \<lparr>sv_url = ''b'', sv_path = ''/base/''\<rparr>],
      up_retry = retry_policy_default, up_affinity = None,
      up_rewrite = \<lparr>rw_kept = [], rw_regex = None, rw_prefix = []\<rparr>\<rparr>"

definition sample_request :: up_request where
  "sample_request = \<lparr>uq_method = ''POST'', uq_uri = \<lparr>uri_text = ''/x'', uri_authority = None\<rparr>, uq_query = None,
     uq_headers = [], uq_body_size = Some 0\<rparr>"

definition sample_upstream_state :: upstream_state where
  "sample_upstream_state = (sample_group First [(''a'', 1), (''b'', 1)], sample_store)"

theorem retries_are_bounded_and_safe_witness:
  "map fst (rn_trace (send_with_retries sample_pool_env sample_upstream
      \<lparr>ry_first = Some sample_request, ry_copy = Some sample_request, ry_method = ''POST''\<rparr>
      \<lparr>tg_candidates = [0, 1], tg_path_segments = [''x''], tg_query = None, tg_sticky = None\<rparr> sample_upstream_state)) = [0, 1] \<and>
   list_all (\<lambda>(i, q, r). retry_reason r = Some RetryConnect)
    (butlast (rn_trace (send_with_retries sample_pool_env sample_upstream
      \<lparr>ry_first = Some sample_request, ry_copy = Some sample_request, ry_method = ''POST''\<rparr>
      \<lparr>tg_candidates = [0, 1], tg_path_segments = [''x''], tg_query = None, tg_sticky = None\<rparr> sample_upstream_state)))"
proof (intro conjI)
  let ?ry = "\<lparr>ry_first = Some sample_request, ry_copy = Some sample_request, ry_method = ''POST''\<rparr>"
  have "replay_prepare sample_pool_env sample_request 0 = Inr ?ry" by code_simp
  moreover have "\<not> is_idempotent (uq_method sample_request)" by code_simp
  ultimately show "list_all (\<lambda>(i, q, r). retry_reason r = Some RetryConnect)
    (butlast (rn_trace (send_with_retries sample_pool_env sample_upstream ?ry
      \<lparr>tg_candidates = [0, 1], tg_path_segments = [''x''], tg_query = None, tg_sticky = None\<rparr> sample_upstream_state)))"
    using retries_are_bounded_and_safe by blast
  show "map fst (rn_trace (send_with_retries sample_pool_env sample_upstream ?ry
      \<lparr>tg_candidates = [0, 1], tg_path_segments = [''x''], tg_query = None, tg_sticky = None\<rparr> sample_upstream_state)) = [0, 1]"
    by code_simp
qed

section \<open>Selecting, then sending\<close>

lemma apply_server_Inr:
  assumes "apply_server e up req i tg = Inr req'"
  shows "i < length (up_servers up) \<and>
    upstream_uri e (up_servers up ! i) (tg_path_segments tg) (tg_query tg) = Inr (uq_uri req')"
  using assms by (auto simp: apply_server_def nth_opt_def Let_def split: option.splits sum.splits if_splits)

lemma pin_candidates:
  "pin e g a req cs secure now = (sk, req', cs') \<Longrightarrow> distinct cs \<Longrightarrow> distinct cs'"
  by (auto simp: pin_def Let_def split: option.splits if_splits)

lemma select_target:
  assumes "select e up us req segments client secure now = (Inr (Some tg, req'), us')"
  shows "distinct (tg_candidates tg)"
    and "tg_candidates tg = i # cs \<Longrightarrow> \<exists>req1. apply_server e up req1 i tg = Inr req'"
proof -
  obtain g st where us: "us = (g, st)" by (cases us)
  obtain cs1 g1 where c: "candidates (pl_balancer e) g st client now = (cs1, g1)" by (metis surj_pair)
  have d: "distinct cs1" using candidates_distinct [of "pl_balancer e" g st client now] c by simp
  obtain sticky req1 cs2 where p: "(case up_affinity up of
        None \<Rightarrow> (None, req, cs1)
      | Some a \<Rightarrow> (let (sk, req', cs') = pin e g1 a req cs1 secure now in (Some sk, req', cs'))) = (sticky, req1, cs2)"
    by (metis prod_cases3)
  have d2: "distinct cs2"
    using p d pin_candidates by (cases "up_affinity up") (auto split: prod.splits)
  let ?tg = "\<lparr>tg_candidates = cs2, tg_path_segments = rewrite_apply (pl_regex e) (up_rewrite up) segments,
      tg_query = uq_query req1, tg_sticky = sticky\<rparr>"
  have s: "select e up us req segments client secure now =
      (if up_servers up = [] then (Inr (None, req), us) else
       case cs2 of [] \<Rightarrow> (Inr (Some ?tg, req1), (g1, st))
         | first # _ \<Rightarrow> (case apply_server e up req1 first ?tg of
              Inl err \<Rightarrow> (Inl err, (g1, st)) | Inr req2 \<Rightarrow> (Inr (Some ?tg, req2), (g1, st))))"
    unfolding select_def us using c p by (simp add: Let_def)
  have tg: "tg = ?tg" using assms s by (auto split: if_splits list.splits sum.splits)
  show "distinct (tg_candidates tg)" using tg d2 by simp
  show "\<exists>req1. apply_server e up req1 i tg = Inr req'" if "tg_candidates tg = i # cs"
    using assms s tg that by (auto split: if_splits sum.splits)
qed

text \<open>A request that \<open>select\<close> prepared reaches only the servers of the route: every attempt sends it
  with the URI built from the server of the attempt, the rewritten path and the query of the client,
  so the URI of the client is never sent on, and no two attempts go to the same server.\<close>

theorem attempts_use_the_uri_of_their_server:
  assumes "select e up us req segments client secure now = (Inr (Some tg, req'), us')"
    and "replay_prepare e req' limit = Inr ry"
  shows "list_all (\<lambda>(i, q, r). i < length (up_servers up) \<and>
      upstream_uri e (up_servers up ! i) (tg_path_segments tg) (tg_query tg) = Inr (uq_uri q))
    (rn_trace (send_with_retries e up ry tg us'')) \<and>
    distinct (map fst (rn_trace (send_with_retries e up ry tg us'')))"
proof -
  note tr = prepared_trace [OF assms(2) HOL.refl, of up tg us'']
  have "i < length (up_servers up) \<and>
      upstream_uri e (up_servers up ! i) (tg_path_segments tg) (tg_query tg) = Inr (uq_uri q)"
    if "sent_to e up tg req' i q" for i q
  proof (cases "take 1 (tg_candidates tg) = [i]")
    case True
    then obtain cs where "tg_candidates tg = i # cs" by (cases "tg_candidates tg") auto
    then obtain req1 where "apply_server e up req1 i tg = Inr req'"
      using select_target(2) [OF assms(1)] by blast
    then show ?thesis using apply_server_Inr that True by (auto simp: sent_to_def)
  next
    case False
    then show ?thesis using apply_server_Inr that by (auto simp: sent_to_def)
  qed
  then have "list_all (\<lambda>(i, q, r). i < length (up_servers up) \<and>
      upstream_uri e (up_servers up ! i) (tg_path_segments tg) (tg_query tg) = Inr (uq_uri q))
    (rn_trace (send_with_retries e up ry tg us''))"
    using tr(4) by (fastforce simp: list_all_iff)
  moreover have "distinct (map fst (rn_trace (send_with_retries e up ry tg us'')))"
    using tr(2) select_target(1) [OF assms(1)] by (metis distinct_nthsI subseq_conv_nths)
  ultimately show ?thesis by simp
qed

end
