(* ===== verification/Client_Ip.thy ===== *)
theory Client_Ip
  imports Http_Headers Ip_Text "HOL-Library.Code_Target_Nat"
begin

text \<open>
  Which address a request comes from: \<open>proxy/http/client_ip.rs\<close>, the table of CDN edge networks of
  \<open>cdn/mod.rs\<close>, \<open>canonical_client_ip\<close> of the API crate, and the address filter of \<open>policy.rs\<close>.

  An \<open>IpNet\<close> is a value of the \<open>ipnet\<close> crate.  The model leaves its type open and takes the two
  operations the code uses as the parameter \<^emph>\<open>net_env\<close>: membership of an address, and the address
  of a network that consists of a single one.
\<close>

record 'n net_env =
  ne_contains :: "'n \<Rightarrow> ip_addr \<Rightarrow> bool"
  ne_single :: "'n \<Rightarrow> ip_addr option"

section \<open>CDN edge networks\<close>

datatype cdn_provider = Cloudflare | Fastly | Cloudfront | Bunny | Gcore | Keycdn | Imperva | GoogleCloud

text \<open>The providers of \<open>CdnRanges\<close> are a \<open>BTreeMap\<close>: an association list in the order of its keys.\<close>

type_synonym 'n cdn_ranges = "(cdn_provider \<times> 'n list) list"

record 'n cdn_table =
  ct_exact :: "ip_addr \<Rightarrow> cdn_provider option"
  ct_prefixes :: "('n \<times> cdn_provider) list"

fun cdn_insert :: "'n net_env \<Rightarrow> 'n \<times> cdn_provider \<Rightarrow> 'n cdn_table \<Rightarrow> 'n cdn_table" where
  "cdn_insert e (net, provider) t =
     (case ne_single e net of
        Some addr \<Rightarrow> t\<lparr>ct_exact := (ct_exact t)(addr \<mapsto> provider)\<rparr>
      | None \<Rightarrow> t\<lparr>ct_prefixes := ct_prefixes t @ [(net, provider)]\<rparr>)"

definition cdn_entries :: "'n cdn_ranges \<Rightarrow> ('n \<times> cdn_provider) list" where
  "cdn_entries ranges = concat (map (\<lambda>(provider, nets). map (\<lambda>net. (net, provider)) nets) ranges)"

definition cdn_table_new :: "'n net_env \<Rightarrow> 'n cdn_ranges \<Rightarrow> 'n cdn_table" where
  "cdn_table_new e ranges =
     fold (cdn_insert e) (cdn_entries ranges) \<lparr>ct_exact = (\<lambda>_. None), ct_prefixes = []\<rparr>"

definition cdn_lookup :: "'n net_env \<Rightarrow> 'n cdn_table \<Rightarrow> ip_addr \<Rightarrow> cdn_provider option" where
  "cdn_lookup e t ip =
     (let ip = to_canonical ip in
      case ct_exact t ip of
        Some provider \<Rightarrow> Some provider
      | None \<Rightarrow> map_option snd (List.find (\<lambda>(net, _). ne_contains e net ip) (ct_prefixes t)))"

section \<open>Addresses in headers\<close>

definition rsplit_once :: "char \<Rightarrow> string \<Rightarrow> (string \<times> string) option" where
  "rsplit_once c s =
     (if c \<in> set s
      then Some (rev (tl (dropWhile (\<lambda>x. x \<noteq> c) (rev s))), rev (takeWhile (\<lambda>x. x \<noteq> c) (rev s)))
      else None)"

definition parse_u16 :: "string \<Rightarrow> nat option" where
  "parse_u16 s = (case parse_u64 s of None \<Rightarrow> None | Some n \<Rightarrow> if n \<le> u16_max then Some n else None)"

text \<open>\<open>SocketAddr::from_str\<close> of the standard library.\<close>

definition read_char :: "char \<Rightarrow> string \<Rightarrow> string option" where
  "read_char c s = (case s of [] \<Rightarrow> None | x # xs \<Rightarrow> if x = c then Some xs else None)"

definition read_port :: "string \<Rightarrow> (nat \<times> string) option" where
  "read_port s = (case read_char CHR '':'' s of None \<Rightarrow> None | Some r \<Rightarrow> read_number 10 (length r) True u16_max r)"

definition skip_scope_id :: "string \<Rightarrow> string" where
  "skip_scope_id s =
     (case read_char CHR ''%'' s of
        None \<Rightarrow> s
      | Some r \<Rightarrow> (case read_number 10 (length r) True u32_max r of None \<Rightarrow> s | Some (_, r') \<Rightarrow> r'))"

definition read_socket_addr_v4 :: "string \<Rightarrow> (ip_addr \<times> string) option" where
  "read_socket_addr_v4 s =
     (case read_ipv4_addr s of
        None \<Rightarrow> None
      | Some (a, r) \<Rightarrow> map_option (\<lambda>(_, r'). (V4 a, r')) (read_port r))"

definition read_socket_addr_v6 :: "string \<Rightarrow> (ip_addr \<times> string) option" where
  "read_socket_addr_v6 s =
     (case read_char CHR ''['' s of
        None \<Rightarrow> None
      | Some r \<Rightarrow>
          (case read_ipv6_addr r of
             None \<Rightarrow> None
           | Some (a, r1) \<Rightarrow>
               (case read_char CHR '']'' (skip_scope_id r1) of
                  None \<Rightarrow> None
                | Some r2 \<Rightarrow> map_option (\<lambda>(_, r'). (V6 a, r')) (read_port r2))))"

definition parse_socket_ip :: "string \<Rightarrow> ip_addr option" where
  "parse_socket_ip s =
     (case (case read_socket_addr_v4 s of Some x \<Rightarrow> Some x | None \<Rightarrow> read_socket_addr_v6 s) of
        Some (ip, []) \<Rightarrow> Some ip
      | _ \<Rightarrow> None)"

definition parse_forwarded_ip :: "string \<Rightarrow> ip_addr option" where
  "parse_forwarded_ip value =
     (let value = trim value in
      case parse_ip value of
        Some ip \<Rightarrow> Some (to_canonical ip)
      | None \<Rightarrow>
          (case parse_socket_ip value of
             Some ip \<Rightarrow> Some (to_canonical ip)
           | None \<Rightarrow>
               (case rsplit_once CHR '':'' value of
                  None \<Rightarrow> None
                | Some (ip, port) \<Rightarrow>
                    (case parse_u16 port of
                       None \<Rightarrow> None
                     | Some _ \<Rightarrow> map_option to_canonical (parse_ip ip)))))"

definition header_ip :: "http_env \<Rightarrow> headers \<Rightarrow> string \<Rightarrow> ip_addr option" where
  "header_ip h hs name =
     (case get hs name of
        None \<Rightarrow> None
      | Some v \<Rightarrow> (case to_str h v of None \<Rightarrow> None | Some s \<Rightarrow> parse_forwarded_ip s))"

definition provider_header_ip :: "http_env \<Rightarrow> cdn_provider \<Rightarrow> headers \<Rightarrow> ip_addr option" where
  "provider_header_ip h provider hs =
     (case provider of
        Cloudflare \<Rightarrow> header_ip h hs ''cf-connecting-ip''
      | Bunny \<Rightarrow> header_ip h hs ''x-real-ip''
      | Cloudfront \<Rightarrow> header_ip h hs ''cloudfront-viewer-address''
      | _ \<Rightarrow> None)"

text \<open>The elements of every value of a list header.\<close>

definition list_elements :: "http_env \<Rightarrow> headers \<Rightarrow> string \<Rightarrow> string list" where
  "list_elements h hs name =
     concat (map (split_on CHR '','') (List.map_filter (to_str h) (get_all hs name)))"

definition is_for_directive :: "string \<Rightarrow> bool" where
  "is_for_directive directive \<longleftrightarrow> eq_ignore_ascii_case (take 4 (trim directive)) ''for=''"

definition strip_quotes :: "string \<Rightarrow> string" where
  "strip_quotes value =
     (case strip_prefix [CHR 0x22] value of
        None \<Rightarrow> value
      | Some v \<Rightarrow> if v \<noteq> [] \<and> last v = CHR 0x22 then butlast v else value)"

definition forwarded_element_ip :: "string \<Rightarrow> ip_addr option" where
  "forwarded_element_ip element =
     (case List.find is_for_directive (split_on CHR '';'' element) of
        None \<Rightarrow> None
      | Some directive \<Rightarrow> parse_forwarded_ip (strip_quotes (trim (drop 4 (trim directive)))))"

definition rfc7239_forwarded_ips :: "http_env \<Rightarrow> headers \<Rightarrow> ip_addr list" where
  "rfc7239_forwarded_ips h hs = List.map_filter forwarded_element_ip (list_elements h hs ''forwarded'')"

section \<open>The resolver\<close>

record client_addr =
  ca_peer :: ip_addr
  ca_ip :: ip_addr
  ca_trusted_peer :: bool

definition client_direct :: "ip_addr \<Rightarrow> client_addr" where
  "client_direct peer =
     (let peer = to_canonical peer in \<lparr>ca_peer = peer, ca_ip = peer, ca_trusted_peer = False\<rparr>)"

record 'n client_ip_resolver =
  cr_trust_cdn :: bool
  cr_trusted_proxies :: "'n list"

datatype trust = TrustCdn cdn_provider | TrustProxy

definition trust_of :: "'n net_env \<Rightarrow> 'n client_ip_resolver \<Rightarrow> 'n cdn_table \<Rightarrow> ip_addr \<Rightarrow> trust option" where
  "trust_of e r table ip =
     (if list_ex (\<lambda>net. ne_contains e net ip) (cr_trusted_proxies r) then Some TrustProxy
      else if \<not> cr_trust_cdn r then None
      else map_option TrustCdn (cdn_lookup e table ip))"

definition forwarded_entries :: "http_env \<Rightarrow> headers \<Rightarrow> ip_addr list" where
  "forwarded_entries h hs =
     List.map_filter parse_forwarded_ip (list_elements h hs ''x-forwarded-for'') @ rfc7239_forwarded_ips h hs"

definition forwarded_for_ip ::
    "'n net_env \<Rightarrow> http_env \<Rightarrow> 'n client_ip_resolver \<Rightarrow> headers \<Rightarrow> 'n cdn_table \<Rightarrow> ip_addr option" where
  "forwarded_for_ip e h r hs table =
     (let entries = forwarded_entries h hs in
      case List.find (\<lambda>ip. trust_of e r table ip = None) (rev entries) of
        Some ip \<Rightarrow> Some ip
      | None \<Rightarrow> nth_opt entries 0)"

definition resolve ::
    "'n net_env \<Rightarrow> http_env \<Rightarrow> 'n client_ip_resolver \<Rightarrow> ip_addr \<Rightarrow> headers \<Rightarrow> 'n cdn_table \<Rightarrow> client_addr" where
  "resolve e h r peer hs table =
     (let direct = client_direct peer in
      case trust_of e r table (ca_peer direct) of
        None \<Rightarrow> direct
      | Some trust \<Rightarrow>
          let ip = (case trust of
                TrustCdn provider \<Rightarrow> provider_header_ip h provider hs
              | TrustProxy \<Rightarrow> forwarded_for_ip e h r hs table)
          in \<lparr>ca_peer = ca_peer direct,
              ca_ip = (case ip of None \<Rightarrow> ca_peer direct | Some ip \<Rightarrow> ip),
              ca_trusted_peer = True\<rparr>)"

text \<open>\<open>canonical_client_ip\<close>: the key under which limits count a client.\<close>

definition canonical_client_ip :: "ip_addr \<Rightarrow> ip_addr" where
  "canonical_client_ip ip =
     (case to_canonical ip of V4 a \<Rightarrow> V4 a | V6 a \<Rightarrow> V6 (push_bit 64 (drop_bit 64 a)))"

section \<open>The address filter\<close>

record 'n ip_filter =
  if_allow :: "'n list"
  if_deny :: "'n list"
  if_allow_countries :: "string list"
  if_deny_countries :: "string list"

definition ip_filter_is_empty :: "'n ip_filter \<Rightarrow> bool" where
  "ip_filter_is_empty f \<longleftrightarrow>
     if_allow f = [] \<and> if_deny f = [] \<and> if_allow_countries f = [] \<and> if_deny_countries f = []"

definition is_country_denied :: "'n ip_filter \<Rightarrow> string option \<Rightarrow> bool" where
  "is_country_denied f country =
     (case country of
        Some c \<Rightarrow> list_ex (\<lambda>d. eq_ignore_ascii_case d c) (if_deny_countries f)
      | None \<Rightarrow> False)"

definition matches_country_allow :: "'n ip_filter \<Rightarrow> string option \<Rightarrow> bool" where
  "matches_country_allow f country =
     (case country of
        Some c \<Rightarrow> list_ex (\<lambda>a. eq_ignore_ascii_case a c) (if_allow_countries f)
      | None \<Rightarrow> False)"

definition allows_with_country :: "'n net_env \<Rightarrow> 'n ip_filter \<Rightarrow> ip_addr \<Rightarrow> string option \<Rightarrow> bool" where
  "allows_with_country e f ip country =
     (let ip = to_canonical ip in
      if list_ex (\<lambda>net. ne_contains e net ip) (if_deny f) \<or> is_country_denied f country then False
      else if if_allow f \<noteq> [] \<and> list_ex (\<lambda>net. ne_contains e net ip) (if_allow f) then True
      else if if_allow_countries f \<noteq> [] then matches_country_allow f country
      else if_allow f = [])"

definition ip_filter_allows :: "'n net_env \<Rightarrow> 'n ip_filter \<Rightarrow> ip_addr \<Rightarrow> bool" where
  "ip_filter_allows e f ip = allows_with_country e f ip None"

section \<open>Looking up a CDN network\<close>

lemma cdn_table_prefixes:
  "ct_prefixes (fold (cdn_insert e) xs t) = ct_prefixes t @ filter (\<lambda>(net, _). ne_single e net = None) xs"
  by (induction xs arbitrary: t) (auto split: option.splits)

lemma cdn_table_exact:
  "ct_exact (fold (cdn_insert e) xs t) ip =
     (case List.find (\<lambda>(net, _). ne_single e net = Some ip) (rev xs) of
        Some (_, p) \<Rightarrow> Some p | None \<Rightarrow> ct_exact t ip)"
proof (induction xs rule: rev_induct)
  case (snoc x xs)
  then show ?case by (cases x) (auto split: option.splits)
qed simp

lemma cdn_lookup_None:
  "cdn_lookup e (cdn_table_new e ranges) ip = None \<longleftrightarrow>
     (\<forall>(net, p) \<in> set (cdn_entries ranges).
        case ne_single e net of Some a \<Rightarrow> a \<noteq> to_canonical ip | None \<Rightarrow> \<not> ne_contains e net (to_canonical ip))"
proof -
  let ?xs = "cdn_entries ranges" and ?t = "cdn_table_new e ranges" and ?ip = "to_canonical ip"
  have exact: "ct_exact ?t ?ip = None \<longleftrightarrow> (\<forall>x \<in> set ?xs. ne_single e (fst x) \<noteq> Some ?ip)"
  proof (cases "List.find (\<lambda>(net, _). ne_single e net = Some ?ip) (rev ?xs)")
    case None
    then show ?thesis
      using find_None_iff [of "\<lambda>(net, _). ne_single e net = Some ?ip" "rev ?xs"]
      by (auto simp: cdn_table_new_def cdn_table_exact)
  next
    case (Some x)
    then have "x \<in> set ?xs" and "ne_single e (fst x) = Some ?ip"
      by (auto simp: find_Some_iff case_prod_unfold rev_nth)
    then show ?thesis using Some by (auto simp: cdn_table_new_def cdn_table_exact case_prod_unfold)
  qed
  have prefixes: "List.find (\<lambda>(net, _). ne_contains e net ?ip) (ct_prefixes ?t) = None \<longleftrightarrow>
      (\<forall>x \<in> set ?xs. ne_single e (fst x) = None \<longrightarrow> \<not> ne_contains e (fst x) ?ip)"
    unfolding cdn_table_new_def cdn_table_prefixes by (auto simp: find_None_iff)
  have "cdn_lookup e ?t ip = None \<longleftrightarrow>
      ct_exact ?t ?ip = None \<and> List.find (\<lambda>(net, _). ne_contains e net ?ip) (ct_prefixes ?t) = None"
    by (simp add: cdn_lookup_def Let_def split: option.split)
  also have "\<dots> \<longleftrightarrow> (\<forall>x \<in> set ?xs. ne_single e (fst x) \<noteq> Some ?ip \<and>
      (ne_single e (fst x) = None \<longrightarrow> \<not> ne_contains e (fst x) ?ip))"
    unfolding exact prefixes by blast
  also have "\<dots> \<longleftrightarrow> (\<forall>x \<in> set ?xs. case ne_single e (fst x) of Some a \<Rightarrow> a \<noteq> ?ip | None \<Rightarrow> \<not> ne_contains e (fst x) ?ip)"
    by (rule ball_cong [OF HOL.refl]) (simp split: option.split)
  finally show ?thesis by (simp add: case_prod_unfold)
qed

section \<open>Which address a request comes from\<close>

lemma map_filter_Some: "x \<in> set (List.map_filter f xs) \<Longrightarrow> \<exists>y \<in> set xs. f y = Some x"
  by (induction xs) (auto simp: List.map_filter_def split: option.splits if_splits)

lemma parse_forwarded_ip_canonical: "parse_forwarded_ip s = Some ip \<Longrightarrow> to_canonical ip = ip"
  by (auto simp: parse_forwarded_ip_def Let_def split: option.splits)

lemma forwarded_entries_canonical: "ip \<in> set (forwarded_entries h hs) \<Longrightarrow> to_canonical ip = ip"
  by (auto simp: forwarded_entries_def rfc7239_forwarded_ips_def forwarded_element_ip_def
      dest!: map_filter_Some intro: parse_forwarded_ip_canonical split: option.splits)

lemma find_rev_last:
  assumes "P x" and "\<And>y. y \<in> set ys \<Longrightarrow> \<not> P y"
  shows "List.find P (rev (xs @ x # ys)) = Some x"
proof -
  have "List.find P zs = None" if "set zs = set ys" for zs
    using that assms(2) by (auto simp: find_None_iff)
  moreover have "List.find P (as @ bs) = (case List.find P as of None \<Rightarrow> List.find P bs | r \<Rightarrow> r)" for as bs
    by (induction as) auto
  ultimately show ?thesis using assms(1) by simp
qed

lemma forwarded_for_ip_last:
  assumes "forwarded_entries h hs = spoofed @ ip # hops"
    and "trust_of e r table ip = None" and "list_all (\<lambda>hop. trust_of e r table hop \<noteq> None) hops"
  shows "forwarded_for_ip e h r hs table = Some ip"
  using find_rev_last [of "\<lambda>ip. trust_of e r table ip = None" ip hops spoofed] assms
  by (auto simp: forwarded_for_ip_def Let_def list_all_iff)

lemma forwarded_for_ip_canonical:
  "forwarded_for_ip e h r hs table = Some ip \<Longrightarrow> to_canonical ip = ip"
  by (auto simp: forwarded_for_ip_def Let_def nth_opt_def find_Some_iff rev_nth
      intro!: forwarded_entries_canonical [of _ h hs] split: option.splits if_splits)

text \<open>C7: The client cannot choose its own address.  The headers of a peer that is neither a trusted
  proxy nor a trusted CDN change nothing.  Behind a trusted proxy the address is the last one in the
  chain of the forwarded headers that is not itself trusted, whatever stands before it in the chain.
  The resolved address is always in its canonical form.\<close>

theorem client_ip_is_not_spoofable:
  shows "(trust_of e r table (to_canonical peer) = None \<longrightarrow> resolve e h r peer hs table = client_direct peer) \<and>
    (trust_of e r table (to_canonical peer) = Some TrustProxy \<and>
     forwarded_entries h hs = spoofed @ ip # hops \<and> trust_of e r table ip = None \<and>
     list_all (\<lambda>hop. trust_of e r table hop \<noteq> None) hops \<longrightarrow>
       resolve e h r peer hs table = \<lparr>ca_peer = to_canonical peer, ca_ip = ip, ca_trusted_peer = True\<rparr>) \<and>
    to_canonical (ca_ip (resolve e h r peer hs table)) = ca_ip (resolve e h r peer hs table)"
proof (intro conjI impI)
  show "resolve e h r peer hs table = client_direct peer" if "trust_of e r table (to_canonical peer) = None"
    using that by (simp add: resolve_def client_direct_def Let_def)
  show "resolve e h r peer hs table = \<lparr>ca_peer = to_canonical peer, ca_ip = ip, ca_trusted_peer = True\<rparr>"
    if "trust_of e r table (to_canonical peer) = Some TrustProxy \<and>
     forwarded_entries h hs = spoofed @ ip # hops \<and> trust_of e r table ip = None \<and>
     list_all (\<lambda>hop. trust_of e r table hop \<noteq> None) hops"
    using that forwarded_for_ip_last [of h hs spoofed ip hops e r table] by (simp add: resolve_def client_direct_def Let_def)
  show "to_canonical (ca_ip (resolve e h r peer hs table)) = ca_ip (resolve e h r peer hs table)"
    by (auto simp: resolve_def client_direct_def Let_def provider_header_ip_def header_ip_def
        dest: forwarded_for_ip_canonical parse_forwarded_ip_canonical
        split: option.splits trust.splits cdn_provider.splits)
qed

definition sample_net_env :: "32 word net_env" where
  "sample_net_env = \<lparr>ne_contains = (\<lambda>net ip. case ip of V4 a \<Rightarrow> drop_bit 24 a = net | V6 _ \<Rightarrow> False),
     ne_single = (\<lambda>_. None)\<rparr>"

definition sample_http_env :: http_env where
  "sample_http_env = \<lparr>hx_text_byte = (\<lambda>_. True), hx_value_byte = (\<lambda>_. True), hx_str_byte = (\<lambda>_. True)\<rparr>"

theorem client_ip_is_not_spoofable_witness:
  "ca_ip (resolve sample_net_env sample_http_env \<lparr>cr_trust_cdn = False, cr_trusted_proxies = [10]\<rparr> (V4 0x0a000001)
      [(''x-forwarded-for'', ''1.2.3.4, 9.9.9.9, 10.0.0.7'')] \<lparr>ct_exact = (\<lambda>_. None), ct_prefixes = []\<rparr>) =
    V4 0x09090909"
proof -
  let ?e = "sample_net_env" and ?h = "sample_http_env" and ?r = "\<lparr>cr_trust_cdn = False, cr_trusted_proxies = [10]\<rparr>"
  let ?hs = "[(''x-forwarded-for'', ''1.2.3.4, 9.9.9.9, 10.0.0.7'')]" and ?t = "\<lparr>ct_exact = (\<lambda>_. None), ct_prefixes = []\<rparr>"
  have "trust_of ?e ?r ?t (to_canonical (V4 0x0a000001)) = Some TrustProxy"
    "forwarded_entries ?h ?hs = [V4 0x01020304] @ V4 0x09090909 # [V4 0x0a000007]"
    "trust_of ?e ?r ?t (V4 0x09090909) = None"
    "list_all (\<lambda>hop. trust_of ?e ?r ?t hop \<noteq> None) [V4 0x0a000007]"
    by code_simp+
  then show ?thesis
    using client_ip_is_not_spoofable [of ?e ?r ?t "V4 0x0a000001" ?h ?hs "[V4 0x01020304]" "V4 0x09090909" "[V4 0x0a000007]"]
    by simp
qed

end
