(* ===== verification/Request_Limits.thy ===== *)
theory Request_Limits
  imports Client_Ip Proxy_Error Api_Error "HOL-Library.Multiset"
begin

text \<open>
  The limits on the size of a request body (\<open>proxy/http/body_limit.rs\<close>) and on the requests that a
  client has in flight (\<open>proxy/http/concurrency_limit.rs\<close>, with \<open>ConcurrencyLimit\<close> of \<open>policy.rs\<close>).

  A body is what its polls return.  The permits of the concurrency limiter are the keys of the
  guards that are out; \<open>DashMap\<close> locks one entry at a time and \<open>acquire\<close> and \<open>drop\<close> touch a single
  entry, so each of them is one step of the relation \<open>conc_step\<close>.
\<close>

section \<open>Body size\<close>

text \<open>\<open>header_number\<close> of \<open>compression.rs\<close>.\<close>

definition header_number :: "http_env \<Rightarrow> headers \<Rightarrow> string \<Rightarrow> nat option" where
  "header_number h hs name =
     (case get hs name of
        None \<Rightarrow> None
      | Some v \<Rightarrow> (case to_str h v of None \<Rightarrow> None | Some s \<Rightarrow> parse_u64 (trim s)))"

definition declared_too_large :: "http_env \<Rightarrow> headers \<Rightarrow> nat \<Rightarrow> bool" where
  "declared_too_large h hs limit \<longleftrightarrow> limit > 0 \<and>
     (case header_number h hs ''content-length'' of None \<Rightarrow> False | Some n \<Rightarrow> n > limit)"

text \<open>A frame of a body: data with its number of bytes, or trailers.  A poll is pending, ends the body,
  or gives a frame or an error.\<close>

datatype frame = DataFrame nat | TrailersFrame

datatype poll = Pending | BodyEnd | FrameOk frame | FrameErr "proxy_error option"

record limited_body =
  lb_remaining :: nat
  lb_exceeded :: bool

definition limited_poll_frame :: "limited_body \<Rightarrow> poll \<Rightarrow> poll \<times> limited_body" where
  "limited_poll_frame b inner =
     (case inner of
        Pending \<Rightarrow> (Pending, b)
      | _ \<Rightarrow>
          let length = (case inner of FrameOk (DataFrame n) \<Rightarrow> n | _ \<Rightarrow> 0)
          in if length > lb_remaining b
             then (FrameErr (Some PayloadTooLarge), b\<lparr>lb_exceeded := True\<rparr>)
             else (inner, b\<lparr>lb_remaining := lb_remaining b - length\<rparr>))"

text \<open>\<open>BodyLimit::apply\<close>: a limit of 0 leaves the body as it is.\<close>

definition body_limit_apply :: "nat \<Rightarrow> limited_body option" where
  "body_limit_apply limit =
     (if limit = 0 then None else Some \<lparr>lb_remaining = limit, lb_exceeded = False\<rparr>)"

definition body_limit_exceeded :: "limited_body option \<Rightarrow> bool" where
  "body_limit_exceeded b = (case b of None \<Rightarrow> False | Some lb \<Rightarrow> lb_exceeded lb)"

text \<open>What the reader of a wrapped body sees when the wrapped body gives these polls.\<close>

fun limited_polls :: "limited_body \<Rightarrow> poll list \<Rightarrow> poll list \<times> limited_body" where
  "limited_polls b [] = ([], b)"
| "limited_polls b (p # ps) =
     (let (r, b1) = limited_poll_frame b p; (rs, b2) = limited_polls b1 ps in (r # rs, b2))"

definition body_polls :: "nat \<Rightarrow> poll list \<Rightarrow> poll list \<times> bool" where
  "body_polls limit ps =
     (case body_limit_apply limit of
        None \<Rightarrow> (ps, body_limit_exceeded None)
      | Some b \<Rightarrow> (let (rs, b') = limited_polls b ps in (rs, body_limit_exceeded (Some b'))))"

fun poll_bytes :: "poll \<Rightarrow> nat" where
  "poll_bytes (FrameOk (DataFrame n)) = n"
| "poll_bytes _ = 0"

definition body_bytes :: "poll list \<Rightarrow> nat" where
  "body_bytes ps = sum_list (map poll_bytes ps)"

lemma limited_poll_frame_cases:
  "limited_poll_frame b p =
     (if poll_bytes p \<le> lb_remaining b then (p, b\<lparr>lb_remaining := lb_remaining b - poll_bytes p\<rparr>)
      else (FrameErr (Some PayloadTooLarge), b\<lparr>lb_exceeded := True\<rparr>))"
  by (cases p rule: poll_bytes.cases) (auto simp: limited_poll_frame_def Let_def)

lemma limited_polls_bytes: "body_bytes (fst (limited_polls b ps)) + lb_remaining (snd (limited_polls b ps)) = lb_remaining b"
proof (induction ps arbitrary: b)
  case (Cons p ps)
  let ?b = "b\<lparr>lb_remaining := lb_remaining b - poll_bytes p\<rparr>"
  show ?case
    using Cons.IH [of ?b] Cons.IH [of "b\<lparr>lb_exceeded := True\<rparr>"]
    by (simp add: body_bytes_def limited_poll_frame_cases case_prod_unfold Let_def add.assoc)
qed (simp add: body_bytes_def)

lemma limited_polls_exceeded_mono: "lb_exceeded b \<Longrightarrow> lb_exceeded (snd (limited_polls b ps))"
  by (induction ps arbitrary: b) (auto simp: limited_poll_frame_cases case_prod_unfold Let_def)

lemma limited_polls_within:
  "body_bytes ps \<le> lb_remaining b \<Longrightarrow>
     fst (limited_polls b ps) = ps \<and> lb_exceeded (snd (limited_polls b ps)) = lb_exceeded b"
  by (induction ps arbitrary: b) (auto simp: body_bytes_def limited_poll_frame_cases case_prod_unfold Let_def)

lemma limited_polls_over:
  "lb_remaining b < body_bytes ps \<Longrightarrow> lb_exceeded (snd (limited_polls b ps)) \<and>
     FrameErr (Some PayloadTooLarge) \<in> set (fst (limited_polls b ps))"
proof (induction ps arbitrary: b)
  case (Cons p ps)
  show ?case
  proof (cases "poll_bytes p \<le> lb_remaining b")
    case True
    then have "lb_remaining (b\<lparr>lb_remaining := lb_remaining b - poll_bytes p\<rparr>) < body_bytes ps"
      using Cons.prems by (simp add: body_bytes_def)
    from Cons.IH [OF this] True show ?thesis by (auto simp: limited_poll_frame_cases case_prod_unfold Let_def)
  next
    case False
    then show ?thesis
      using limited_polls_exceeded_mono [of "b\<lparr>lb_exceeded := True\<rparr>" ps]
      by (auto simp: limited_poll_frame_cases case_prod_unfold Let_def)
  qed
qed (simp add: body_bytes_def)

text \<open>C30: A body with a limit never hands more bytes on than the limit.  A body within the limit passes
  unchanged and is not reported; a larger one gives the reader the error of the limit and is
  reported.  Without a limit every body passes.\<close>

theorem body_limit_is_exact:
  "case body_polls limit ps of (rs, exceeded) \<Rightarrow>
     (if limit = 0 \<or> body_bytes ps \<le> limit then rs = ps \<and> \<not> exceeded
      else body_bytes rs \<le> limit \<and> exceeded \<and> FrameErr (Some PayloadTooLarge) \<in> set rs)"
proof (cases "limit = 0")
  case False
  let ?b = "\<lparr>lb_remaining = limit, lb_exceeded = False\<rparr>"
  have eq: "body_polls limit ps = (fst (limited_polls ?b ps), lb_exceeded (snd (limited_polls ?b ps)))"
    using False by (simp add: body_polls_def body_limit_apply_def body_limit_exceeded_def case_prod_unfold Let_def)
  show ?thesis
    unfolding eq using False limited_polls_within [of ps ?b] limited_polls_over [of ?b ps] limited_polls_bytes [of ?b ps]
    by simp
qed (simp add: body_polls_def body_limit_apply_def body_limit_exceeded_def)

section \<open>Concurrent requests\<close>

record concurrency_limit =
  cl_max :: nat
  cl_header :: "string option"

definition is_ascii_alphanumeric :: "char \<Rightarrow> bool" where
  "is_ascii_alphanumeric c \<longleftrightarrow> (let n = of_char c :: nat in
     48 \<le> n \<and> n \<le> 57 \<or> 65 \<le> n \<and> n \<le> 90 \<or> 97 \<le> n \<and> n \<le> 122)"

definition is_header_name :: "string \<Rightarrow> bool" where
  "is_header_name name \<longleftrightarrow> name \<noteq> [] \<and>
     list_all (\<lambda>b. is_ascii_alphanumeric b \<or> b \<in> set (''!#$%&'' @ [CHR 0x27] @ ''*+-.^_'' @ [CHR 0x60] @ ''|~'')) name"

definition concurrency_validate :: "concurrency_limit \<Rightarrow> unit result" where
  "concurrency_validate c =
     (case cl_header c of
        None \<Rightarrow> Inr ()
      | Some header \<Rightarrow> if is_header_name header then Inr () else Inl (InvalidHeaderName header))"

text \<open>The map of the requests in flight, by the key of the client.\<close>

type_synonym active_map = "string \<Rightarrow> nat option"

definition key_for :: "http_env \<Rightarrow> concurrency_limit \<Rightarrow> headers \<Rightarrow> ip_addr \<Rightarrow> string" where
  "key_for h c hs client =
     (case (case cl_header c of
              None \<Rightarrow> None
            | Some name \<Rightarrow>
                (case get hs (to_ascii_lowercase name) of
                   None \<Rightarrow> None
                 | Some v \<Rightarrow>
                     (case to_str h v of
                        None \<Rightarrow> None
                      | Some s \<Rightarrow> if trim s = [] then None else Some (trim s)))) of
        Some val \<Rightarrow> ''hdr:'' @ val
      | None \<Rightarrow> ''ip:'' @ fmt_ip (to_canonical client))"

text \<open>\<open>ConcurrencyLimiter::acquire\<close>: the entry is created before the check, as \<open>or_insert\<close> does.  The
  result is the key of the guard.\<close>

definition conc_acquire :: "http_env \<Rightarrow> concurrency_limit \<Rightarrow> active_map \<Rightarrow> headers \<Rightarrow> ip_addr \<Rightarrow>
    (proxy_error + string) \<times> active_map" where
  "conc_acquire h c active hs client =
     (let key = key_for h c hs client;
          entry = (case active key of None \<Rightarrow> 0 | Some n \<Rightarrow> n)
      in if entry \<ge> cl_max c then (Inl TooManyConcurrentRequests, active(key \<mapsto> entry))
         else (Inr key, active(key \<mapsto> entry + 1)))"

definition conc_drop :: "string \<Rightarrow> active_map \<Rightarrow> active_map" where
  "conc_drop key active =
     (case active key of
        None \<Rightarrow> active
      | Some n \<Rightarrow> if n \<le> 1 then active(key := None) else active(key \<mapsto> n - 1))"

text \<open>The limiter and the keys of the guards that are out.\<close>

record conc_state =
  cs_active :: active_map
  cs_guards :: "string multiset"

definition conc_start :: conc_state where
  "conc_start = \<lparr>cs_active = (\<lambda>_. None), cs_guards = {#}\<rparr>"

inductive conc_step :: "http_env \<Rightarrow> concurrency_limit \<Rightarrow> conc_state \<Rightarrow> conc_state \<Rightarrow> bool"
  for h :: http_env and c :: concurrency_limit where
  admitted: "conc_acquire h c (cs_active s) hs client = (Inr key, active) \<Longrightarrow>
    conc_step h c s \<lparr>cs_active = active, cs_guards = add_mset key (cs_guards s)\<rparr>"
| refused: "conc_acquire h c (cs_active s) hs client = (Inl err, active) \<Longrightarrow>
    conc_step h c s (s\<lparr>cs_active := active\<rparr>)"
| dropped: "key \<in># cs_guards s \<Longrightarrow>
    conc_step h c s \<lparr>cs_active = conc_drop key (cs_active s), cs_guards = cs_guards s - {#key#}\<rparr>"

inductive conc_reach :: "http_env \<Rightarrow> concurrency_limit \<Rightarrow> conc_state \<Rightarrow> bool"
  for h :: http_env and c :: concurrency_limit where
  start: "conc_reach h c conc_start"
| next_step: "conc_reach h c s \<Longrightarrow> conc_step h c s s' \<Longrightarrow> conc_reach h c s'"

text \<open>The entry of a key is the number of its guards, and there is no entry without a guard.\<close>

definition conc_inv :: "concurrency_limit \<Rightarrow> conc_state \<Rightarrow> bool" where
  "conc_inv c s \<longleftrightarrow> (\<forall>k.
     cs_active s k = (if count (cs_guards s) k = 0 then None else Some (count (cs_guards s) k)) \<and>
     count (cs_guards s) k \<le> cl_max c)"

lemma conc_inv_entry:
  "conc_inv c s \<Longrightarrow> (case cs_active s k of None \<Rightarrow> 0 | Some n \<Rightarrow> n) = count (cs_guards s) k"
  by (auto simp: conc_inv_def)

lemma conc_inv_step:
  assumes "conc_step h c s s'" and "conc_inv c s" and "0 < cl_max c"
  shows "conc_inv c s'"
  using assms(1)
proof cases
  case (admitted hs client key active)
  then have "count (cs_guards s) key < cl_max c" and "active = (cs_active s)(key \<mapsto> count (cs_guards s) key + 1)"
    using conc_inv_entry [OF assms(2), of "key_for h c hs client"]
    by (auto simp: conc_acquire_def Let_def split: if_splits)
  then show ?thesis using assms(2) admitted by (auto simp: conc_inv_def count_eq_zero_iff)
next
  case (refused hs client err active)
  let ?k = "key_for h c hs client"
  have "cl_max c \<le> count (cs_guards s) ?k" and "active = (cs_active s)(?k \<mapsto> count (cs_guards s) ?k)"
    using refused conc_inv_entry [OF assms(2), of ?k] by (auto simp: conc_acquire_def Let_def split: if_splits)
  moreover from this assms(3) have "?k \<in># cs_guards s" by (metis count_greater_zero_iff less_le_trans)
  ultimately have "active = cs_active s" using assms(2) by (auto simp: conc_inv_def fun_eq_iff count_eq_zero_iff)
  then show ?thesis using refused assms(2) by (simp add: conc_inv_def)
next
  case (dropped key)
  have "count (cs_guards s) key - Suc 0 \<le> cl_max c"
    using assms(2) by (simp add: conc_inv_def le_diff_conv le_SucI)
  then show ?thesis using dropped assms(2) by (auto simp: conc_inv_def conc_drop_def count_eq_zero_iff)
qed

lemma conc_reach_inv: "conc_reach h c s \<Longrightarrow> 0 < cl_max c \<Longrightarrow> conc_inv c s"
proof (induction rule: conc_reach.induct)
  case start
  then show ?case by (simp add: conc_start_def conc_inv_def)
next
  case (next_step s s')
  then show ?case using conc_inv_step by blast
qed

text \<open>C9: However requests of any clients start and end, a client never has more than the configured
  number of requests in flight; a request is refused exactly when its client has that many; and
  the limiter keeps no entry for a client that has none.\<close>

theorem concurrency_limit_is_exact:
  assumes "conc_reach h c s" and "0 < cl_max c"
  shows "count (cs_guards s) key \<le> cl_max c \<and>
    (fst (conc_acquire h c (cs_active s) hs client) =
       (if count (cs_guards s) (key_for h c hs client) = cl_max c then Inl TooManyConcurrentRequests
        else Inr (key_for h c hs client))) \<and>
    (cs_active s key \<noteq> None \<longleftrightarrow> key \<in># cs_guards s)"
proof -
  have inv: "conc_inv c s" by (rule conc_reach_inv [OF assms])
  then have le: "count (cs_guards s) k \<le> cl_max c" for k by (simp add: conc_inv_def)
  have "fst (conc_acquire h c (cs_active s) hs client) =
       (if count (cs_guards s) (key_for h c hs client) = cl_max c then Inl TooManyConcurrentRequests
        else Inr (key_for h c hs client))"
    using conc_inv_entry [OF inv, of "key_for h c hs client"] le [of "key_for h c hs client"]
    by (auto simp: conc_acquire_def Let_def)
  moreover have "cs_active s key \<noteq> None \<longleftrightarrow> key \<in># cs_guards s" using inv by (simp add: conc_inv_def not_in_iff)
  ultimately show ?thesis using le by blast
qed

theorem concurrency_limit_is_exact_witness:
  "fst (conc_acquire sample_http_env \<lparr>cl_max = 1, cl_header = None\<rparr> [''ip:0.0.0.1'' \<mapsto> 1] [] (V4 1)) =
     Inl TooManyConcurrentRequests"
proof -
  let ?c = "\<lparr>cl_max = 1, cl_header = None\<rparr>" and ?h = sample_http_env
  let ?s = "\<lparr>cs_active = [''ip:0.0.0.1'' \<mapsto> 1], cs_guards = {#''ip:0.0.0.1''#}\<rparr>"
  have key: "key_for ?h ?c [] (V4 1) = ''ip:0.0.0.1''" by code_simp
  have acq: "conc_acquire ?h ?c (cs_active conc_start) [] (V4 1) = (Inr ''ip:0.0.0.1'', [''ip:0.0.0.1'' \<mapsto> 1])"
    by (simp add: conc_acquire_def key Let_def conc_start_def del: One_nat_def)
  have "conc_step ?h ?c conc_start ?s"
    using conc_step.admitted [OF acq] by (simp add: conc_start_def)
  then have "conc_reach ?h ?c ?s" by (rule conc_reach.next_step [OF conc_reach.start])
  from concurrency_limit_is_exact [OF this, of "''ip:0.0.0.1''" "[]" "V4 1"] key show ?thesis by (simp del: One_nat_def)
qed

end
