(* ===== verification/Rate.thy ===== *)
theory Rate
  imports Client_Ip Registry F64
begin

text \<open>
  The rate limit of a client: \<open>RateLimit\<close> of \<open>policy.rs\<close>, the limiter and its registry of
  \<open>proxy/http/rate_limit.rs\<close>, and the counts that the nodes of a cluster share of
  \<open>proxy/http/rate_share.rs\<close>.

  The token bucket of a single node is the \<open>governor\<close> crate, the parameter \<^emph>\<open>governor_env\<close>.  A hash map
  of counts is an association list with distinct keys; its order stands for the order in which the
  map iterates.  Times in milliseconds and window numbers are natural numbers, and an \<open>f64\<close> is the
  rational number it stands for.
\<close>

section \<open>Configuration\<close>

datatype rate_period = Second | Minute | Hour

definition period_duration :: "rate_period \<Rightarrow> duration" where
  "period_duration p = (case p of Second \<Rightarrow> 10 ^ 9 | Minute \<Rightarrow> 60 * 10 ^ 9 | Hour \<Rightarrow> 3600 * 10 ^ 9)"

definition period_as_str :: "rate_period \<Rightarrow> string" where
  "period_as_str p = (case p of Second \<Rightarrow> ''second'' | Minute \<Rightarrow> ''minute'' | Hour \<Rightarrow> ''hour'')"

record rate_limit =
  rt_requests :: nat
  rt_per :: rate_period
  rt_burst :: nat

definition rate_is_disabled :: "rate_limit \<Rightarrow> bool" where
  "rate_is_disabled c \<longleftrightarrow> rt_requests c = 0"

definition replenish_interval :: "rate_limit \<Rightarrow> duration option" where
  "replenish_interval c =
     (if rt_requests c > 0 then Some (period_duration (rt_per c) div rt_requests c) else None)"

definition burst_size :: "rate_limit \<Rightarrow> nat" where
  "burst_size c = (if rt_burst c = 0 then rt_requests c else rt_burst c)"

section \<open>Window counts\<close>

record window_count =
  wc_window :: nat
  wc_current :: nat
  wc_previous :: nat

definition window_count_default :: window_count where
  "window_count_default = \<lparr>wc_window = 0, wc_current = 0, wc_previous = 0\<rparr>"

definition wc_at :: "window_count \<Rightarrow> nat \<Rightarrow> window_count" where
  "wc_at c window =
     (if window \<le> wc_window c then c\<lparr>wc_window := window\<rparr>
      else if window - wc_window c = 1 then \<lparr>wc_window = window, wc_current = 0, wc_previous = wc_current c\<rparr>
      else window_count_default\<lparr>wc_window := window\<rparr>)"

definition wc_estimate :: "window_count \<Rightarrow> nat \<Rightarrow> rat \<Rightarrow> rat" where
  "wc_estimate c window elapsed =
     (let count = wc_at c window in
      f64_add (f64_mul (f64_of_nat (wc_previous count)) (f64_sub 1 elapsed)) (f64_of_nat (wc_current count)))"

definition wc_total :: "window_count \<Rightarrow> nat" where
  "wc_total c = wc_current c + wc_previous c"

definition wc_add :: "window_count \<Rightarrow> window_count \<Rightarrow> window_count" where
  "wc_add c other =
     (let other = wc_at other (wc_window c) in
      c\<lparr>wc_current := sat_add_u32 (wc_current c) (wc_current other),
        wc_previous := sat_add_u32 (wc_previous c) (wc_previous other)\<rparr>)"

type_synonym counts = "(ip_addr \<times> window_count) list"

record limiter_counts =
  lc_key :: string
  lc_period_ms :: nat
  lc_counts :: counts

record node_counts =
  nc_published_at :: nat
  nc_limiters :: "limiter_counts list"

section \<open>The exchange between the nodes\<close>

definition MAX_PUBLISHED_COUNTS :: nat where "MAX_PUBLISHED_COUNTS = 2048"
definition SHARED_PERIOD_INTERVALS :: nat where "SHARED_PERIOD_INTERVALS = 10"
definition MIN_INTERVAL :: duration where "MIN_INTERVAL = 100 * 10 ^ 6"
definition MIN_FRESHNESS :: duration where "MIN_FRESHNESS = 2 * 10 ^ 9"

record rate_share =
  rs_interval :: duration
  rs_nodes :: nat
  rs_connected :: bool

definition rate_share_new :: "duration \<Rightarrow> rate_share" where
  "rate_share_new interval = \<lparr>rs_interval = max interval MIN_INTERVAL, rs_nodes = 1, rs_connected = False\<rparr>"

definition set_state :: "rate_share \<Rightarrow> nat option \<Rightarrow> bool \<Rightarrow> rate_share" where
  "set_state s nodes conn =
     (case nodes of None \<Rightarrow> s | Some n \<Rightarrow> s\<lparr>rs_nodes := max n 1\<rparr>)\<lparr>rs_connected := conn\<rparr>"

definition oldest_fresh :: "rate_share \<Rightarrow> nat \<Rightarrow> nat" where
  "oldest_fresh s now_ms = now_ms - as_millis (max (rs_interval s * 3) MIN_FRESHNESS)"

definition div_ceil :: "nat \<Rightarrow> nat \<Rightarrow> nat" where
  "div_ceil a b = (if a mod b = 0 then a div b else a div b + 1)"

definition share_quota :: "rate_share \<Rightarrow> nat \<Rightarrow> duration \<Rightarrow> nat \<times> bool" where
  "share_quota s limit period =
     (if rs_connected s \<and> period \<ge> rs_interval s * SHARED_PERIOD_INTERVALS then (limit, True)
      else (div_ceil limit (max (min (rs_nodes s) u32_max) 1), False))"

section \<open>The counts of a limiter\<close>

record shared_window =
  sw_limit :: nat
  sw_period_ms :: nat
  sw_local :: counts
  sw_remote :: counts

definition shared_window_new :: "nat \<Rightarrow> duration \<Rightarrow> shared_window" where
  "shared_window_new limit period =
     \<lparr>sw_limit = limit, sw_period_ms = max (as_millis period) 1, sw_local = [], sw_remote = []\<rparr>"

definition window_position :: "shared_window \<Rightarrow> nat \<Rightarrow> nat \<times> rat" where
  "window_position w now_ms =
     (now_ms div sw_period_ms w, f64_div (f64_of_nat (now_ms mod sw_period_ms w)) (f64_of_nat (sw_period_ms w)))"

text \<open>\<open>Duration::as_secs_f64\<close> and \<open>Duration::mul_f64\<close> of the standard library.\<close>

definition as_secs_f64 :: "duration \<Rightarrow> rat" where
  "as_secs_f64 d = f64_add (f64_of_nat (d div 10 ^ 9)) (f64_div (f64_of_nat (d mod 10 ^ 9)) (f64_of_nat (10 ^ 9)))"

definition duration_mul_f64 :: "duration \<Rightarrow> rat \<Rightarrow> duration" where
  "duration_mul_f64 d x = nat (round_half_even (f64_mul x (as_secs_f64 d) * 10 ^ 9))"

definition count_entry :: "counts \<Rightarrow> ip_addr \<Rightarrow> window_count" where
  "count_entry cs ip = (case map_of cs ip of None \<Rightarrow> window_count_default | Some c \<Rightarrow> c)"

text \<open>The result is \<open>None\<close> for an admitted request, and the time to wait otherwise.\<close>

definition check_at ::
    "rate_share \<Rightarrow> shared_window \<Rightarrow> ip_addr \<Rightarrow> nat \<Rightarrow> rat \<Rightarrow> duration option \<times> shared_window" where
  "check_at s w ip window elapsed =
     (let period = from_millis (sw_period_ms w);
          (quota, shared) = share_quota s (sw_limit w) period;
          remote = (if shared
                    then (case map_of (sw_remote w) ip of None \<Rightarrow> 0 | Some c \<Rightarrow> wc_estimate c window elapsed)
                    else 0);
          count = wc_at (count_entry (sw_local w) ip) window
      in if f64_add (wc_estimate count window elapsed) remote \<ge> f64_of_nat quota
         then (Some (duration_mul_f64 period (f64_sub 1 elapsed)),
               w\<lparr>sw_local := AList.update ip count (sw_local w)\<rparr>)
         else (None,
               w\<lparr>sw_local := AList.update ip (count\<lparr>wc_current := sat_add_u32 (wc_current count) 1\<rparr>) (sw_local w)\<rparr>))"

definition shared_check :: "rate_share \<Rightarrow> shared_window \<Rightarrow> ip_addr \<Rightarrow> nat \<Rightarrow> duration option \<times> shared_window" where
  "shared_check s w ip now_ms = (let (window, elapsed) = window_position w now_ms in check_at s w ip window elapsed)"

definition local_counts :: "shared_window \<Rightarrow> nat \<Rightarrow> counts \<times> shared_window" where
  "local_counts w window =
     (let kept = filter (\<lambda>(_, c). wc_total c > 0) (map (\<lambda>(ip, c). (ip, wc_at c window)) (sw_local w))
      in (kept, w\<lparr>sw_local := kept\<rparr>))"

text \<open>\<open>collect\<close>: the largest counts of all limiters.  The source sorts with an unstable sort; the order
  of equal totals is the one of the list.\<close>

definition all_counts :: "shared_window list \<Rightarrow> nat \<Rightarrow> (nat \<times> ip_addr \<times> window_count) list" where
  "all_counts ws now_ms =
     concat (map (\<lambda>(i, w). map (Pair i) (fst (local_counts w (fst (window_position w now_ms))))) (List.enumerate 0 ws))"

definition published :: "shared_window list \<Rightarrow> nat \<Rightarrow> (nat \<times> ip_addr \<times> window_count) list" where
  "published ws now_ms =
     take MAX_PUBLISHED_COUNTS (sort_key (\<lambda>(_, _, c). - int (wc_total c)) (all_counts ws now_ms))"

definition collect :: "(string \<times> shared_window) list \<Rightarrow> nat \<Rightarrow> node_counts \<times> (string \<times> shared_window) list" where
  "collect windows now_ms =
     (let pub = published (map snd windows) now_ms;
          limiters = map (\<lambda>(i, (key, w)). \<lparr>lc_key = key, lc_period_ms = sw_period_ms w,
              lc_counts = map snd (filter (\<lambda>(j, _). j = i) pub)\<rparr>) (List.enumerate 0 windows)
      in (\<lparr>nc_published_at = now_ms, nc_limiters = filter (\<lambda>l. lc_counts l \<noteq> []) limiters\<rparr>,
          map (\<lambda>(key, w). (key, snd (local_counts w (fst (window_position w now_ms))))) windows))"

definition merge_count :: "nat \<Rightarrow> ip_addr \<times> window_count \<Rightarrow> counts \<Rightarrow> counts" where
  "merge_count current client merged =
     (let entry = (case map_of merged (fst client) of
            None \<Rightarrow> window_count_default\<lparr>wc_window := current\<rparr>
          | Some c \<Rightarrow> c)
      in AList.update (fst client) (wc_add entry (snd client)) merged)"

definition remote_counts :: "string \<Rightarrow> shared_window \<Rightarrow> node_counts list \<Rightarrow> nat \<Rightarrow> counts" where
  "remote_counts key w remote oldest =
     concat (map lc_counts
       (filter (\<lambda>l. lc_key l = key \<and> lc_period_ms l = sw_period_ms w)
         (concat (map nc_limiters (filter (\<lambda>n. nc_published_at n \<ge> oldest) remote)))))"

definition apply_remote ::
    "(string \<times> shared_window) list \<Rightarrow> node_counts list \<Rightarrow> nat \<Rightarrow> nat \<Rightarrow> (string \<times> shared_window) list" where
  "apply_remote windows remote oldest now_ms =
     map (\<lambda>(key, w).
       (key, w\<lparr>sw_remote := fold (merge_count (fst (window_position w now_ms))) (remote_counts key w remote oldest) []\<rparr>))
       windows"

section \<open>The limiter and its registry\<close>

text \<open>
  What the limiter uses of the \<open>governor\<close> crate: a quota for a period (there is none for the period 0)
  with a burst, a limiter for a quota, and the check of a key, which gives the time to wait.
\<close>

record ('q, 'g) governor_env =
  gv_with_period :: "duration \<Rightarrow> 'q option"
  gv_allow_burst :: "nat \<Rightarrow> 'q \<Rightarrow> 'q"
  gv_keyed :: "'q \<Rightarrow> 'g"
  gv_check_key :: "'g \<Rightarrow> ip_addr \<Rightarrow> instant \<Rightarrow> duration option \<times> 'g"

record 'g client_rate_limiter =
  rl_config :: rate_limit
  rl_limiter :: 'g
  rl_shared :: "shared_window option"

definition limiter_quota :: "('q, 'g) governor_env \<Rightarrow> rate_limit \<Rightarrow> 'q option" where
  "limiter_quota e c =
     (case replenish_interval c of
        None \<Rightarrow> None
      | Some i \<Rightarrow>
          (case gv_with_period e i of
             None \<Rightarrow> None
           | Some q \<Rightarrow> if burst_size c = 0 then None else Some (gv_allow_burst e (burst_size c) q)))"

definition rate_check ::
    "('q, 'g) governor_env \<Rightarrow> rate_share \<Rightarrow> 'g client_rate_limiter \<Rightarrow> ip_addr \<Rightarrow> instant \<Rightarrow> nat \<Rightarrow>
     duration option \<times> 'g client_rate_limiter" where
  "rate_check e s l ip now now_ms =
     (let ip = canonical_client_ip ip in
      case gv_check_key e (rl_limiter l) ip now of
        (Some wait, g) \<Rightarrow> (Some wait, l\<lparr>rl_limiter := g\<rparr>)
      | (None, g) \<Rightarrow>
          (case rl_shared l of
             None \<Rightarrow> (None, l\<lparr>rl_limiter := g\<rparr>)
           | Some w \<Rightarrow>
               (let (r, w') = shared_check s w ip now_ms in (r, l\<lparr>rl_limiter := g, rl_shared := Some w'\<rparr>))))"

text \<open>\<open>LimiterRegistry::limiter\<close> over the weak registry: the limiters live on a heap.\<close>

type_synonym limiter_key = "string \<times> nat option"

record 'g limiter_world =
  lw_entries :: "limiter_key registry"
  lw_heap :: "nat \<Rightarrow> 'g client_rate_limiter"
  lw_next :: nat
  lw_sharing :: bool

definition limiter_reusable :: "'g limiter_world \<Rightarrow> rate_limit \<Rightarrow> nat \<Rightarrow> bool" where
  "limiter_reusable w c a \<longleftrightarrow> rl_config (lw_heap w a) = c \<and> (rl_shared (lw_heap w a) \<noteq> None) = lw_sharing w"

definition new_limiter :: "('q, 'g) governor_env \<Rightarrow> bool \<Rightarrow> rate_limit \<Rightarrow> 'q \<Rightarrow> 'g client_rate_limiter" where
  "new_limiter e sharing c q =
     \<lparr>rl_config = c, rl_limiter = gv_keyed e q,
      rl_shared = (if sharing
        then Some (shared_window_new (max (burst_size c) (rt_requests c)) (period_duration (rt_per c))) else None)\<rparr>"

definition limiter ::
    "('q, 'g) governor_env \<Rightarrow> (nat \<Rightarrow> bool) \<Rightarrow> 'g limiter_world \<Rightarrow> limiter_key \<Rightarrow> rate_limit \<Rightarrow>
     nat option \<times> 'g limiter_world" where
  "limiter e alive w key c =
     (case limiter_quota e c of
        None \<Rightarrow> (None, w)
      | Some q \<Rightarrow>
          let (a, created, entries) =
                registry_get_or_create alive (lw_entries w) key (limiter_reusable w c) (lw_next w);
              w1 = w\<lparr>lw_entries := entries\<rparr>
          in if created
             then (Some a, w1\<lparr>lw_heap := (lw_heap w)(a := new_limiter e (lw_sharing w) c q), lw_next := Suc (lw_next w)\<rparr>)
             else (Some a, w1))"

section \<open>What the counts mean\<close>

text \<open>
  The log of the requests that a limiter admitted: the client and the window of each.  \<open>log_count\<close> is
  the window count that a client should have.
\<close>

type_synonym rate_log = "(ip_addr \<times> nat) list"

definition log_count :: "rate_log \<Rightarrow> ip_addr \<Rightarrow> nat \<Rightarrow> window_count" where
  "log_count lg ip v =
     \<lparr>wc_window = v, wc_current = count_list lg (ip, v),
      wc_previous = (if v = 0 then 0 else count_list lg (ip, v - 1))\<rparr>"

record rate_run =
  rr_window :: shared_window
  rr_log :: rate_log
  rr_now :: nat

text \<open>The steps of a limiter as time goes on: requests, the publication of its counts and the arrival
  of the counts of other nodes, each under any state of the exchange whose quota is at most \<open>q\<close>.\<close>

inductive rate_step :: "nat \<Rightarrow> rate_run \<Rightarrow> rate_run \<Rightarrow> bool" for q :: nat where
  admitted: "rr_now r \<le> t \<Longrightarrow> fst (share_quota s (sw_limit w) (from_millis (sw_period_ms w))) \<le> q \<Longrightarrow>
    rr_window r = w \<Longrightarrow> shared_check s w ip t = (None, w') \<Longrightarrow>
    rate_step q r \<lparr>rr_window = w', rr_log = (ip, fst (window_position w t)) # rr_log r, rr_now = t\<rparr>"
| refused: "rr_now r \<le> t \<Longrightarrow> rr_window r = w \<Longrightarrow> shared_check s w ip t = (Some wait, w') \<Longrightarrow>
    rate_step q r \<lparr>rr_window = w', rr_log = rr_log r, rr_now = t\<rparr>"
| published: "rr_now r \<le> t \<Longrightarrow> rr_window r = w \<Longrightarrow> local_counts w (fst (window_position w t)) = (cs, w') \<Longrightarrow>
    rate_step q r \<lparr>rr_window = w', rr_log = rr_log r, rr_now = t\<rparr>"
| merged: "apply_remote [(key, rr_window r)] remote oldest t = [(key, w')] \<Longrightarrow>
    rate_step q r (r\<lparr>rr_window := w'\<rparr>)"

inductive rate_reach :: "nat \<Rightarrow> nat \<Rightarrow> rate_period \<Rightarrow> rate_run \<Rightarrow> bool" for q limit :: nat and per :: rate_period where
  start: "rate_reach q limit per \<lparr>rr_window = shared_window_new limit (period_duration per), rr_log = [], rr_now = t\<rparr>"
| next_step: "rate_reach q limit per r \<Longrightarrow> rate_step q r r' \<Longrightarrow> rate_reach q limit per r'"

definition run_window :: "rate_run \<Rightarrow> nat" where
  "run_window r = fst (window_position (rr_window r) (rr_now r))"

definition rate_inv :: "nat \<Rightarrow> rate_run \<Rightarrow> bool" where
  "rate_inv q r \<longleftrightarrow> 0 < sw_period_ms (rr_window r) \<and> sw_period_ms (rr_window r) < 2 ^ 53 \<and> distinct (map fst (sw_local (rr_window r))) \<and>
     (\<forall>(ip, v) \<in> set (rr_log r). v \<le> run_window r) \<and>
     (\<forall>ip v. run_window r \<le> v \<longrightarrow> wc_at (count_entry (sw_local (rr_window r)) ip) v = log_count (rr_log r) ip v) \<and>
     (\<forall>ip v. count_list (rr_log r) (ip, v) \<le> q)"

lemma wc_window_at [simp]: "wc_window (wc_at c v) = v"
  by (simp add: wc_at_def window_count_default_def)

lemma wc_at_same [simp]: "wc_window c = v \<Longrightarrow> wc_at c v = c"
  by (simp add: wc_at_def)

lemma count_list_0: "x \<notin> set xs \<Longrightarrow> count_list xs x = 0"
  by (simp add: count_list_0_iff)

lemma log_count_at:
  assumes "\<forall>(ip, x) \<in> set lg. x \<le> w" and "w \<le> v"
  shows "wc_at (log_count lg ip w) v = log_count lg ip v"
proof -
  have zero: "count_list lg (ip, x) = 0" if "w < x" for x
    using assms(1) that by (intro count_list_0) auto
  consider "v = w" | "v = Suc w" | "Suc w < v" using assms(2) by linarith
  then show ?thesis
    by cases (auto simp: wc_at_def log_count_def window_count_default_def zero)
qed

lemma wc_at_empty: "wc_current c = 0 \<Longrightarrow> wc_previous c = 0 \<Longrightarrow>
    wc_at c v = \<lparr>wc_window = v, wc_current = 0, wc_previous = 0\<rparr>"
  by (simp add: wc_at_def window_count_default_def)

lemma count_entry_update:
  "count_entry (AList.update k c cs) ip = (if ip = k then c else count_entry cs ip)"
  by (simp add: count_entry_def update_conv')

lemma window_position_mono: "t \<le> t' \<Longrightarrow> fst (window_position w t) \<le> fst (window_position w t')"
  by (simp add: window_position_def div_le_mono)

lemma elapsed_bounds:
  assumes "0 < sw_period_ms w" and "sw_period_ms w < 2 ^ 53"
  shows "0 \<le> snd (window_position w t)" and "snd (window_position w t) \<le> 1"
proof -
  let ?m = "t mod sw_period_ms w" and ?p = "sw_period_ms w"
  have m: "?m < ?p" using assms(1) by simp
  then have e: "snd (window_position w t) = f64_round (of_nat ?m / of_nat ?p)"
    using assms(2) by (simp add: window_position_def f64_div_def f64_of_nat_exact)
  have q: "0 \<le> (of_nat ?m / of_nat ?p :: rat)" "of_nat ?m / of_nat ?p \<le> (1 :: rat)"
    using m by (simp_all add: divide_le_eq)
  show "0 \<le> snd (window_position w t)" unfolding e using f64_round_ge_nat [of 0] q(1) by simp
  show "snd (window_position w t) \<le> 1" unfolding e by (rule f64_round_le_1 [OF q])
qed

lemma f64_of_nat_nonneg [simp]: "0 \<le> f64_of_nat n"
  using f64_round_ge_nat [of 0 "of_nat n"] by (simp add: f64_of_nat_def)

lemma wc_estimate_ge:
  assumes "elapsed \<le> 1" and "n \<le> wc_current (wc_at c v)" and "n < 2 ^ 53"
  shows "of_nat n \<le> wc_estimate c v elapsed"
proof -
  let ?c = "wc_at c v"
  have "0 \<le> f64_sub 1 elapsed" using f64_round_ge_nat [of 0 "1 - elapsed"] assms(1) by (simp add: f64_sub_def)
  then have "0 \<le> f64_mul (f64_of_nat (wc_previous ?c)) (f64_sub 1 elapsed)"
    using f64_round_ge_nat [of 0] by (simp add: f64_mul_def)
  moreover have "of_nat n \<le> f64_of_nat (wc_current ?c)"
    unfolding f64_of_nat_def using assms(2,3) by (intro f64_round_ge_nat) simp_all
  ultimately show ?thesis
    unfolding wc_estimate_def Let_def f64_add_def using assms(3) by (intro f64_round_ge_nat) linarith+
qed

section \<open>The counts of a running limiter\<close>

lemma div_ceil_bounds:
  assumes "0 < n"
  shows "a \<le> n * div_ceil a n" and "n * div_ceil a n < a + n"
proof -
  have d: "n * (a div n) + a mod n = a" and m: "a mod n < n" using assms by simp_all
  have "a \<le> n * div_ceil a n \<and> n * div_ceil a n < a + n"
  proof (cases "a mod n = 0")
    case True
    then have "n * div_ceil a n = a" using d by (simp add: div_ceil_def)
    then show ?thesis using assms by simp
  next
    case False
    then have "n * div_ceil a n = n * (a div n) + n" by (simp add: div_ceil_def)
    then show ?thesis using d m False by linarith
  qed
  then show "a \<le> n * div_ceil a n" and "n * div_ceil a n < a + n" by blast+
qed

lemma check_at_admitted:
  assumes "check_at s w ip v elapsed = (None, w')" and "elapsed \<le> 1"
    and "fst (share_quota s (sw_limit w) (from_millis (sw_period_ms w))) \<le> q" and "q \<le> u32_max"
  defines "c \<equiv> wc_at (count_entry (sw_local w) ip) v"
  shows "wc_current c < q"
    and "w' = w\<lparr>sw_local := AList.update ip (c\<lparr>wc_current := wc_current c + 1\<rparr>) (sw_local w)\<rparr>"
proof -
  obtain quota shared where qs: "share_quota s (sw_limit w) (from_millis (sw_period_ms w)) = (quota, shared)"
    by fastforce
  define remote where "remote = (if shared
      then (case map_of (sw_remote w) ip of None \<Rightarrow> 0 | Some c \<Rightarrow> wc_estimate c v elapsed) else 0)"
  have remote: "0 \<le> remote"
    using wc_estimate_ge [OF assms(2), of 0] by (auto simp: remote_def split: option.splits)
  have quota: "quota \<le> q" using assms(3) qs by simp
  have q53: "q < 2 ^ 53" using assms(4) by (simp add: u32_max_def)
  have admit: "f64_add (wc_estimate c v elapsed) remote < f64_of_nat quota"
      "w' = w\<lparr>sw_local := AList.update ip (c\<lparr>wc_current := sat_add_u32 (wc_current c) 1\<rparr>) (sw_local w)\<rparr>"
    using assms(1) qs by (auto simp: check_at_def Let_def c_def remote_def split: if_splits)
  have "wc_current c < quota"
  proof (rule ccontr)
    assume "\<not> wc_current c < quota"
    then have "of_nat quota \<le> wc_estimate c v elapsed"
      using q53 quota by (intro wc_estimate_ge [OF assms(2)]) (simp_all add: c_def)
    then have "of_nat quota \<le> f64_add (wc_estimate c v elapsed) remote"
      unfolding f64_add_def using remote q53 quota by (intro f64_round_ge_nat) linarith+
    then show False using admit(1) q53 quota by (simp add: f64_of_nat_exact)
  qed
  then show "wc_current c < q" using quota by simp
  then show "w' = w\<lparr>sw_local := AList.update ip (c\<lparr>wc_current := wc_current c + 1\<rparr>) (sw_local w)\<rparr>"
    using admit(2) assms(4) by (simp add: sat_add_u32_def)
qed

lemma check_at_refused:
  "check_at s w ip v elapsed = (Some d, w') \<Longrightarrow>
     w' = w\<lparr>sw_local := AList.update ip (wc_at (count_entry (sw_local w) ip) v) (sw_local w)\<rparr>"
  by (auto simp: check_at_def Let_def split: prod.splits if_splits)

text \<open>A new count of one client, taken at the window \<open>v\<close>, keeps the meaning of all counts.\<close>

lemma counts_mean_update:
  assumes "\<And>ip u. v0 \<le> u \<Longrightarrow> wc_at (count_entry cs ip) u = log_count lg ip u" and "v0 \<le> v"
    and "\<forall>(ip, x) \<in> set lg'. x \<le> v" and "c = log_count lg' k v"
    and "\<And>ip u. ip \<noteq> k \<Longrightarrow> log_count lg' ip u = log_count lg ip u"
  shows "v \<le> u \<Longrightarrow> wc_at (count_entry (AList.update k c cs) ip) u = log_count lg' ip u"
  using assms log_count_at [OF assms(3), of u k] by (simp add: count_entry_update)

lemma rate_inv_admitted:
  assumes "rate_inv q r" and "rr_now r \<le> t" and "q \<le> u32_max"
    and "fst (share_quota s (sw_limit (rr_window r)) (from_millis (sw_period_ms (rr_window r)))) \<le> q"
    and "shared_check s (rr_window r) ip t = (None, w')"
  shows "rate_inv q \<lparr>rr_window = w', rr_log = (ip, fst (window_position (rr_window r) t)) # rr_log r, rr_now = t\<rparr>"
proof -
  let ?w = "rr_window r"
  obtain v elapsed where pos: "window_position ?w t = (v, elapsed)" by fastforce
  let ?c = "wc_at (count_entry (sw_local ?w) ip) v" and ?lg = "(ip, v) # rr_log r"
  have inv: "0 < sw_period_ms ?w" "sw_period_ms ?w < 2 ^ 53" "distinct (map fst (sw_local ?w))"
      "\<forall>(ip, x) \<in> set (rr_log r). x \<le> run_window r"
      "\<And>ip u. run_window r \<le> u \<Longrightarrow> wc_at (count_entry (sw_local ?w) ip) u = log_count (rr_log r) ip u"
      "\<And>ip u. count_list (rr_log r) (ip, u) \<le> q"
    using assms(1) by (auto simp: rate_inv_def)
  have v: "run_window r \<le> v" using window_position_mono [OF assms(2), of ?w] pos by (simp add: run_window_def)
  have "elapsed \<le> 1" using elapsed_bounds(2) [OF inv(1,2), of t] pos by simp
  moreover have "check_at s ?w ip v elapsed = (None, w')" using assms(5) pos by (simp add: shared_check_def)
  ultimately have adm: "wc_current ?c < q"
      "w' = ?w\<lparr>sw_local := AList.update ip (?c\<lparr>wc_current := wc_current ?c + 1\<rparr>) (sw_local ?w)\<rparr>"
    using check_at_admitted assms(3,4) by blast+
  have c: "?c = log_count (rr_log r) ip v" by (rule inv(5) [OF v])
  have le: "\<forall>(ip, x) \<in> set ?lg. x \<le> v" using inv(4) v by fastforce
  have w': "run_window \<lparr>rr_window = w', rr_log = ?lg, rr_now = t\<rparr> = v"
    using pos adm(2) by (simp add: run_window_def window_position_def)
  have "wc_at (count_entry (sw_local w') ip') u = log_count ?lg ip' u" if "v \<le> u" for ip' u
    unfolding adm(2) using that
    by (simp, intro counts_mean_update [OF inv(5) v le]) (auto simp: c log_count_def)
  moreover have "count_list ?lg (ip', u) \<le> q" for ip' u
    using adm(1) inv(6) [of ip' u] by (auto simp: c log_count_def)
  ultimately show ?thesis
    using inv(1-3) le w' pos adm(2) by (auto simp: rate_inv_def distinct_update)
qed

lemma rate_inv_refused:
  assumes "rate_inv q r" and "rr_now r \<le> t" and "shared_check s (rr_window r) ip t = (Some d, w')"
  shows "rate_inv q \<lparr>rr_window = w', rr_log = rr_log r, rr_now = t\<rparr>"
proof -
  let ?w = "rr_window r"
  obtain v elapsed where pos: "window_position ?w t = (v, elapsed)" by fastforce
  have v: "run_window r \<le> v" using window_position_mono [OF assms(2), of ?w] pos by (simp add: run_window_def)
  have inv: "\<And>ip u. run_window r \<le> u \<Longrightarrow> wc_at (count_entry (sw_local ?w) ip) u = log_count (rr_log r) ip u"
      "\<forall>(ip, x) \<in> set (rr_log r). x \<le> run_window r"
    using assms(1) by (auto simp: rate_inv_def)
  have le: "\<forall>(ip, x) \<in> set (rr_log r). x \<le> v" using inv(2) v by fastforce
  have w': "w' = ?w\<lparr>sw_local := AList.update ip (wc_at (count_entry (sw_local ?w) ip) v) (sw_local ?w)\<rparr>"
    using check_at_refused assms(3) pos by (simp add: shared_check_def)
  have "wc_at (count_entry (sw_local w') ip') u = log_count (rr_log r) ip' u" if "v \<le> u" for ip' u
    unfolding w' using that by (simp, intro counts_mean_update [OF inv(1) v le]) (auto simp: inv(1) [OF v])
  then show ?thesis
    using assms(1) le pos w' by (auto simp: rate_inv_def run_window_def window_position_def distinct_update)
qed

lemma local_counts_entry:
  assumes "distinct (map fst (sw_local w))" and "local_counts w v = (cs, w')"
  shows "count_entry (sw_local w') ip =
    (if wc_total (wc_at (count_entry (sw_local w) ip) v) > 0 then wc_at (count_entry (sw_local w) ip) v
     else window_count_default)"
proof -
  have "map_of (filter (\<lambda>(_, c). wc_total c > 0) (map (\<lambda>(ip, c). (ip, wc_at c v)) xs)) ip =
      (case map_of xs ip of None \<Rightarrow> None
       | Some c \<Rightarrow> if wc_total (wc_at c v) > 0 then Some (wc_at c v) else None)"
    if "distinct (map fst xs)" for xs :: counts
    using that
  proof (induction xs)
    case (Cons x xs)
    obtain i c where x: "x = (i, c)" by fastforce
    have "map_of xs ip = None" if "i = ip" using Cons.prems x that by (simp add: map_of_eq_None_iff)
    then show ?case using Cons.IH Cons.prems x by (cases "i = ip") simp_all
  qed simp
  from this [OF assms(1)] show ?thesis
    using assms(2) wc_at_empty [of window_count_default v]
    by (auto simp: local_counts_def Let_def count_entry_def wc_total_def window_count_default_def split: option.splits)
qed

lemma rate_inv_published:
  assumes "rate_inv q r" and "rr_now r \<le> t"
    and "local_counts (rr_window r) (fst (window_position (rr_window r) t)) = (cs, w')"
  shows "rate_inv q \<lparr>rr_window = w', rr_log = rr_log r, rr_now = t\<rparr>"
proof -
  let ?w = "rr_window r"
  let ?v = "fst (window_position ?w t)"
  have v: "run_window r \<le> ?v" using window_position_mono [OF assms(2), of ?w] by (simp add: run_window_def)
  have inv: "distinct (map fst (sw_local ?w))"
      "\<And>ip u. run_window r \<le> u \<Longrightarrow> wc_at (count_entry (sw_local ?w) ip) u = log_count (rr_log r) ip u"
      "\<forall>(ip, x) \<in> set (rr_log r). x \<le> run_window r"
    using assms(1) by (auto simp: rate_inv_def)
  have le: "\<forall>(ip, x) \<in> set (rr_log r). x \<le> ?v" using inv(3) v by fastforce
  have "wc_at (count_entry (sw_local w') ip) u = log_count (rr_log r) ip u" if "?v \<le> u" for ip u
  proof (cases "wc_total (log_count (rr_log r) ip ?v) > 0")
    case True
    then show ?thesis
      using local_counts_entry [OF inv(1) assms(3)] inv(2) [OF v] log_count_at [OF le that] by simp
  next
    case False
    then have "wc_at (log_count (rr_log r) ip ?v) u = wc_at window_count_default u"
      by (simp add: wc_at_empty wc_total_def window_count_default_def)
    then show ?thesis
      using False local_counts_entry [OF inv(1) assms(3)] inv(2) [OF v] log_count_at [OF le that] by simp
  qed
  moreover have "distinct (map fst (sw_local w'))"
    using inv(1) assms(3) by (auto simp: local_counts_def Let_def distinct_map_filter case_prod_unfold comp_def)
  ultimately show ?thesis
    using assms(1,3) le by (auto simp: rate_inv_def run_window_def window_position_def local_counts_def Let_def)
qed

lemma rate_inv_step: "rate_step q r r' \<Longrightarrow> rate_inv q r \<Longrightarrow> q \<le> u32_max \<Longrightarrow> rate_inv q r'"
proof (induction rule: rate_step.induct)
  case (merged key r remote oldest t w')
  then show ?case by (auto simp: rate_inv_def run_window_def window_position_def apply_remote_def)
qed (auto intro: rate_inv_admitted rate_inv_refused rate_inv_published)

lemma rate_inv_start: "rate_inv q \<lparr>rr_window = shared_window_new limit (period_duration per), rr_log = [], rr_now = t\<rparr>"
proof -
  have "as_millis (period_duration per) < 2 ^ 53" by (cases per) (simp_all add: as_millis_def period_duration_def)
  moreover have "wc_at window_count_default v = log_count [] ip v" for ip v
    by (simp add: wc_at_empty window_count_default_def log_count_def)
  ultimately show ?thesis by (simp add: rate_inv_def shared_window_new_def count_entry_def)
qed

lemma rate_reach_inv: "rate_reach q limit per r \<Longrightarrow> q \<le> u32_max \<Longrightarrow> rate_inv q r"
proof (induction rule: rate_reach.induct)
  case (start t)
  show ?case by (rule rate_inv_start)
next
  case (next_step r r')
  then show ?case using rate_inv_step by blast
qed



text \<open>Nodes that divide a limit among them, because they cannot exchange counts or the period is too
  short, give out at least the limit together, and less than one request per node more.\<close>

theorem divided_quota_covers_limit:
  assumes "0 < rs_nodes s" and "rs_nodes s \<le> u32_max"
    and "\<not> rs_connected s \<or> period < rs_interval s * SHARED_PERIOD_INTERVALS"
  shows "limit \<le> rs_nodes s * fst (share_quota s limit period) \<and>
    rs_nodes s * fst (share_quota s limit period) < limit + rs_nodes s"
proof -
  have "fst (share_quota s limit period) = div_ceil limit (rs_nodes s)"
    using assms by (auto simp: share_quota_def max_absorb1 Suc_le_eq)
  then show ?thesis using div_ceil_bounds [OF assms(1), of limit] by simp
qed

section \<open>Reloading the configuration\<close>

text \<open>A reload that keeps the rate limit of a route keeps its limiter, so the counters of the clients
  survive: while the limiter is held, asking again with the same configuration gives the same
  limiter, in whatever state the requests in between have left it.\<close>

theorem reload_keeps_rate_counters:
  assumes "distinct (map fst (lw_entries w))" and "limiter e alive w key c = (Some a, w1)"
    and "alive' a" and "lw_entries w2 = lw_entries w1" and "lw_sharing w2 = lw_sharing w1"
    and "rl_config (lw_heap w2 a) = rl_config (lw_heap w1 a)"
    and "(rl_shared (lw_heap w2 a) = None) = (rl_shared (lw_heap w1 a) = None)"
  shows "\<exists>w3. limiter e alive' w2 key c = (Some a, w3) \<and> lw_heap w3 = lw_heap w2"
proof -
  obtain q where q: "limiter_quota e c = Some q" using assms(2) by (auto simp: limiter_def split: option.splits)
  obtain created entries where r: "registry_get_or_create alive (lw_entries w) key (limiter_reusable w c) (lw_next w) =
      (a, created, entries)" and w1: "w1 = (if created
        then w\<lparr>lw_entries := entries, lw_heap := (lw_heap w)(a := new_limiter e (lw_sharing w) c q), lw_next := Suc (lw_next w)\<rparr>
        else w\<lparr>lw_entries := entries\<rparr>)"
    using assms(2) q by (auto simp: limiter_def Let_def split: prod.splits if_splits)
  have entries: "lw_entries w2 = entries" using assms(4) w1 by simp
  have ok1: "limiter_reusable w1 c a"
  proof (cases created)
    case True
    then show ?thesis using w1 by (simp add: limiter_reusable_def new_limiter_def)
  next
    case False
    have "registry_get alive (lw_entries w) key = Some a \<and> limiter_reusable w c a"
      using registry.created [OF assms(1), of alive key "limiter_reusable w c" "lw_next w"]
        registry.reused [OF assms(1), of alive key _ "limiter_reusable w c" "lw_next w"] r False by force
    then show ?thesis using w1 False by (simp add: limiter_reusable_def)
  qed
  then have ok2: "limiter_reusable w2 c a" using assms(5-7) by (simp add: limiter_reusable_def)
  have d: "distinct (map fst entries)" using registry.valid_kept [OF assms(1), of alive key "limiter_reusable w c" "lw_next w"] r by simp
  have "registry_get alive' entries key = Some a"
    using registry.registered [OF assms(1), of alive' alive key "limiter_reusable w c" "lw_next w"] r assms(3) by simp
  then have "fst (registry_get_or_create alive' entries key (limiter_reusable w2 c) (lw_next w2)) = a \<and>
      \<not> fst (snd (registry_get_or_create alive' entries key (limiter_reusable w2 c) (lw_next w2)))"
    using registry.reused [OF d, where reuse = "limiter_reusable w2 c"] ok2 by blast
  then obtain es where "registry_get_or_create alive' entries key (limiter_reusable w2 c) (lw_next w2) = (a, False, es)"
    by (metis prod.collapse)
  then show ?thesis using q entries by (simp add: limiter_def)
qed

definition sample_governor :: "(nat, nat) governor_env" where
  "sample_governor = \<lparr>gv_with_period = (\<lambda>d. if d = 0 then None else Some d), gv_allow_burst = (\<lambda>b q. q),
     gv_keyed = (\<lambda>q. 0), gv_check_key = (\<lambda>g ip now. (None, Suc g))\<rparr>"

definition sample_limiters :: "nat limiter_world" where
  "sample_limiters = \<lparr>lw_entries = [], lw_heap = (\<lambda>_. \<lparr>rl_config = \<lparr>rt_requests = 0, rt_per = Second, rt_burst = 0\<rparr>,
     rl_limiter = 0, rl_shared = None\<rparr>), lw_next = 0, lw_sharing = False\<rparr>"

end
