(* ===== verification/Header_Rules.thy ===== *)
theory Header_Rules
  imports Request_Limits Rewrite
begin

text \<open>
  The header rules of a proxy: \<open>r3v3rs3-api/src/header_rules.rs\<close> (rules, their text format and the value
  templates) and \<open>proxy/http/header_rules.rs\<close> (compiled rules and their application).

  Text is UTF-8 bytes, so the white space of \<open>str::trim\<close> is the list of the encodings of the white
  space characters of Unicode.
\<close>

section \<open>White space\<close>

definition ws_chars :: "string list" where
  "ws_chars =
     map (\<lambda>n. [char_of n]) [9, 10, 11, 12, 13, 32 :: nat] @
     map (map char_of)
       ([[0xC2, 0x85], [0xC2, 0xA0], [0xE1, 0x9A, 0x80]] @
        map (\<lambda>n. [0xE2, 0x80, n]) [0x80, 0x81, 0x82, 0x83, 0x84, 0x85, 0x86, 0x87, 0x88, 0x89, 0x8A, 0xA8, 0xA9, 0xAF] @
        [[0xE2, 0x81, 0x9F], [0xE3, 0x80, 0x80 :: nat]])"

lemma ws_chars_literal [code]:
  "ws_chars = [
    [CHR 0x09], [CHR 0x0A], [CHR 0x0B], [CHR 0x0C], [CHR 0x0D], [CHR 0x20], [CHR 0xC2, CHR 0x85],
    [CHR 0xC2, CHR 0xA0], [CHR 0xE1, CHR 0x9A, CHR 0x80], [CHR 0xE2, CHR 0x80, CHR 0x80],
    [CHR 0xE2, CHR 0x80, CHR 0x81], [CHR 0xE2, CHR 0x80, CHR 0x82], [CHR 0xE2, CHR 0x80, CHR 0x83],
    [CHR 0xE2, CHR 0x80, CHR 0x84], [CHR 0xE2, CHR 0x80, CHR 0x85], [CHR 0xE2, CHR 0x80, CHR 0x86],
    [CHR 0xE2, CHR 0x80, CHR 0x87], [CHR 0xE2, CHR 0x80, CHR 0x88], [CHR 0xE2, CHR 0x80, CHR 0x89],
    [CHR 0xE2, CHR 0x80, CHR 0x8A], [CHR 0xE2, CHR 0x80, CHR 0xA8], [CHR 0xE2, CHR 0x80, CHR 0xA9],
    [CHR 0xE2, CHR 0x80, CHR 0xAF], [CHR 0xE2, CHR 0x81, CHR 0x9F], [CHR 0xE3, CHR 0x80, CHR 0x80]]"
  by code_simp

definition ws_prefix :: "string list \<Rightarrow> string \<Rightarrow> string option" where
  "ws_prefix ws s = find_map (\<lambda>w. if w = [] then None else strip_prefix w s) ws"

lemma ws_prefix_shorter: "ws_prefix ws s = Some r \<Longrightarrow> length r < length s"
  by (auto simp: ws_prefix_def strip_prefix_Some dest!: find_map_Some split: if_splits)

function trim_ws :: "string list \<Rightarrow> string \<Rightarrow> string" where
  "trim_ws ws s = (case ws_prefix ws s of None \<Rightarrow> s | Some r \<Rightarrow> trim_ws ws r)"
  by pat_completeness auto
termination by (relation "measure (length \<circ> snd)") (auto dest: ws_prefix_shorter)

declare trim_ws.simps [simp del]

definition str_trim_start :: "string \<Rightarrow> string" where
  "str_trim_start s = trim_ws ws_chars s"

definition str_trim_end :: "string \<Rightarrow> string" where
  "str_trim_end s = rev (trim_ws (map rev ws_chars) (rev s))"

definition str_trim :: "string \<Rightarrow> string" where
  "str_trim s = str_trim_end (str_trim_start s)"

text \<open>\<open>split_once(char::is_whitespace)\<close> and \<open>split_once\<close> of a character.\<close>

fun split_once_ws :: "string \<Rightarrow> (string \<times> string) option" where
  "split_once_ws s =
     (case ws_prefix ws_chars s of
        Some r \<Rightarrow> Some ([], r)
      | None \<Rightarrow> (case s of [] \<Rightarrow> None | c # cs \<Rightarrow> map_option (\<lambda>(a, b). (c # a, b)) (split_once_ws cs)))"

declare split_once_ws.simps [simp del]

definition split_once :: "char \<Rightarrow> string \<Rightarrow> (string \<times> string) option" where
  "split_once c s =
     (if c \<in> set s then Some (takeWhile (\<lambda>x. x \<noteq> c) s, tl (dropWhile (\<lambda>x. x \<noteq> c) s)) else None)"

section \<open>Templates\<close>

datatype header_variable =
  ClientIpVar | HostVar | SchemeVar | RequestIdVar | RouteVar | ClientCertSubjectVar | ClientCertFingerprintVar

definition all_header_variables :: "header_variable list" where
  "all_header_variables =
     [ClientIpVar, HostVar, SchemeVar, RequestIdVar, RouteVar, ClientCertSubjectVar, ClientCertFingerprintVar]"

definition header_variable_name :: "header_variable \<Rightarrow> string" where
  "header_variable_name v = (case v of
      ClientIpVar \<Rightarrow> ''client_ip'' | HostVar \<Rightarrow> ''host'' | SchemeVar \<Rightarrow> ''scheme''
    | RequestIdVar \<Rightarrow> ''request_id'' | RouteVar \<Rightarrow> ''route''
    | ClientCertSubjectVar \<Rightarrow> ''client_cert_subject'' | ClientCertFingerprintVar \<Rightarrow> ''client_cert_fingerprint'')"

definition variable_named :: "string \<Rightarrow> header_variable option" where
  "variable_named name = List.find (\<lambda>v. header_variable_name v = name) all_header_variables"

datatype template_part = Literal string | Variable header_variable

definition push_literal :: "template_part list \<Rightarrow> string \<Rightarrow> template_part list" where
  "push_literal parts literal = (if literal \<noteq> [] then parts @ [Literal literal] else parts)"

definition is_brace :: "char \<Rightarrow> bool" where
  "is_brace c \<longleftrightarrow> c = CHR ''{'' \<or> c = CHR ''}''"

text \<open>\<open>parse_brace\<close>: the rest of the template, the parts and the literal.\<close>

definition parse_brace ::
    "string \<Rightarrow> string \<Rightarrow> template_part list \<Rightarrow> string \<Rightarrow> (string \<times> template_part list \<times> string) result" where
  "parse_brace value tail parts literal =
     (if starts_with ''{{'' tail \<or> starts_with ''}}'' tail
      then Inr (drop 2 tail, parts, literal @ take 1 tail)
      else
        case (case strip_prefix ''{'' tail of
                None \<Rightarrow> None
              | Some inner \<Rightarrow>
                  (case split_once CHR ''}'' inner of
                     None \<Rightarrow> None
                   | Some (name, after) \<Rightarrow> map_option (\<lambda>v. (v, after)) (variable_named name))) of
          None \<Rightarrow> Inl (InvalidHeaderValue value)
        | Some (v, after) \<Rightarrow> Inr (after, push_literal parts literal @ [Variable v], []))"

lemma split_once_shorter: "split_once c s = Some (a, b) \<Longrightarrow> length b < length s"
proof -
  assume s: "split_once c s = Some (a, b)"
  then have "dropWhile (\<lambda>x. x \<noteq> c) s \<noteq> []" by (auto simp: split_once_def split: if_splits)
  moreover have "length (dropWhile (\<lambda>x. x \<noteq> c) s) \<le> length s" by (rule length_dropWhile_le)
  ultimately have "length (tl (dropWhile (\<lambda>x. x \<noteq> c) s)) < length s"
    by (cases "dropWhile (\<lambda>x. x \<noteq> c) s") auto
  then show ?thesis using s by (auto simp: split_once_def split: if_splits)
qed

lemma parse_brace_shorter:
  "parse_brace value tail parts literal = Inr (rest, p, l) \<Longrightarrow> tail \<noteq> [] \<Longrightarrow> length rest < length tail"
  by (auto simp: parse_brace_def strip_prefix_Some dest!: split_once_shorter split: if_splits option.splits)

function template_loop :: "string \<Rightarrow> template_part list \<Rightarrow> string \<Rightarrow> string \<Rightarrow> template_part list result" where
  "template_loop value parts literal rest =
     (case dropWhile (\<lambda>c. \<not> is_brace c) rest of
        [] \<Rightarrow> Inr (push_literal parts (literal @ rest))
      | b # bs \<Rightarrow>
          (case parse_brace value (b # bs) parts (literal @ takeWhile (\<lambda>c. \<not> is_brace c) rest) of
             Inl e \<Rightarrow> Inl e
           | Inr (rest', parts', literal') \<Rightarrow> template_loop value parts' literal' rest'))"
  by pat_completeness auto
termination
proof (relation "measure (\<lambda>(_, _, _, rest). length rest)", simp, clarify)
  fix val parts literal rest b bs rest' parts' literal'
  assume d: "dropWhile (\<lambda>c. \<not> is_brace c) rest = b # bs"
    and p: "parse_brace val (b # bs) parts (literal @ takeWhile (\<lambda>c. \<not> is_brace c) rest) = Inr (rest', parts', literal')"
  have "length (b # bs) \<le> length rest" using length_dropWhile_le [of _ rest] d by metis
  then show "((val, parts', literal', rest'), val, parts, literal, rest) \<in> measure (\<lambda>(_, _, _, rest). length rest)"
    using parse_brace_shorter [OF p] by simp
qed

declare template_loop.simps [simp del]

definition parse_header_template :: "string \<Rightarrow> template_part list result" where
  "parse_header_template value =
     (if has_control (filter (\<lambda>c. c \<noteq> CHR 0x09) value) then Inl (InvalidHeaderValue value)
      else template_loop value [] [] value)"

section \<open>Rules\<close>

definition PROTECTED_HEADERS :: "string list" where
  "PROTECTED_HEADERS =
     [''connection'', ''content-length'', ''host'', ''keep-alive'', ''proxy-connection'', ''te'', ''trailer'',
      ''transfer-encoding'', ''upgrade'']"

datatype header_rule =
    SetHeader (rule_name: string) (rule_value: string)
  | AppendHeader (rule_name: string) (rule_value: string)
  | RemoveHeader (rule_name: string)

record header_rules =
  hr_request :: "header_rule list"
  hr_response :: "header_rule list"

definition rule_validate :: "header_rule \<Rightarrow> unit result" where
  "rule_validate rule =
     (let name = rule_name rule in
      if \<not> is_header_name name then Inl (InvalidHeaderName name)
      else if list_ex (\<lambda>p. eq_ignore_ascii_case p name) PROTECTED_HEADERS then Inl (ProtectedHeader name)
      else case rule of
          SetHeader _ value \<Rightarrow> try_then (parse_header_template value) (\<lambda>_. Inr ())
        | AppendHeader _ value \<Rightarrow> try_then (parse_header_template value) (\<lambda>_. Inr ())
        | RemoveHeader _ \<Rightarrow> Inr ())"

fun validate_all :: "header_rule list \<Rightarrow> unit result" where
  "validate_all [] = Inr ()"
| "validate_all (r # rs) = try_then (rule_validate r) (\<lambda>_. validate_all rs)"

definition header_rules_validate :: "header_rules \<Rightarrow> unit result" where
  "header_rules_validate rules = validate_all (hr_request rules @ hr_response rules)"

definition default_frame_protection :: header_rules where
  "default_frame_protection =
     \<lparr>hr_request = [],
      hr_response = [SetHeader ''X-Frame-Options'' ''SAMEORIGIN'',
        SetHeader ''Content-Security-Policy'' (''frame-ancestors '' @ [CHR 0x27] @ ''self'' @ [CHR 0x27])]\<rparr>"

definition rule_parse_line :: "string \<Rightarrow> header_rule result" where
  "rule_parse_line line =
     (let line = str_trim line; invalid = Inl (InvalidHeaderRule line) in
      case split_once_ws line of
        None \<Rightarrow> invalid
      | Some (action, rest) \<Rightarrow>
          let action = to_ascii_lowercase action in
          try_then
            (if action = ''remove'' then Inr (RemoveHeader (str_trim rest))
             else case split_once CHR '':'' rest of
                    None \<Rightarrow> invalid
                  | Some (name, value) \<Rightarrow>
                      if action = ''set'' then Inr (SetHeader (str_trim name) (str_trim value))
                      else if action = ''append'' then Inr (AppendHeader (str_trim name) (str_trim value))
                      else invalid)
            (\<lambda>rule. try_then (rule_validate rule) (\<lambda>_. Inr rule)))"

definition rule_fmt :: "header_rule \<Rightarrow> string" where
  "rule_fmt rule = (case rule of
      SetHeader name value \<Rightarrow> ''set '' @ name @ '': '' @ value
    | AppendHeader name value \<Rightarrow> ''append '' @ name @ '': '' @ value
    | RemoveHeader name \<Rightarrow> ''remove '' @ name)"

text \<open>\<open>str::lines\<close>: the pieces between line feeds, without a final empty piece and without a trailing
  carriage return.\<close>

definition strip_cr :: "string \<Rightarrow> string" where
  "strip_cr s = (if s \<noteq> [] \<and> last s = CHR 0x0D then butlast s else s)"

definition lines :: "string \<Rightarrow> string list" where
  "lines s =
     (let ps = split_on CHR 0x0A s in
      map strip_cr (if last ps = [] then butlast ps else ps))"

definition is_rule_line :: "string \<Rightarrow> bool" where
  "is_rule_line line \<longleftrightarrow> str_trim line \<noteq> [] \<and> \<not> starts_with ''#'' (str_trim line)"

text \<open>The error names the line; its text is left out.\<close>

fun parse_numbered :: "(nat \<times> string) list \<Rightarrow> (nat \<times> api_error) + header_rule list" where
  "parse_numbered [] = Inr []"
| "parse_numbered ((i, line) # ls) =
     (case rule_parse_line line of
        Inl e \<Rightarrow> Inl (i + 1, e)
      | Inr rule \<Rightarrow> try_then (parse_numbered ls) (\<lambda>rules. Inr (rule # rules)))"

definition parse_header_rules :: "string \<Rightarrow> (nat \<times> api_error) + header_rule list" where
  "parse_header_rules text = parse_numbered (filter (\<lambda>(_, line). is_rule_line line) (List.enumerate 0 (lines text)))"

definition format_header_rules :: "header_rule list \<Rightarrow> string" where
  "format_header_rules rules = join_with [CHR 0x0A] (map rule_fmt rules)"

section \<open>Compiled rules\<close>

datatype header_action = SetAction "template_part list" | AppendAction "template_part list" | RemoveAction

record compiled_rule =
  cr_name :: string
  cr_action :: header_action

record header_variables =
  hv_client_ip :: ip_addr
  hv_host :: string
  hv_scheme :: string
  hv_request_id :: string
  hv_route :: string
  hv_client_cert_subject :: string
  hv_client_cert_fingerprint :: string

definition variable_value :: "header_variables \<Rightarrow> header_variable \<Rightarrow> string" where
  "variable_value vs v = (case v of
      ClientIpVar \<Rightarrow> fmt_ip (hv_client_ip vs) | HostVar \<Rightarrow> hv_host vs | SchemeVar \<Rightarrow> hv_scheme vs
    | RequestIdVar \<Rightarrow> hv_request_id vs | RouteVar \<Rightarrow> hv_route vs
    | ClientCertSubjectVar \<Rightarrow> hv_client_cert_subject vs | ClientCertFingerprintVar \<Rightarrow> hv_client_cert_fingerprint vs)"

text \<open>A header name is a token, and \<open>HeaderName\<close> keeps it in lower case.\<close>

definition compile_rule :: "header_rule \<Rightarrow> compiled_rule result" where
  "compile_rule rule =
     try_then (rule_validate rule) (\<lambda>_.
       let name = to_ascii_lowercase (rule_name rule) in
       case rule of
         SetHeader _ value \<Rightarrow>
           try_then (parse_header_template value) (\<lambda>t. Inr \<lparr>cr_name = name, cr_action = SetAction t\<rparr>)
       | AppendHeader _ value \<Rightarrow>
           try_then (parse_header_template value) (\<lambda>t. Inr \<lparr>cr_name = name, cr_action = AppendAction t\<rparr>)
       | RemoveHeader _ \<Rightarrow> Inr \<lparr>cr_name = name, cr_action = RemoveAction\<rparr>)"

definition compile_rules :: "header_rule list \<Rightarrow> compiled_rule list" where
  "compile_rules rules =
     List.map_filter (\<lambda>rule. case compile_rule rule of Inl _ \<Rightarrow> None | Inr c \<Rightarrow> Some c) rules"

fun render :: "template_part list \<Rightarrow> header_variables \<Rightarrow> string" where
  "render [] vs = []"
| "render (Literal text # ps) vs = text @ render ps vs"
| "render (Variable v # ps) vs = variable_value vs v @ render ps vs"

definition apply_rule :: "http_env \<Rightarrow> header_variables \<Rightarrow> compiled_rule \<Rightarrow> headers \<Rightarrow> headers" where
  "apply_rule h vs rule hs =
     (case cr_action rule of
        RemoveAction \<Rightarrow> hremove hs (cr_name rule)
      | SetAction t \<Rightarrow>
          (case header_from_str h (render t vs) of
             None \<Rightarrow> hremove hs (cr_name rule)
           | Some v \<Rightarrow> hinsert hs (cr_name rule) v)
      | AppendAction t \<Rightarrow>
          (case header_from_str h (render t vs) of
             None \<Rightarrow> hs
           | Some v \<Rightarrow> happend hs (cr_name rule) v))"

definition apply_rules :: "http_env \<Rightarrow> compiled_rule list \<Rightarrow> headers \<Rightarrow> header_variables \<Rightarrow> headers" where
  "apply_rules h rules hs vs = fold (apply_rule h vs) rules hs"

section \<open>Templates and their text\<close>

text \<open>The text of a template: braces of a literal are doubled.\<close>

fun print_part :: "template_part \<Rightarrow> string" where
  "print_part (Literal t) = concat (map (\<lambda>c. if is_brace c then [c, c] else [c]) t)"
| "print_part (Variable v) = ''{'' @ header_variable_name v @ ''}''"

definition print_template :: "template_part list \<Rightarrow> string" where
  "print_template parts = concat (map print_part parts)"

text \<open>Templates that the parser can return: no empty literal and no two literals in a row.\<close>

fun normal_template :: "template_part list \<Rightarrow> bool" where
  "normal_template [] = True"
| "normal_template [Literal t] = (t \<noteq> [])"
| "normal_template (Literal t # Literal u # ps) = False"
| "normal_template (Literal t # Variable v # ps) = (t \<noteq> [] \<and> normal_template ps)"
| "normal_template (Variable v # ps) = normal_template ps"

lemma template_loop_char: "\<not> is_brace c \<Longrightarrow> template_loop val parts lit (c # r) = template_loop val parts (lit @ [c]) r"
  by (subst (1 2) template_loop.simps) (cases "dropWhile (\<lambda>c. \<not> is_brace c) r", simp_all del: dropWhile_eq_Nil_conv)

lemma template_loop_escape:
  assumes "is_brace b"
  shows "template_loop val parts lit (b # b # r) = template_loop val parts (lit @ [b]) r"
proof -
  have "parse_brace val (b # b # r) parts lit = Inr (r, parts, lit @ [b])"
    using assms by (auto simp: parse_brace_def is_brace_def starts_with_iff)
  then show ?thesis using assms by (subst template_loop.simps) simp
qed

lemma template_loop_literal:
  "template_loop val parts lit (print_part (Literal t) @ r) = template_loop val parts (lit @ t) r"
  by (induction t arbitrary: lit) (auto simp: template_loop_char template_loop_escape)

lemma variable_name_ok:
  "CHR ''}'' \<notin> set (header_variable_name v)" "header_variable_name v \<noteq> []" "hd (header_variable_name v) \<noteq> CHR ''{''"
  "variable_named (header_variable_name v) = Some v"
  by (cases v; simp add: header_variable_name_def variable_named_def all_header_variables_def)+

lemma split_once_append: "c \<notin> set a \<Longrightarrow> split_once c (a @ c # b) = Some (a, b)"
  unfolding split_once_def by (induction a) auto

lemma template_loop_variable:
  "template_loop val parts lit (print_part (Variable v) @ r) = template_loop val (push_literal parts lit @ [Variable v]) [] r"
proof -
  let ?n = "header_variable_name v"
  obtain c cs where n: "?n = c # cs" using variable_name_ok(2) [of v] by (cases ?n) auto
  have c: "c \<noteq> CHR ''{''" using variable_name_ok(3) [of v] n by simp
  have "split_once CHR ''}'' (?n @ CHR ''}'' # r) = Some (?n, r)"
    by (rule split_once_append [OF variable_name_ok(1)])
  then have "parse_brace val (CHR ''{'' # ?n @ CHR ''}'' # r) parts lit = Inr (r, push_literal parts lit @ [Variable v], [])"
    using c by (simp add: parse_brace_def starts_with_iff n variable_name_ok(4) [of v, unfolded n])
  then show ?thesis by (subst template_loop.simps) (simp add: is_brace_def)
qed

lemma template_loop_end: "template_loop val parts lit [] = Inr (push_literal parts lit)"
  by (subst template_loop.simps) simp

lemma template_loop_print:
  "normal_template ps \<Longrightarrow> template_loop val acc [] (print_template ps) = Inr (acc @ ps)"
proof (induction ps arbitrary: acc rule: normal_template.induct)
  case (2 t)
  then show ?case
    using template_loop_literal [of val acc "[]" t "[]"]
    by (simp add: print_template_def template_loop_end push_literal_def)
next
  case (4 t v ps)
  then show ?case
    using template_loop_literal [of val acc "[]" t "print_part (Variable v) @ print_template ps"]
      template_loop_variable [of val acc t v "print_template ps"]
    by (simp add: print_template_def push_literal_def)
next
  case (5 v ps)
  then show ?case
    using template_loop_variable [of val acc "[]" v "print_template ps"]
    by (simp add: print_template_def push_literal_def)
qed (simp_all add: print_template_def template_loop_end push_literal_def)

text \<open>Every template can be written: the parser reads the text of a template back, for all literals
  (with their braces doubled) without control characters.\<close>

theorem template_print_parse:
  assumes "normal_template ps" and "\<not> has_control (filter (\<lambda>c. c \<noteq> CHR 0x09) (print_template ps))"
  shows "parse_header_template (print_template ps) = Inr ps"
  using template_loop_print [OF assms(1), of "print_template ps" "[]"] assms(2)
  by (simp add: parse_header_template_def)

section \<open>Applying rules\<close>

lemma rule_validate_name: "rule_validate rule = Inr () \<Longrightarrow> p \<in> set PROTECTED_HEADERS \<Longrightarrow> to_ascii_lowercase (rule_name rule) \<noteq> p"
proof
  assume v: "rule_validate rule = Inr ()" and p: "p \<in> set PROTECTED_HEADERS" and e: "to_ascii_lowercase (rule_name rule) = p"
  have "to_ascii_lowercase p = p" using p by (auto simp: PROTECTED_HEADERS_def to_ascii_lowercase_def ascii_lower_def)
  then have "eq_ignore_ascii_case p (rule_name rule)" using e by (simp add: eq_ignore_ascii_case_def)
  then show False using v p by (auto simp: rule_validate_def Let_def list_ex_iff split: if_splits)
qed

lemma compile_rule_name:
  "compile_rule rule = Inr c \<Longrightarrow> rule_validate rule = Inr () \<and> cr_name c = to_ascii_lowercase (rule_name rule)"
  by (cases "rule_validate rule"; cases rule)
    (auto simp: compile_rule_def Let_def try_then_def split: sum.splits)

lemma apply_rule_other: "m \<noteq> cr_name rule \<Longrightarrow> get_all (apply_rule h vs rule hs) m = get_all hs m"
  by (simp add: apply_rule_def split: header_action.splits option.splits)

lemma apply_rules_other:
  "list_all (\<lambda>rule. cr_name rule \<noteq> m) rules \<Longrightarrow> get_all (apply_rules h rules hs vs) m = get_all hs m"
  by (induction rules arbitrary: hs) (auto simp: apply_rules_def apply_rule_other)

text \<open>Whatever rules the configuration holds, applying them leaves the headers that frame the message
  and control the connection as they were: a rule on such a header is not compiled.\<close>

theorem header_rules_keep_protected_headers:
  assumes "name \<in> set PROTECTED_HEADERS"
  shows "get_all (apply_rules h (compile_rules rules) hs vs) name = get_all hs name"
proof (rule apply_rules_other)
  show "list_all (\<lambda>rule. cr_name rule \<noteq> name) (compile_rules rules)"
    using rule_validate_name [OF _ assms] compile_rule_name
    by (fastforce simp: compile_rules_def list_all_iff dest!: map_filter_Some split: sum.splits)
qed

section \<open>Rules and their text\<close>

definition printable :: "char \<Rightarrow> bool" where
  "printable c \<longleftrightarrow> (let n = of_char c :: nat in 33 \<le> n \<and> n \<le> 126)"

lemma ws_chars_bytes:
  "list_all (\<lambda>w. w \<noteq> [] \<and> list_all (\<lambda>c. \<not> printable c) w \<and> (CHR '' '' \<in> set w \<longrightarrow> w = '' '')) ws_chars"
  by code_simp

lemma ws_char_not_printable: "w \<in> set ws_chars \<Longrightarrow> c \<in> set w \<Longrightarrow> \<not> printable c"
  and ws_char_space: "w \<in> set ws_chars \<Longrightarrow> CHR '' '' \<in> set w \<Longrightarrow> w = '' ''"
  and ws_char_not_Nil: "w \<in> set ws_chars \<Longrightarrow> w \<noteq> []"
  using ws_chars_bytes by (auto simp: list_all_iff)

lemma ws_prefix_None: "ws_prefix ws s = None \<longleftrightarrow> (\<forall>w \<in> set ws. w = [] \<or> (\<nexists>r. s = w @ r))"
  by (auto simp: ws_prefix_def find_map_None strip_prefix_Some [symmetric] split: if_splits)

lemma ws_prefix_printable:
  assumes "printable c"
  shows "ws_prefix ws_chars (c # r) = None" and "ws_prefix (map rev ws_chars) (c # r) = None"
proof -
  have no: "w = [] \<or> (\<nexists>r'. c # r = w @ r')" if "set w = set w'" "w' \<in> set ws_chars" for w w'
  proof -
    have "c \<notin> set w" using that ws_char_not_printable [OF that(2), of c] assms by auto
    then show ?thesis by (auto simp: Cons_eq_append_conv)
  qed
  show "ws_prefix ws_chars (c # r) = None" unfolding ws_prefix_None using no by blast
  show "ws_prefix (map rev ws_chars) (c # r) = None"
    unfolding ws_prefix_None set_map
  proof (rule ballI)
    fix w assume "w \<in> rev ` set ws_chars"
    then obtain w' where "w' \<in> set ws_chars" "w = rev w'" by (rule imageE)
    then show "w = [] \<or> (\<nexists>r'. c # r = w @ r')" using no [of w w'] by simp
  qed
qed

lemma ws_prefix_spaceI:
  assumes "'' '' \<in> set ws" and "\<And>w. w \<in> set ws \<Longrightarrow> CHR '' '' \<in> set w \<Longrightarrow> w = '' ''"
  shows "ws_prefix ws (CHR '' '' # r) = Some r"
proof (cases "ws_prefix ws (CHR '' '' # r)")
  case None
  then show ?thesis using assms(1) by (fastforce simp: ws_prefix_None)
next
  case (Some y)
  then obtain w where "w \<in> set ws" "w \<noteq> []" "CHR '' '' # r = w @ y"
    by (auto simp: ws_prefix_def strip_prefix_Some dest!: find_map_Some split: if_splits)
  moreover from this have "w = '' ''" using assms(2) [of w] by (auto simp: Cons_eq_append_conv)
  ultimately show ?thesis using Some by simp
qed

lemma ws_prefix_space: "ws_prefix ws_chars (CHR '' '' # r) = Some r" "ws_prefix (map rev ws_chars) (CHR '' '' # r) = Some r"
proof -
  have sp: "'' '' \<in> set ws_chars" by code_simp
  show "ws_prefix ws_chars (CHR '' '' # r) = Some r" by (rule ws_prefix_spaceI [OF sp ws_char_space])
  show "ws_prefix (map rev ws_chars) (CHR '' '' # r) = Some r"
  proof (rule ws_prefix_spaceI)
    show "'' '' \<in> set (map rev ws_chars)" using imageI [OF sp, of rev] by simp
    fix w assume w: "w \<in> set (map rev ws_chars)" and c: "CHR '' '' \<in> set w"
    obtain w' where "w' \<in> set ws_chars" "w = rev w'" using w unfolding set_map by (rule imageE)
    then show "w = '' ''" using ws_char_space [of w'] c by simp
  qed
qed

lemma trim_ws_None: "ws_prefix ws s = None \<Longrightarrow> trim_ws ws s = s"
  by (subst trim_ws.simps) simp

lemma trim_ws_length: "length (trim_ws ws s) \<le> length s"
proof (induction ws s rule: trim_ws.induct)
  case (1 ws s)
  then show ?case
    using ws_prefix_shorter [of ws s] by (subst trim_ws.simps) (fastforce split: option.splits)
qed

lemma trim_ws_id: "trim_ws ws s = s \<longleftrightarrow> ws_prefix ws s = None"
proof (cases "ws_prefix ws s")
  case (Some r)
  then have "trim_ws ws s = trim_ws ws r" by (subst trim_ws.simps) simp
  then have "length (trim_ws ws s) < length s" using trim_ws_length [of ws r] ws_prefix_shorter [OF Some] by simp
  then show ?thesis using Some by auto
qed (simp add: trim_ws_None)

text \<open>Text without white space at either end.\<close>

definition trimmed :: "string \<Rightarrow> bool" where
  "trimmed s \<longleftrightarrow> str_trim_start s = s \<and> str_trim_end s = s"

lemma ws_prefix_Nil [simp]: "list_all (\<lambda>w. w \<noteq> []) ws \<Longrightarrow> ws_prefix ws [] = None"
  by (auto simp: ws_prefix_None list_all_iff)

lemma trim_Nil [simp]: "str_trim_start [] = []" "str_trim_end [] = []"
  using ws_char_not_Nil by (auto simp: str_trim_start_def str_trim_end_def trim_ws_id list_all_iff intro!: trim_ws_None ws_prefix_Nil)

lemma str_trim_start_printable: "printable c \<Longrightarrow> str_trim_start (c # r) = c # r"
  by (simp add: str_trim_start_def trim_ws_None ws_prefix_printable)

lemma str_trim_end_printable: "printable c \<Longrightarrow> str_trim_end (r @ [c]) = r @ [c]"
  by (simp add: str_trim_end_def trim_ws_None ws_prefix_printable)

lemma str_trim_start_space: "str_trim_start (CHR '' '' # r) = str_trim_start r"
  unfolding str_trim_start_def by (subst trim_ws.simps) (simp add: ws_prefix_space)

lemma str_trim_end_space: "str_trim_end (r @ '' '') = str_trim_end r"
  unfolding str_trim_end_def by (subst trim_ws.simps) (simp add: ws_prefix_space)

lemma trimmed_printable: "list_all printable s \<Longrightarrow> trimmed s"
proof (cases s rule: rev_cases)
  case (snoc ys y)
  moreover assume "list_all printable s"
  ultimately have "printable (hd s)" "printable y" "s = hd s # tl s" by (auto simp: hd_append list_all_iff)
  then show ?thesis
    using str_trim_start_printable [of "hd s" "tl s"] str_trim_end_printable [of y ys] snoc by (simp add: trimmed_def)
qed (simp add: trimmed_def)

lemma str_trim_end_append:
  assumes "str_trim_end v = v" and "v \<noteq> []"
  shows "str_trim_end (p @ '' '' @ v) = p @ '' '' @ v"
proof -
  have n: "ws_prefix (map rev ws_chars) (rev v) = None"
    using assms(1) trim_ws_id [of "map rev ws_chars" "rev v"] by (metis rev_rev_ident str_trim_end_def)
  have "ws_prefix (map rev ws_chars) (rev v @ CHR '' '' # rev p) = None"
    unfolding ws_prefix_None
  proof (intro ballI disjI2 notI)
    fix w assume w: "w \<in> set (map rev ws_chars)" and "\<exists>r. rev v @ CHR '' '' # rev p = w @ r"
    then obtain r where r: "rev v @ CHR '' '' # rev p = w @ r" by blast
    show False
    proof (cases "length w \<le> length v")
      case True
      then have "\<exists>r'. rev v = w @ r'" using r by (auto simp: append_eq_append_conv2)
      moreover obtain w' where "w' \<in> set ws_chars" "w = rev w'" using w unfolding set_map by (rule imageE)
      ultimately show False using n w ws_char_not_Nil [of w'] unfolding ws_prefix_None by blast
    next
      case False
      obtain us where "rev v = w @ us \<or> rev v @ us = w \<and> CHR '' '' # rev p = us @ r"
        using append_eq_append_conv2 [of "rev v" "CHR '' '' # rev p" w r] r by blast
      then have us: "w = rev v @ us" "us @ r = CHR '' '' # rev p" "us \<noteq> []"
        using False by (auto dest: arg_cong [of _ _ length])
      then have "CHR '' '' \<in> set w" by (cases us) auto
      moreover have "w \<noteq> '' ''" using us(1,3) assms(2) by (auto simp: append_eq_Cons_conv)
      moreover obtain w' where "w' \<in> set ws_chars" "w = rev w'" using w unfolding set_map by (rule imageE)
      ultimately show False using ws_char_space [of w'] by simp
    qed
  qed
  then show ?thesis by (simp add: str_trim_end_def trim_ws_None)
qed

lemma split_once_ws_space: "list_all printable a \<Longrightarrow> split_once_ws (a @ CHR '' '' # r) = Some (a, r)"
  by (induction a) (subst split_once_ws.simps, simp add: ws_prefix_space ws_prefix_printable)+

lemma token_printable: "is_header_name name \<Longrightarrow> list_all printable name \<and> CHR '':'' \<notin> set name \<and> name \<noteq> []"
  by (auto simp: is_header_name_def is_ascii_alphanumeric_def printable_def list_all_iff Let_def)

lemma validate_Inr:
  assumes "rule_validate rule = Inr ()"
  shows "is_header_name (rule_name rule)"
    and "rule = SetHeader name v \<or> rule = AppendHeader name v \<Longrightarrow> \<not> has_control (filter (\<lambda>c. c \<noteq> CHR 0x09) v)"
  using assms
  by (auto simp: rule_validate_def Let_def parse_header_template_def try_then_def split: if_splits sum.splits)

text \<open>The parsed form of a rule: valid, and its value without white space at the ends.\<close>

definition rule_wf :: "header_rule \<Rightarrow> bool" where
  "rule_wf rule \<longleftrightarrow> rule_validate rule = Inr () \<and>
     (case rule of SetHeader _ v \<Rightarrow> trimmed v | AppendHeader _ v \<Rightarrow> trimmed v | RemoveHeader _ \<Rightarrow> True)"

lemma str_trim_trimmed: "trimmed s \<Longrightarrow> str_trim s = s"
  by (simp add: trimmed_def str_trim_def)

lemma trim_keyword_line:
  assumes "list_all printable (c # key)" and "list_all printable name" and "trimmed v"
  shows "str_trim (c # key @ '' '' @ name @ '': '' @ v) =
    (if v = [] then c # key @ '' '' @ name @ '':'' else c # key @ '' '' @ name @ '': '' @ v)"
proof -
  let ?p = "c # key @ '' '' @ name @ '':''"
  have colon: "printable CHR '':''" by (simp add: printable_def)
  have "str_trim (?p @ '' '' @ v) = str_trim_end (?p @ '' '' @ v)"
    using assms(1) by (simp add: str_trim_def str_trim_start_printable)
  also have "\<dots> = (if v = [] then ?p else ?p @ '' '' @ v)"
    using str_trim_end_append [of v ?p] str_trim_end_space [of ?p] assms(3)
      str_trim_end_printable [OF colon, of "c # key @ '' '' @ name"]
    by (simp add: trimmed_def)
  finally show ?thesis by simp
qed

lemma split_name_value:
  assumes "CHR '':'' \<notin> set name" and "trimmed v"
  shows "\<exists>w. split_once CHR '':'' (name @ (if v = [] then '':'' else '': '' @ v)) = Some (name, w) \<and> str_trim w = v"
proof (cases "v = []")
  case True
  then show ?thesis using split_once_append [OF assms(1), of "[]"] by (simp add: str_trim_def)
next
  case False
  then show ?thesis
    using split_once_append [OF assms(1), of "'' '' @ v"] assms(2)
    by (simp add: str_trim_def str_trim_start_space trimmed_def)
qed

text \<open>The line of a rule after trimming: the action, a space and the rest.\<close>

definition rule_key :: "header_rule \<Rightarrow> string" where
  "rule_key rule = (case rule of SetHeader _ _ \<Rightarrow> ''set'' | AppendHeader _ _ \<Rightarrow> ''append'' | RemoveHeader _ \<Rightarrow> ''remove'')"

definition rule_body :: "header_rule \<Rightarrow> string" where
  "rule_body rule = (case rule of
      SetHeader n v \<Rightarrow> n @ (if v = [] then '':'' else '': '' @ v)
    | AppendHeader n v \<Rightarrow> n @ (if v = [] then '':'' else '': '' @ v)
    | RemoveHeader n \<Rightarrow> n)"

lemma rule_key_printable: "list_all printable (rule_key rule)" "to_ascii_lowercase (rule_key rule) = rule_key rule"
proof -
  have "list_all (\<lambda>k. list_all printable k \<and> to_ascii_lowercase k = k) [''set'', ''append'', ''remove'']" by code_simp
  then show "list_all printable (rule_key rule)" "to_ascii_lowercase (rule_key rule) = rule_key rule"
    by (cases rule; simp add: rule_key_def)+
qed

lemma rule_wf_name: "rule_wf rule \<Longrightarrow> list_all printable (rule_name rule) \<and> CHR '':'' \<notin> set (rule_name rule) \<and> rule_name rule \<noteq> []"
  using validate_Inr(1) token_printable by (simp add: rule_wf_def)

lemma rule_fmt_trim:
  assumes "rule_wf rule"
  shows "str_trim (rule_fmt rule) = rule_key rule @ CHR '' '' # rule_body rule"
proof -
  obtain c key where k: "rule_key rule = c # key" by (cases rule) (auto simp: rule_key_def)
  have ck: "list_all printable (c # key)" using rule_key_printable(1) [of rule] k by simp
  have val: "str_trim (rule_key rule @ '' '' @ n @ '': '' @ v) = rule_key rule @ '' '' @ n @ (if v = [] then '':'' else '': '' @ v)"
    if "trimmed v" "list_all printable n" for n v
    using trim_keyword_line [OF ck that(2,1)] k by simp
  show ?thesis
  proof (cases rule)
    case (RemoveHeader n)
    obtain m x where m: "n = m @ [x]" "printable x"
      using rule_wf_name [OF assms] RemoveHeader by (cases n rule: rev_cases) auto
    have "trimmed (rule_key rule @ CHR '' '' # n)"
      using str_trim_end_printable [OF m(2), of "rule_key rule @ CHR '' '' # m"] ck k m(1)
      by (simp add: trimmed_def str_trim_start_printable)
    then show ?thesis using RemoveHeader by (simp add: rule_fmt_def rule_body_def rule_key_def str_trim_trimmed)
  qed (use val rule_wf_name [OF assms] assms in \<open>auto simp: rule_fmt_def rule_body_def rule_key_def rule_wf_def\<close>)
qed

lemma rule_parse_fmt:
  assumes "rule_wf rule"
  shows "rule_parse_line (rule_fmt rule) = Inr rule"
proof -
  have v: "rule_validate rule = Inr ()" using assms by (simp add: rule_wf_def)
  have name: "str_trim (rule_name rule) = rule_name rule" and colon: "CHR '':'' \<notin> set (rule_name rule)"
    using rule_wf_name [OF assms] by (simp_all add: str_trim_trimmed trimmed_printable)
  have val: "\<exists>w. split_once CHR '':'' (rule_body rule) = Some (rule_name rule, w) \<and> str_trim w = u"
    if "rule = SetHeader n u \<or> rule = AppendHeader n u" for n u
    using split_name_value [OF colon, of u] that assms by (auto simp: rule_body_def rule_wf_def)
  note split = split_once_ws_space [OF rule_key_printable(1), of rule "rule_body rule"]
  have step: "rule_parse_line (rule_fmt rule) =
      try_then
        (if rule_key rule = ''remove'' then Inr (RemoveHeader (str_trim (rule_body rule)))
         else case split_once CHR '':'' (rule_body rule) of
                None \<Rightarrow> Inl (InvalidHeaderRule (rule_key rule @ CHR '' '' # rule_body rule))
              | Some (name, value) \<Rightarrow>
                  if rule_key rule = ''set'' then Inr (SetHeader (str_trim name) (str_trim value))
                  else if rule_key rule = ''append'' then Inr (AppendHeader (str_trim name) (str_trim value))
                  else Inl (InvalidHeaderRule (rule_key rule @ CHR '' '' # rule_body rule)))
        (\<lambda>rule. try_then (rule_validate rule) (\<lambda>_. Inr rule))"
    unfolding rule_parse_line_def rule_fmt_trim [OF assms] Let_def split option.case prod.case rule_key_printable(2)
    by (rule HOL.refl)
  show ?thesis
  proof (cases rule)
    case (SetHeader n u)
    then show ?thesis using step val [of n u] name v by (auto simp: rule_key_def)
  next
    case (AppendHeader n u)
    then show ?thesis using step val [of n u] name v by (auto simp: rule_key_def)
  next
    case (RemoveHeader n)
    then show ?thesis using step name v by (simp add: rule_key_def rule_body_def)
  qed
qed

section \<open>Rule lists\<close>

lemma has_control_low: "c \<in> set s \<Longrightarrow> (of_char c :: nat) < 32 \<Longrightarrow> has_control s"
  by (induction s) (auto simp: Let_def)

lemma rule_fmt_one_line:
  assumes "rule_wf rule" and "c = CHR 0x0A \<or> c = CHR 0x0D"
  shows "c \<notin> set (rule_fmt rule)"
proof -
  have v: "rule_validate rule = Inr ()" using assms by (simp add: rule_wf_def)
  have n: "c \<notin> set (rule_name rule)"
    using rule_wf_name [OF assms(1)] assms(2) by (auto simp: list_all_iff printable_def Let_def)
  have "c \<notin> set u" if "\<not> has_control (filter (\<lambda>c. c \<noteq> CHR 0x09) u)" for u
    using that has_control_low [of c "filter (\<lambda>c. c \<noteq> CHR 0x09) u"] assms(2) by auto
  then show ?thesis using n assms(2) validate_Inr(2) [OF v] by (cases rule) (auto simp: rule_fmt_def)
qed

lemma rule_fmt_is_rule_line: "rule_wf rule \<Longrightarrow> is_rule_line (rule_fmt rule)"
  by (cases rule) (auto simp: is_rule_line_def rule_fmt_trim rule_key_def starts_with_iff)

lemma lines_join:
  assumes "list_all rule_wf rules"
  shows "lines (format_header_rules rules) = map rule_fmt rules"
proof (cases "rules = []")
  case False
  have nl: "s \<in> set (map rule_fmt rules) \<Longrightarrow> CHR 0x0A \<notin> set s" for s
    using assms rule_fmt_one_line by (auto simp: list_all_iff)
  have "split_on CHR 0x0A (format_header_rules rules) = map rule_fmt rules"
    unfolding format_header_rules_def using split_join_with [of "map rule_fmt rules" "CHR 0x0A"] nl False by simp
  moreover have "last (map rule_fmt rules) \<noteq> []"
  proof -
    have "rule_fmt r \<noteq> []" for r by (cases r) (simp_all add: rule_fmt_def)
    then show ?thesis using False by (simp add: last_map)
  qed
  moreover have "strip_cr (rule_fmt r) = rule_fmt r" if "r \<in> set rules" for r
  proof -
    have "CHR 0x0D \<notin> set (rule_fmt r)" using that assms rule_fmt_one_line by (auto simp: list_all_iff)
    then show ?thesis unfolding strip_cr_def using last_in_set [of "rule_fmt r"] by metis
  qed
  ultimately show ?thesis by (simp add: lines_def Let_def)
qed (simp add: lines_def format_header_rules_def Let_def)

lemma parse_numbered_fmt:
  "list_all rule_wf rules \<Longrightarrow> parse_numbered (List.enumerate i (map rule_fmt rules)) = Inr rules"
  by (induction rules arbitrary: i) (auto simp: rule_parse_fmt)



end
