(* ===== verification/Cache_Rules.thy ===== *)
theory Cache_Rules
  imports Header_Rules
begin

text \<open>
  What the HTTP cache reads from headers: the second half of \<open>proxy/http/cache.rs\<close> (directives,
  freshness, age, \<open>Vary\<close>, validators, what may be stored) with \<open>header_items\<close> of \<open>compression.rs\<close> and
  \<open>CacheConfig\<close> of the API crate.

  A \<open>Duration\<close> holds at most \<open>2^64\<close> seconds less a nanosecond and its addition panics beyond that, so
  an addition is an \<^typ>\<open>duration option\<close> and \<^term>\<open>None\<close> is the panic.  The date parser of the
  \<open>httpdate\<close> crate, the wall clock and the shared store are parameters.
\<close>

section \<open>Durations\<close>

definition duration_max :: duration where
  "duration_max = 2 ^ 64 * 10 ^ 9 - 1"

definition duration_add :: "duration \<Rightarrow> duration \<Rightarrow> duration option" where
  "duration_add a b = (if a + b \<le> duration_max then Some (a + b) else None)"

section \<open>Configuration\<close>

record cache_config =
  cc_enabled :: bool
  cc_max_size :: nat
  cc_max_entry_size :: nat
  cc_default_ttl :: duration
  cc_stale_while_revalidate :: duration

definition cache_is_disabled :: "cache_config \<Rightarrow> bool" where
  "cache_is_disabled c \<longleftrightarrow> \<not> cc_enabled c"

definition cache_validate :: "cache_config \<Rightarrow> unit result" where
  "cache_validate c =
     (let valid = cc_max_entry_size c > 0 \<and> cc_max_entry_size c \<le> cc_max_size c \<and> cc_max_entry_size c \<le> u32_max in
      if cc_enabled c \<and> \<not> valid then Inl InvalidCacheSize else Inr ())"

section \<open>Directives\<close>

text \<open>The wall clock is in nanoseconds since the epoch.  The body encoding (base64) and the largest value
  of the shared store are used by the theory \<open>Cache\<close>.\<close>

record cache_env =
  ce_http :: http_env
  ce_parse_date :: "string \<Rightarrow> nat option"
  ce_wall :: nat
  ce_encode :: "string \<Rightarrow> string"
  ce_decode :: "string \<Rightarrow> string option"
  ce_max_value_size :: nat

definition unix_ms :: "cache_env \<Rightarrow> nat" where
  "unix_ms e = as_millis (ce_wall e) mod 2 ^ 64"

definition header_items :: "http_env \<Rightarrow> headers \<Rightarrow> string \<Rightarrow> string list" where
  "header_items h hs name = map trim (list_elements h hs name)"

definition has_directive :: "http_env \<Rightarrow> headers \<Rightarrow> string \<Rightarrow> string \<Rightarrow> bool" where
  "has_directive h hs name directive =
     list_ex (\<lambda>item. eq_ignore_ascii_case (trim (hd (split_on CHR ''='' item))) directive) (header_items h hs name)"

definition trim_quotes :: "string \<Rightarrow> string" where
  "trim_quotes s = trim_end_matches (\<lambda>c. c = CHR 0x22) (trim_start_matches (\<lambda>c. c = CHR 0x22) s)"

definition directive_seconds :: "http_env \<Rightarrow> headers \<Rightarrow> string \<Rightarrow> duration option" where
  "directive_seconds h hs directive =
     find_map (\<lambda>item.
       case split_once CHR ''='' item of
         None \<Rightarrow> None
       | Some (name, value) \<Rightarrow>
           if \<not> eq_ignore_ascii_case (trim name) directive then None
           else map_option from_secs (parse_u64 (trim_quotes (trim value))))
       (header_items h hs ''cache-control'')"

definition has_validator :: "headers \<Rightarrow> bool" where
  "has_validator hs \<longleftrightarrow> contains_key hs ''etag'' \<or> contains_key hs ''last-modified''"

definition allows_authorized :: "http_env \<Rightarrow> headers \<Rightarrow> bool" where
  "allows_authorized h hs =
     list_ex (\<lambda>directive. has_directive h hs ''cache-control'' directive) [''public'', ''s-maxage'', ''must-revalidate'']"

definition CACHEABLE_STATUSES :: "nat list" where
  "CACHEABLE_STATUSES = [200, 203, 204, 300, 301, 308, 404, 405, 410, 414, 501]"

definition is_storable :: "http_env \<Rightarrow> nat \<Rightarrow> headers \<Rightarrow> bool \<Rightarrow> bool" where
  "is_storable h status hs authorized \<longleftrightarrow>
     status \<in> set CACHEABLE_STATUSES \<and>
     \<not> has_directive h hs ''cache-control'' ''no-store'' \<and>
     \<not> has_directive h hs ''cache-control'' ''private'' \<and>
     \<not> contains_key hs ''set-cookie'' \<and>
     (\<not> authorized \<or> allows_authorized h hs)"

definition is_storable_304 :: "http_env \<Rightarrow> headers \<Rightarrow> bool \<Rightarrow> bool" where
  "is_storable_304 h hs authorized =
     (if has_directive h hs ''cache-control'' ''no-store'' \<or> has_directive h hs ''cache-control'' ''private'' \<or>
         contains_key hs ''set-cookie''
      then False else \<not> authorized \<or> allows_authorized h hs)"

definition is_chunked :: "http_env \<Rightarrow> headers \<Rightarrow> bool" where
  "is_chunked h hs =
     list_ex (\<lambda>v. case to_str h v of None \<Rightarrow> False | Some s \<Rightarrow> eq_ignore_ascii_case s ''chunked'')
       (get_all hs ''transfer-encoding'')"

section \<open>Freshness and age\<close>

definition header_time :: "cache_env \<Rightarrow> string option \<Rightarrow> nat option" where
  "header_time e value =
     (case value of
        None \<Rightarrow> None
      | Some v \<Rightarrow> (case to_str (ce_http e) v of None \<Rightarrow> None | Some s \<Rightarrow> ce_parse_date e s))"

definition expires_lifetime :: "cache_env \<Rightarrow> headers \<Rightarrow> duration option" where
  "expires_lifetime e hs =
     (case get hs ''expires'' of
        None \<Rightarrow> None
      | Some expires \<Rightarrow>
          let date = (case header_time e (get hs ''date'') of None \<Rightarrow> ce_wall e | Some d \<Rightarrow> d)
          in Some (case header_time e (Some expires) of
                     None \<Rightarrow> 0
                   | Some t \<Rightarrow> if date \<le> t then t - date else 0))"

definition freshness :: "cache_env \<Rightarrow> headers \<Rightarrow> duration \<Rightarrow> duration" where
  "freshness e hs default_ttl =
     (if has_directive (ce_http e) hs ''cache-control'' ''no-cache'' then 0
      else case directive_seconds (ce_http e) hs ''s-maxage'' of
          Some d \<Rightarrow> d
        | None \<Rightarrow>
            (case directive_seconds (ce_http e) hs ''max-age'' of
               Some d \<Rightarrow> d
             | None \<Rightarrow> (case expires_lifetime e hs of Some d \<Rightarrow> d | None \<Rightarrow> default_ttl)))"

definition header_age :: "http_env \<Rightarrow> headers \<Rightarrow> duration" where
  "header_age h hs = (case header_number h hs ''age'' of None \<Rightarrow> 0 | Some s \<Rightarrow> from_secs s)"

definition content_length :: "http_env \<Rightarrow> headers \<Rightarrow> nat option" where
  "content_length h hs = header_number h hs ''content-length''"

section \<open>Stored responses\<close>

record stored_head =
  sd_status :: nat
  sd_headers :: headers
  sd_vary :: "(string \<times> string option) list"
  sd_initial_age :: duration
  sd_freshness :: duration

record cached_response =
  cp_head :: stored_head
  cp_body :: string
  cp_stored_at :: instant

definition cached_weight :: "cached_response \<Rightarrow> nat" where
  "cached_weight r = length (cp_body r) + sum_list (map (\<lambda>(n, v). length n + length v) (sd_headers (cp_head r)))"

definition cached_age :: "cached_response \<Rightarrow> instant \<Rightarrow> duration option" where
  "cached_age r now = duration_add (sd_initial_age (cp_head r)) (now - cp_stored_at r)"

definition is_fresh :: "cached_response \<Rightarrow> instant \<Rightarrow> bool option" where
  "is_fresh r now = map_option (\<lambda>age. age < sd_freshness (cp_head r)) (cached_age r now)"

definition stale_window :: "http_env \<Rightarrow> cached_response \<Rightarrow> duration \<Rightarrow> duration" where
  "stale_window h r swr =
     (case directive_seconds h (sd_headers (cp_head r)) ''stale-while-revalidate'' of Some d \<Rightarrow> d | None \<Rightarrow> swr)"

definition is_stale_revalidatable :: "http_env \<Rightarrow> cached_response \<Rightarrow> duration \<Rightarrow> instant \<Rightarrow> bool option" where
  "is_stale_revalidatable h r config_swr now =
     (let swr = stale_window h r config_swr in
      if swr = 0 then Some False
      else case cached_age r now of
          None \<Rightarrow> None
        | Some age \<Rightarrow>
            if age \<ge> sd_freshness (cp_head r)
            then map_option (\<lambda>until. age < until) (duration_add (sd_freshness (cp_head r)) swr)
            else Some False)"

definition vary_matches :: "cached_response \<Rightarrow> headers \<Rightarrow> bool" where
  "vary_matches r request = list_all (\<lambda>(name, value). get request name = value) (sd_vary (cp_head r))"

text \<open>\<open>EntryExpiry::lifetime\<close>: how long the store keeps an entry.\<close>

definition REVALIDATION_WINDOW :: duration where
  "REVALIDATION_WINDOW = 3600 * 10 ^ 9"

definition entry_lifetime :: "http_env \<Rightarrow> duration \<Rightarrow> cached_response \<Rightarrow> duration option" where
  "entry_lifetime h default_swr r =
     (let window = (if has_validator (sd_headers (cp_head r)) then REVALIDATION_WINDOW else 0) in
      case duration_add (sd_freshness (cp_head r) - sd_initial_age (cp_head r)) (stale_window h r default_swr) of
        None \<Rightarrow> None
      | Some d \<Rightarrow> duration_add d window)"

text \<open>\<open>vary_values\<close>: the request headers that the response depends on; \<^term>\<open>None\<close> when no request can
  match again.\<close>

fun vary_values_of :: "headers \<Rightarrow> string list \<Rightarrow> (string \<times> string option) list option" where
  "vary_values_of request [] = Some []"
| "vary_values_of request (name # names) =
     (if name = ''*'' \<or> \<not> is_header_name name then None
      else map_option (\<lambda>vs. (to_ascii_lowercase name, get request (to_ascii_lowercase name)) # vs)
             (vary_values_of request names))"

definition vary_values :: "http_env \<Rightarrow> headers \<Rightarrow> headers \<Rightarrow> (string \<times> string option) list option" where
  "vary_values h response request =
     vary_values_of request (filter (\<lambda>name. name \<noteq> []) (header_items h response ''vary''))"

section \<open>Conditional requests\<close>

definition weak_tag :: "string \<Rightarrow> string" where
  "weak_tag tag = (case strip_prefix ''W/'' tag of None \<Rightarrow> tag | Some t \<Rightarrow> t)"

definition etag_matches :: "http_env \<Rightarrow> string \<Rightarrow> string \<Rightarrow> bool" where
  "etag_matches h condition etag =
     (case to_str h condition of
        None \<Rightarrow> False
      | Some c \<Rightarrow> list_ex (\<lambda>tag. tag = ''*'' \<or> weak_tag tag = weak_tag etag) (map trim (split_on CHR '','' c)))"

definition is_not_modified :: "cache_env \<Rightarrow> headers \<Rightarrow> headers \<Rightarrow> bool" where
  "is_not_modified e request stored =
     (case get request ''if-none-match'' of
        Some condition \<Rightarrow>
          (case get stored ''etag'' of None \<Rightarrow> False | Some etag \<Rightarrow> etag_matches (ce_http e) condition etag)
      | None \<Rightarrow>
          (case (header_time e (get request ''if-modified-since''), header_time e (get stored ''last-modified'')) of
             (Some since, Some modified) \<Rightarrow> modified \<le> since
           | _ \<Rightarrow> False))"

definition set_validators :: "headers \<Rightarrow> headers \<Rightarrow> headers" where
  "set_validators hs stored =
     (let hs1 = hremove (hremove hs ''if-none-match'') ''if-modified-since'';
          hs2 = (case get stored ''etag'' of None \<Rightarrow> hs1 | Some v \<Rightarrow> hinsert hs1 ''if-none-match'' v)
      in case get stored ''last-modified'' of None \<Rightarrow> hs2 | Some v \<Rightarrow> hinsert hs2 ''if-modified-since'' v)"

definition strip_304_headers :: "headers \<Rightarrow> headers" where
  "strip_304_headers hs =
     fold (\<lambda>name hs. hremove hs name)
       [''content-length'', ''content-type'', ''content-encoding'', ''content-language'', ''content-range''] hs"

text \<open>\<open>merge_304_headers\<close>: every header of the 304 response replaces the stored one, except its length
  and, for a stored entry, its cookies.  \<open>HeaderMap::keys\<close> gives each name once.\<close>

definition header_keys :: "headers \<Rightarrow> string list" where
  "header_keys hs = remdups (map fst hs)"

definition replace_header :: "headers \<Rightarrow> string \<Rightarrow> headers \<Rightarrow> headers" where
  "replace_header response name hs = foldl (\<lambda>hs v. happend hs name v) (hremove hs name) (get_all response name)"

definition merge_304_headers ::
    "cache_env \<Rightarrow> cached_response \<Rightarrow> headers \<Rightarrow> duration \<Rightarrow> bool \<Rightarrow> instant \<Rightarrow> cached_response" where
  "merge_304_headers e entry response default_ttl filter_cookie now =
     (let names = filter (\<lambda>name. name \<noteq> ''content-length'' \<and> (\<not> filter_cookie \<or> name \<noteq> ''set-cookie''))
            (header_keys response);
          merged = fold (replace_header response) names (sd_headers (cp_head entry))
      in \<lparr>cp_head = (cp_head entry)\<lparr>sd_headers := merged, sd_initial_age := header_age (ce_http e) response,
                                    sd_freshness := freshness e merged default_ttl\<rparr>,
          cp_body = cp_body entry,
          cp_stored_at = now\<rparr>)"

section \<open>Requests\<close>

definition is_unsafe_method :: "string \<Rightarrow> bool" where
  "is_unsafe_method method \<longleftrightarrow> method \<notin> {''GET'', ''HEAD'', ''OPTIONS'', ''TRACE''}"

definition is_lookup_allowed :: "http_env \<Rightarrow> headers \<Rightarrow> bool" where
  "is_lookup_allowed h hs \<longleftrightarrow>
     \<not> has_directive h hs ''cache-control'' ''no-cache'' \<and> \<not> has_directive h hs ''pragma'' ''no-cache''"

definition is_cacheable_request :: "http_env \<Rightarrow> string \<Rightarrow> headers \<Rightarrow> bool" where
  "is_cacheable_request h method hs \<longleftrightarrow>
     method \<in> {''GET'', ''HEAD''} \<and> \<not> contains_key hs ''range'' \<and> \<not> contains_key hs ''upgrade'' \<and>
     \<not> has_directive h hs ''cache-control'' ''no-store''"

text \<open>\<open>splitn(3, ' ')\<close> and the parts of a cache key.\<close>

definition splitn3 :: "char \<Rightarrow> string \<Rightarrow> string list" where
  "splitn3 c s =
     (case split_once c s of
        None \<Rightarrow> [s]
      | Some (a, r) \<Rightarrow> (case split_once c r of None \<Rightarrow> [a, r] | Some (b, r') \<Rightarrow> [a, b, r']))"

definition extract_key_path :: "string \<Rightarrow> string" where
  "extract_key_path key =
     (case splitn3 CHR '' '' key of [_, _, path] \<Rightarrow> path | [_, path] \<Rightarrow> path | _ \<Rightarrow> key)"

definition extract_key_host :: "string \<Rightarrow> string" where
  "extract_key_host key =
     (case splitn3 CHR '' '' key of [_, host, _] \<Rightarrow> host | [host, _] \<Rightarrow> host | _ \<Rightarrow> [])"

section \<open>Merging a 304 response\<close>

lemma get_all_replace_header [simp]:
  "get_all (replace_header response name hs) m = (if m = name then get_all response name else get_all hs m)"
  by (simp add: replace_header_def get_all_foldl_happend)

lemma get_all_replace_headers:
  "get_all (fold (replace_header response) names hs) m = (if m \<in> set names then get_all response m else get_all hs m)"
  by (induction names arbitrary: hs) auto

lemma header_keys_iff: "name \<in> set (header_keys hs) \<longleftrightarrow> contains_key hs name"
  by (auto simp: header_keys_def contains_key_def get_all_def filter_empty_conv image_iff)

lemma get_all_merge_304:
  "get_all (sd_headers (cp_head (merge_304_headers e entry response ttl fc now))) m =
     (if contains_key response m \<and> m \<noteq> ''content-length'' \<and> (\<not> fc \<or> m \<noteq> ''set-cookie'')
      then get_all response m else get_all (sd_headers (cp_head entry)) m)"
  by (simp add: merge_304_headers_def Let_def get_all_replace_headers header_keys_iff)

lemma has_directive_cong: "get_all hs n = get_all hs' n \<Longrightarrow> has_directive h hs n d = has_directive h hs' n d"
  by (simp add: has_directive_def header_items_def list_elements_def)

lemma contains_key_cong: "get_all hs n = get_all hs' n \<Longrightarrow> contains_key hs n = contains_key hs' n"
  by (simp add: contains_key_def)

text \<open>The headers of a response that a shared cache may keep.\<close>

definition shareable_headers :: "http_env \<Rightarrow> headers \<Rightarrow> bool" where
  "shareable_headers h hs \<longleftrightarrow> \<not> has_directive h hs ''cache-control'' ''no-store'' \<and>
     \<not> has_directive h hs ''cache-control'' ''private'' \<and> \<not> contains_key hs ''set-cookie''"

lemma is_storable_shareable: "is_storable h status hs a \<Longrightarrow> shareable_headers h hs"
  by (simp add: is_storable_def shareable_headers_def)

lemma merge_304_shareable:
  assumes "shareable_headers (ce_http e) (sd_headers (cp_head entry))" and "is_storable_304 (ce_http e) response a"
  shows "shareable_headers (ce_http e) (sd_headers (cp_head (merge_304_headers e entry response ttl True now)))"
proof -
  let ?m = "sd_headers (cp_head (merge_304_headers e entry response ttl True now))"
  have cc: "get_all ?m ''cache-control'' =
      get_all (if contains_key response ''cache-control'' then response else sd_headers (cp_head entry)) ''cache-control''"
    by (simp add: get_all_merge_304)
  have "get_all ?m ''set-cookie'' = get_all (sd_headers (cp_head entry)) ''set-cookie''"
    by (simp add: get_all_merge_304)
  then have cookie: "contains_key ?m ''set-cookie'' = contains_key (sd_headers (cp_head entry)) ''set-cookie''"
    by (rule contains_key_cong)
  have resp: "\<not> has_directive (ce_http e) response ''cache-control'' ''no-store''"
      "\<not> has_directive (ce_http e) response ''cache-control'' ''private''"
    using assms(2) unfolding is_storable_304_def by presburger+
  have dir: "has_directive (ce_http e) ?m ''cache-control'' d =
      has_directive (ce_http e) (if contains_key response ''cache-control'' then response else sd_headers (cp_head entry))
        ''cache-control'' d" for d
    by (rule has_directive_cong [OF cc])
  show ?thesis
    using assms(1) resp unfolding shareable_headers_def cookie dir by presburger
qed

section \<open>The parts of a key\<close>

lemma key_parts:
  assumes "CHR '' '' \<notin> set proto" and "CHR '' '' \<notin> set host"
  shows "extract_key_host (proto @ '' '' @ host @ '' '' @ path) = host"
    and "extract_key_path (proto @ '' '' @ host @ '' '' @ path) = path"
  using split_once_append [OF assms(1), of "host @ '' '' @ path"] split_once_append [OF assms(2), of path]
  by (simp_all add: extract_key_host_def extract_key_path_def splitn3_def)

end
