(* ===== verification/Cache.thy ===== *)
theory Cache
  imports Cache_Rules Registry "HOL-Library.Multiset" "HOL-Library.Code_Target_Nat"
begin

text \<open>
  The HTTP cache of a proxy: \<open>HttpCache\<close>, \<open>CacheRequest\<close>, the recorder of a response body and \<open>fetch\<close> of
  \<open>proxy/http/cache.rs\<close>, and the responses that the nodes of a cluster share of
  \<open>proxy/http/cache_share.rs\<close>.

  The store of the entries is the \<open>moka\<close> crate: a map that may drop an entry at any time and that asks
  for the lifetime of every entry it takes, which panics when it overflows (\<open>cache_insert\<close> is
  \<^term>\<open>None\<close> then).  The upstream server is whatever answers; the counters of the statistics are left
  out.
\<close>

section \<open>Shared responses\<close>

record shared_response =
  sr_status :: nat
  sr_headers :: "(string \<times> string) list"
  sr_vary :: "(string \<times> string option) list"
  sr_initial_age :: nat
  sr_freshness :: nat
  sr_stored_at :: nat
  sr_body :: string

datatype share_command = SharePut string shared_response | ShareDelete string

definition WRITE_QUEUE :: nat where "WRITE_QUEUE = 64"
definition ENTRY_OVERHEAD :: nat where "ENTRY_OVERHEAD = 256"
definition MIN_SHARED_FRESHNESS :: duration where "MIN_SHARED_FRESHNESS = 60 * 10 ^ 9"

definition sat_add_u64 :: "nat \<Rightarrow> nat \<Rightarrow> nat" where
  "sat_add_u64 a b = min (a + b) u64_max"

text \<open>\<open>as_millis() as u64\<close> keeps the low 64 bits.\<close>

definition expires_at :: "shared_response \<Rightarrow> nat option" where
  "expires_at r =
     map_option (\<lambda>lifetime. sat_add_u64 (sr_stored_at r) (as_millis lifetime mod 2 ^ 64))
       (duration_add (from_secs (sr_freshness r - sr_initial_age r)) REVALIDATION_WINDOW)"

definition shared_size :: "shared_response \<Rightarrow> nat" where
  "shared_size r = length (sr_body r) + sum_list (map (\<lambda>(n, v). length n + length v) (sr_headers r)) + ENTRY_OVERHEAD"

record cache_share =
  cx_purged_at :: nat
  cx_max_size :: nat
  cx_current_size :: nat
  cx_queue :: "share_command list"

definition cache_share_new :: "nat \<Rightarrow> nat \<Rightarrow> cache_share" where
  "cache_share_new purged_at max_size =
     \<lparr>cx_purged_at = purged_at, cx_max_size = max_size, cx_current_size = 0, cx_queue = []\<rparr>"

definition share_accepts :: "cache_env \<Rightarrow> cache_share \<Rightarrow> duration \<Rightarrow> nat \<Rightarrow> bool" where
  "share_accepts e x remaining body_len \<longleftrightarrow>
     (let entry_size = (body_len + 2) div 3 * 4 + ENTRY_OVERHEAD in
      remaining \<ge> MIN_SHARED_FRESHNESS \<and> entry_size \<le> ce_max_value_size e \<and>
      sat_add_u64 (cx_current_size x) entry_size \<le> cx_max_size x)"

text \<open>\<open>try_send\<close> fails when the queue is full; \<open>fetch_add\<close> wraps.\<close>

definition share_offer :: "cache_env \<Rightarrow> cache_share \<Rightarrow> string \<Rightarrow> shared_response \<Rightarrow> cache_share" where
  "share_offer e x key r =
     (let n = shared_size r in
      if n > ce_max_value_size e \<or> sr_stored_at r < cx_purged_at x then x
      else if sat_add_u64 (cx_current_size x) n > cx_max_size x then x
      else if length (cx_queue x) \<ge> WRITE_QUEUE then x
      else x\<lparr>cx_queue := cx_queue x @ [SharePut key r],
             cx_current_size := (cx_current_size x + n) mod 2 ^ 64\<rparr>)"

definition share_invalidate :: "cache_share \<Rightarrow> string \<Rightarrow> cache_share" where
  "share_invalidate x key =
     (if length (cx_queue x) \<ge> WRITE_QUEUE then x else x\<lparr>cx_queue := cx_queue x @ [ShareDelete key]\<rparr>)"

definition share_lookup :: "cache_share \<Rightarrow> shared_response option \<Rightarrow> shared_response option" where
  "share_lookup x answer =
     (case answer of None \<Rightarrow> None | Some r \<Rightarrow> if sr_stored_at r \<ge> cx_purged_at x then Some r else None)"

definition share_purge :: "cache_share \<Rightarrow> nat \<Rightarrow> cache_share" where
  "share_purge x t = x\<lparr>cx_purged_at := max (cx_purged_at x) t, cx_current_size := 0\<rparr>"

text \<open>The task that writes the queue takes one command at a time.\<close>

definition share_written :: "cache_share \<Rightarrow> cache_share" where
  "share_written x = x\<lparr>cx_queue := tl (cx_queue x)\<rparr>"

fun text_headers :: "http_env \<Rightarrow> headers \<Rightarrow> (string \<times> string) list option" where
  "text_headers h [] = Some []"
| "text_headers h ((n, v) # hs) =
     (case to_str h v of None \<Rightarrow> None | Some s \<Rightarrow> map_option (\<lambda>ts. (n, s) # ts) (text_headers h hs))"

fun text_vary :: "http_env \<Rightarrow> (string \<times> string option) list \<Rightarrow> (string \<times> string option) list option" where
  "text_vary h [] = Some []"
| "text_vary h ((n, v) # vs) =
     (case v of
        None \<Rightarrow> map_option (\<lambda>ts. (n, None) # ts) (text_vary h vs)
      | Some x \<Rightarrow> (case to_str h x of None \<Rightarrow> None | Some s \<Rightarrow> map_option (\<lambda>ts. (n, Some s) # ts) (text_vary h vs)))"

definition to_shared :: "cache_env \<Rightarrow> cached_response \<Rightarrow> nat \<Rightarrow> shared_response option" where
  "to_shared e r stored_at =
     (case text_headers (ce_http e) (sd_headers (cp_head r)) of
        None \<Rightarrow> None
      | Some hs \<Rightarrow>
          (case text_vary (ce_http e) (sd_vary (cp_head r)) of
             None \<Rightarrow> None
           | Some vs \<Rightarrow>
               Some \<lparr>sr_status = sd_status (cp_head r), sr_headers = hs, sr_vary = vs,
                     sr_initial_age = as_secs (sd_initial_age (cp_head r)),
                     sr_freshness = as_secs (sd_freshness (cp_head r)),
                     sr_stored_at = stored_at, sr_body = ce_encode e (cp_body r)\<rparr>))"

fun parse_headers :: "http_env \<Rightarrow> (string \<times> string) list \<Rightarrow> headers option" where
  "parse_headers h [] = Some []"
| "parse_headers h ((n, v) # hs) =
     (if \<not> is_header_name n then None
      else case header_from_str h v of
          None \<Rightarrow> None
        | Some x \<Rightarrow> map_option (\<lambda>rest. (to_ascii_lowercase n, x) # rest) (parse_headers h hs))"

fun parse_vary :: "http_env \<Rightarrow> (string \<times> string option) list \<Rightarrow> (string \<times> string option) list option" where
  "parse_vary h [] = Some []"
| "parse_vary h ((n, v) # vs) =
     (case v of
        None \<Rightarrow>
          if is_header_name n then map_option (\<lambda>rest. (to_ascii_lowercase n, None) # rest) (parse_vary h vs) else None
      | Some s \<Rightarrow>
          (case header_from_str h s of
             None \<Rightarrow> None
           | Some x \<Rightarrow>
               if is_header_name n
               then map_option (\<lambda>rest. (to_ascii_lowercase n, Some x) # rest) (parse_vary h vs) else None))"

text \<open>\<open>from_shared\<close>: \<open>Inl False\<close> is an invalid response and \<open>Inl True\<close> the panic of an addition.\<close>

definition from_shared :: "cache_env \<Rightarrow> shared_response \<Rightarrow> nat \<Rightarrow> instant \<Rightarrow> bool + cached_response" where
  "from_shared e r now_ms now =
     (case parse_headers (ce_http e) (sr_headers r) of
        None \<Rightarrow> Inl False
      | Some hs \<Rightarrow>
          (case parse_vary (ce_http e) (sr_vary r) of
             None \<Rightarrow> Inl False
           | Some vs \<Rightarrow>
               if \<not> (100 \<le> sr_status r \<and> sr_status r \<le> 999) then Inl False
               else case duration_add (from_secs (sr_initial_age r)) (from_millis (now_ms - sr_stored_at r)) of
                   None \<Rightarrow> Inl True
                 | Some age \<Rightarrow>
                     (case ce_decode e (sr_body r) of
                        None \<Rightarrow> Inl False
                      | Some body \<Rightarrow>
                          Inr \<lparr>cp_head = \<lparr>sd_status = sr_status r, sd_headers = hs, sd_vary = vs,
                                sd_initial_age = age, sd_freshness = from_secs (sr_freshness r)\<rparr>,
                               cp_body = body, cp_stored_at = now\<rparr>)))"

section \<open>The cache\<close>

record http_cache =
  hc_config :: cache_config
  hc_entries :: "string \<Rightarrow> cached_response option"
  hc_share :: "cache_share option"
  hc_revalidating :: "string list"
  hc_in_flight :: "string list"

definition http_cache_new :: "cache_config \<Rightarrow> cache_share option \<Rightarrow> http_cache" where
  "http_cache_new config share =
     \<lparr>hc_config = config, hc_entries = (\<lambda>_. None), hc_share = share, hc_revalidating = [], hc_in_flight = []\<rparr>"

definition cache_insert :: "http_env \<Rightarrow> http_cache \<Rightarrow> string \<Rightarrow> cached_response \<Rightarrow> http_cache option" where
  "cache_insert h c key entry =
     (case entry_lifetime h (cc_stale_while_revalidate (hc_config c)) entry of
        None \<Rightarrow> None
      | Some _ \<Rightarrow> Some (c\<lparr>hc_entries := (hc_entries c)(key \<mapsto> entry)\<rparr>))"

definition invalidate_key :: "http_cache \<Rightarrow> string \<Rightarrow> http_cache" where
  "invalidate_key c key =
     c\<lparr>hc_entries := (hc_entries c)(key := None), hc_share := map_option (\<lambda>x. share_invalidate x key) (hc_share c)\<rparr>"

definition invalidate_target :: "http_cache \<Rightarrow> string \<Rightarrow> string \<Rightarrow> string \<Rightarrow> http_cache" where
  "invalidate_target c key host path =
     (let c1 = invalidate_key c key in
      if host \<noteq> [] \<and> path \<noteq> []
      then invalidate_key (invalidate_key (invalidate_key c1 (''http '' @ host @ '' '' @ path))
             (''https '' @ host @ '' '' @ path)) (host @ '' '' @ path)
      else c1)"

definition purge_matches :: "string \<Rightarrow> string \<Rightarrow> bool" where
  "purge_matches p key \<longleftrightarrow> extract_key_path key = p \<or> starts_with p (extract_key_path key)"

definition cache_purge_path :: "http_cache \<Rightarrow> string \<Rightarrow> http_cache" where
  "cache_purge_path c path =
     c\<lparr>hc_entries := (\<lambda>key. if purge_matches (str_trim path) key then None else hc_entries c key)\<rparr>"

definition cache_purge_all :: "http_cache \<Rightarrow> nat \<Rightarrow> http_cache" where
  "cache_purge_all c t =
     c\<lparr>hc_entries := (\<lambda>_. None), hc_share := map_option (\<lambda>x. share_purge x t) (hc_share c)\<rparr>"

text \<open>A flight is the request that fetches a key while the others wait: \<^term>\<open>True\<close> for the leader.\<close>

definition start_flight :: "http_cache \<Rightarrow> string \<Rightarrow> bool \<times> http_cache" where
  "start_flight c key =
     (if key \<in> set (hc_in_flight c) then (False, c) else (True, c\<lparr>hc_in_flight := key # hc_in_flight c\<rparr>))"

definition end_flight :: "http_cache \<Rightarrow> string \<Rightarrow> http_cache" where
  "end_flight c key = c\<lparr>hc_in_flight := filter (\<lambda>k. k \<noteq> key) (hc_in_flight c)\<rparr>"

definition mark_revalidating :: "http_cache \<Rightarrow> string \<Rightarrow> bool \<times> http_cache" where
  "mark_revalidating c key =
     (if key \<in> set (hc_revalidating c) then (False, c)
      else (True, c\<lparr>hc_revalidating := key # hc_revalidating c\<rparr>))"

definition finish_revalidating :: "http_cache \<Rightarrow> string \<Rightarrow> http_cache" where
  "finish_revalidating c key = c\<lparr>hc_revalidating := filter (\<lambda>k. k \<noteq> key) (hc_revalidating c)\<rparr>"

definition refresh_entry ::
    "cache_env \<Rightarrow> http_cache \<Rightarrow> string \<Rightarrow> cached_response \<Rightarrow> headers \<Rightarrow> instant \<Rightarrow> (cached_response \<times> http_cache) option" where
  "refresh_entry e c key entry response now =
     (let refreshed = merge_304_headers e entry response (cc_default_ttl (hc_config c)) True now in
      map_option (Pair refreshed) (cache_insert (ce_http e) c key refreshed))"

definition store_entry :: "cache_env \<Rightarrow> http_cache \<Rightarrow> string \<Rightarrow> stored_head \<Rightarrow> string \<Rightarrow> instant \<Rightarrow> http_cache option" where
  "store_entry e c key head body now =
     cache_insert (ce_http e) c key \<lparr>cp_head = head, cp_body = body, cp_stored_at = now\<rparr>"

section \<open>Requests\<close>

record cache_request =
  cq_key :: string
  cq_head :: bool
  cq_headers :: headers
  cq_lookup :: bool
  cq_authorized :: bool
  cq_unsafe :: bool
  cq_host :: string
  cq_path :: string

text \<open>The second result is the headers of the request that goes upstream.\<close>

definition cache_request_new ::
    "http_env \<Rightarrow> string \<Rightarrow> headers \<Rightarrow> string \<Rightarrow> bool \<Rightarrow> (cache_request \<times> headers) option" where
  "cache_request_new h method hs key authorized =
     (let unsafe = is_unsafe_method method in
      if \<not> unsafe \<and> \<not> is_cacheable_request h method hs then None
      else
        let hs' = (if \<not> unsafe then hremove hs ''accept-encoding'' else hs)
        in Some (\<lparr>cq_key = key, cq_head = (method = ''HEAD''), cq_headers = hs',
                  cq_lookup = (\<not> unsafe \<and> is_lookup_allowed h hs'), cq_authorized = authorized,
                  cq_unsafe = unsafe, cq_host = extract_key_host key, cq_path = extract_key_path key\<rparr>, hs'))"

definition stored :: "cache_request \<Rightarrow> http_cache \<Rightarrow> cached_response option" where
  "stored q c =
     (if \<not> cq_lookup q then None
      else case hc_entries c (cq_key q) of
          None \<Rightarrow> None
        | Some entry \<Rightarrow> if vary_matches entry (cq_headers q) then Some entry else None)"

record response =
  res_status :: nat
  res_headers :: headers
  res_body :: string

definition respond :: "cache_env \<Rightarrow> cache_request \<Rightarrow> cached_response \<Rightarrow> instant \<Rightarrow> response option" where
  "respond e q entry now =
     (let not_modified = is_not_modified e (cq_headers q) (sd_headers (cp_head entry));
          hs = (if not_modified then strip_304_headers (sd_headers (cp_head entry)) else sd_headers (cp_head entry))
      in case cached_age entry now of
           None \<Rightarrow> None
         | Some age \<Rightarrow>
             Some \<lparr>res_status = (if not_modified then 304 else sd_status (cp_head entry)),
                   res_headers = hinsert (hinsert hs ''age'' (to_radix 10 (as_secs age))) ''x-cache'' ''HIT'',
                   res_body = (if cq_head q \<or> not_modified then [] else cp_body entry)\<rparr>)"

definition respond_stale :: "cache_env \<Rightarrow> cache_request \<Rightarrow> cached_response \<Rightarrow> instant \<Rightarrow> response option" where
  "respond_stale e q entry now =
     map_option (\<lambda>r. r\<lparr>res_headers := hinsert (res_headers r) ''x-cache'' ''STALE''\<rparr>) (respond e q entry now)"

definition storable_head ::
    "cache_env \<Rightarrow> cache_config \<Rightarrow> cache_request \<Rightarrow> nat \<Rightarrow> headers \<Rightarrow> stored_head option" where
  "storable_head e config q status hs =
     (let h = ce_http e; fresh = freshness e hs (cc_default_ttl config);
          too_large = (case content_length h hs of None \<Rightarrow> False | Some n \<Rightarrow> n > cc_max_entry_size config)
      in if cq_head q \<or> \<not> is_storable h status hs (cq_authorized q) then None
         else if content_length h hs = None \<and> \<not> is_chunked h hs then None
         else if too_large \<or> fresh = 0 \<and> \<not> has_validator hs then None
         else map_option (\<lambda>vary. \<lparr>sd_status = status, sd_headers = hs, sd_vary = vary,
                  sd_initial_age = header_age h hs, sd_freshness = fresh\<rparr>)
                (vary_values h hs (cq_headers q)))"

section \<open>Recording a body\<close>

definition share_response :: "cache_env \<Rightarrow> cache_share \<Rightarrow> string \<Rightarrow> cached_response \<Rightarrow> cache_share" where
  "share_response e x key entry =
     (let remaining = sd_freshness (cp_head entry) - sd_initial_age (cp_head entry) in
      if \<not> share_accepts e x remaining (length (cp_body entry)) then x
      else case to_shared e entry (unix_ms e) of None \<Rightarrow> x | Some r \<Rightarrow> share_offer e x key r)"

text \<open>A flight guard is its key.  Finishing it and dropping it do the same.\<close>

definition release_guard :: "http_cache \<Rightarrow> string option \<Rightarrow> http_cache" where
  "release_guard c guard = (case guard of None \<Rightarrow> c | Some key \<Rightarrow> end_flight c key)"

record recorder =
  rc_head :: "stored_head option"
  rc_buffer :: string
  rc_expected :: "nat option"
  rc_max_size :: nat
  rc_key :: string
  rc_guard :: "string option"
  rc_chunked :: bool

definition recorder_abort :: "http_cache \<Rightarrow> recorder \<Rightarrow> http_cache \<times> recorder" where
  "recorder_abort c r =
     (release_guard c (rc_guard r), r\<lparr>rc_head := None, rc_buffer := [], rc_guard := None\<rparr>)"

definition recorder_finish ::
    "cache_env \<Rightarrow> http_cache \<Rightarrow> recorder \<Rightarrow> bool \<Rightarrow> instant \<Rightarrow> (http_cache \<times> recorder) option" where
  "recorder_finish e c r completed_cleanly now =
     (let r1 = r\<lparr>rc_guard := None, rc_head := None, rc_buffer := []\<rparr> in
      case rc_head r of
        None \<Rightarrow> Some (release_guard c (rc_guard r), r1)
      | Some head \<Rightarrow>
          if (case rc_expected r of
                Some n \<Rightarrow> n \<noteq> length (rc_buffer r)
              | None \<Rightarrow> \<not> rc_chunked r \<or> \<not> completed_cleanly)
          then Some (release_guard c (rc_guard r), r1)
          else
            let entry = \<lparr>cp_head = head, cp_body = rc_buffer r, cp_stored_at = now\<rparr>;
                c1 = c\<lparr>hc_share := map_option (\<lambda>x. share_response e x (rc_key r) entry) (hc_share c)\<rparr>
            in map_option (\<lambda>c2. (release_guard c2 (rc_guard r), r1\<lparr>rc_key := []\<rparr>))
                 (cache_insert (ce_http e) c1 (rc_key r) entry))"

datatype body_frame = BodyData string | BodyTrailers

datatype body_poll = PollPending | PollFrame body_frame | PollError | PollEnd bool

fun recorder_record ::
    "cache_env \<Rightarrow> http_cache \<Rightarrow> recorder \<Rightarrow> body_frame \<Rightarrow> instant \<Rightarrow> (http_cache \<times> recorder) option" where
  "recorder_record e c r BodyTrailers now = Some (recorder_abort c r)"
| "recorder_record e c r (BodyData data) now =
     (if rc_head r = None then Some (c, r)
      else if length (rc_buffer r) + length data > rc_max_size r then Some (recorder_abort c r)
      else
        let r1 = r\<lparr>rc_buffer := rc_buffer r @ data\<rparr> in
        if rc_expected r1 = Some (length (rc_buffer r1)) then recorder_finish e c r1 True now
        else Some (c, r1))"

text \<open>\<open>RecordingBody::poll_frame\<close>; the end of the body carries \<open>is_end_stream\<close> of the inner body.\<close>

fun recording_poll ::
    "cache_env \<Rightarrow> http_cache \<Rightarrow> recorder \<Rightarrow> body_poll \<Rightarrow> instant \<Rightarrow> (http_cache \<times> recorder) option" where
  "recording_poll e c r PollPending now = Some (c, r)"
| "recording_poll e c r (PollFrame frame) now = recorder_record e c r frame now"
| "recording_poll e c r PollError now = Some (recorder_abort c r)"
| "recording_poll e c r (PollEnd clean) now = recorder_finish e c r clean now"

fun recording_polls ::
    "cache_env \<Rightarrow> http_cache \<Rightarrow> recorder \<Rightarrow> (body_poll \<times> instant) list \<Rightarrow> (http_cache \<times> recorder) option" where
  "recording_polls e c r [] = Some (c, r)"
| "recording_polls e c r ((p, now) # ps) =
     (case recording_poll e c r p now of None \<Rightarrow> None | Some (c1, r1) \<Rightarrow> recording_polls e c1 r1 ps)"

section \<open>Answering a request\<close>

definition cache_store ::
    "cache_env \<Rightarrow> http_cache \<Rightarrow> cache_request \<Rightarrow> nat \<Rightarrow> headers \<Rightarrow> string option \<Rightarrow>
     headers \<times> recorder option \<times> http_cache" where
  "cache_store e c q status hs guard =
     (let hs' = hinsert hs ''x-cache'' ''MISS'' in
      case storable_head e (hc_config c) q status hs of
        None \<Rightarrow> (hs', None, release_guard c guard)
      | Some head \<Rightarrow>
          (hs', Some \<lparr>rc_head = Some head, rc_buffer = [], rc_expected = content_length (ce_http e) hs',
                      rc_max_size = cc_max_entry_size (hc_config c), rc_key = cq_key q, rc_guard = guard,
                      rc_chunked = is_chunked (ce_http e) hs'\<rparr>, c))"

text \<open>\<open>answer\<close> is what the shared store returns for the key, \<^term>\<open>None\<close> for an error or no answer in
  time.\<close>

definition cache_shared ::
    "cache_env \<Rightarrow> http_cache \<Rightarrow> cache_request \<Rightarrow> shared_response option \<Rightarrow> instant \<Rightarrow>
     (cached_response option \<times> http_cache) option" where
  "cache_shared e c q answer now =
     (if \<not> cq_lookup q then Some (None, c)
      else case hc_share c of
        None \<Rightarrow> Some (None, c)
      | Some x \<Rightarrow>
          (case share_lookup x answer of
             None \<Rightarrow> Some (None, c)
           | Some r \<Rightarrow>
               (case from_shared e r (unix_ms e) now of
                  Inl panic \<Rightarrow> if panic then None else Some (None, c)
                | Inr entry \<Rightarrow>
                    if \<not> vary_matches entry (cq_headers q) then Some (None, c)
                    else map_option (Pair (Some entry)) (cache_insert (ce_http e) c (cq_key q) entry))))"

definition find_stored ::
    "cache_env \<Rightarrow> http_cache \<Rightarrow> cache_request \<Rightarrow> shared_response option \<Rightarrow> instant \<Rightarrow>
     (cached_response option \<times> http_cache) option" where
  "find_stored e c q answer now =
     (case stored q c of Some entry \<Rightarrow> Some (Some entry, c) | None \<Rightarrow> cache_shared e c q answer now)"

text \<open>A background revalidation with the request it sends.\<close>

record revalidation =
  rv_key :: string
  rv_request :: headers
  rv_entry :: cached_response
  rv_authorized :: bool
  rv_head :: bool
  rv_req_headers :: headers

definition revalidate_background ::
    "http_cache \<Rightarrow> cache_request \<Rightarrow> cached_response \<Rightarrow> headers \<Rightarrow> revalidation option \<times> http_cache" where
  "revalidate_background c q entry original =
     (let (marked, c1) = mark_revalidating c (cq_key q) in
      if \<not> marked then (None, c1)
      else (Some \<lparr>rv_key = cq_key q, rv_request = set_validators original (sd_headers (cp_head entry)),
                  rv_entry = entry, rv_authorized = cq_authorized q, rv_head = cq_head q,
                  rv_req_headers = cq_headers q\<rparr>, c1))"

text \<open>
  \<open>fetch\<close> up to the first contact with another party: an answer from the cache, an answer with a
  background revalidation, or a request to the upstream server, as the leader of the flight or after
  waiting for it.  The instants that one call reads are one instant.
\<close>

datatype fetch_plan =
    PlanHit response
  | PlanStale response "revalidation option"
  | PlanLead "cached_response option"
  | PlanFollow "cached_response option"

definition fetch_flight :: "http_cache \<Rightarrow> cache_request \<Rightarrow> cached_response option \<Rightarrow> fetch_plan \<times> http_cache" where
  "fetch_flight c q st =
     (let (leader, c1) = start_flight c (cq_key q) in (if leader then PlanLead st else PlanFollow st, c1))"

definition fetch_begin ::
    "cache_env \<Rightarrow> http_cache \<Rightarrow> cache_request \<Rightarrow> headers \<Rightarrow> shared_response option \<Rightarrow> instant \<Rightarrow>
     (fetch_plan \<times> http_cache) option" where
  "fetch_begin e c q original answer now =
     (case find_stored e c q answer now of
        None \<Rightarrow> None
      | Some (None, c1) \<Rightarrow> Some (fetch_flight c1 q None)
      | Some (Some entry, c1) \<Rightarrow>
          (case is_fresh entry now of
             None \<Rightarrow> None
           | Some True \<Rightarrow> map_option (\<lambda>res. (PlanHit res, c1)) (respond e q entry now)
           | Some False \<Rightarrow>
               (case is_stale_revalidatable (ce_http e) entry (cc_stale_while_revalidate (hc_config c1)) now of
                  None \<Rightarrow> None
                | Some True \<Rightarrow>
                    (case revalidate_background c1 q entry original of
                       (task, c2) \<Rightarrow> map_option (\<lambda>res. (PlanStale res task, c2)) (respond_stale e q entry now))
                | Some False \<Rightarrow> Some (fetch_flight c1 q (Some entry)))))"

text \<open>A follower looks before it waits and again when the leader has finished.\<close>

definition flight_look :: "cache_env \<Rightarrow> http_cache \<Rightarrow> cache_request \<Rightarrow> instant \<Rightarrow> response option option" where
  "flight_look e c q now =
     (case stored q c of
        None \<Rightarrow> Some None
      | Some entry \<Rightarrow>
          (case is_fresh entry now of
             None \<Rightarrow> None
           | Some True \<Rightarrow> map_option Some (respond e q entry now)
           | Some False \<Rightarrow> Some None))"

definition wait_for_flight ::
    "cache_env \<Rightarrow> cache_request \<Rightarrow> http_cache \<Rightarrow> instant \<Rightarrow> http_cache \<Rightarrow> instant \<Rightarrow> response option option" where
  "wait_for_flight e q c now c' now' =
     (case flight_look e c q now of
        None \<Rightarrow> None
      | Some (Some res) \<Rightarrow> Some (Some res)
      | Some None \<Rightarrow> flight_look e c' q now')"

definition handle_304 ::
    "cache_env \<Rightarrow> http_cache \<Rightarrow> cache_request \<Rightarrow> cached_response \<Rightarrow> headers \<Rightarrow> instant \<Rightarrow>
     (response \<times> http_cache) option" where
  "handle_304 e c q entry hs now =
     (if is_storable_304 (ce_http e) hs (cq_authorized q)
      then case refresh_entry e c (cq_key q) entry hs now of
          None \<Rightarrow> None
        | Some (refreshed, c1) \<Rightarrow> map_option (\<lambda>res. (res, c1)) (respond e q refreshed now)
      else map_option (\<lambda>res. (res, c))
             (respond e q (merge_304_headers e entry hs (cc_default_ttl (hc_config c)) False now) now))"

text \<open>\<open>fetch_upstream\<close>: the request that it sends and what it makes of the answer.\<close>

datatype fetch_result = FromCache response | FromUpstream nat headers "recorder option"

definition fetch_request :: "headers \<Rightarrow> cached_response option \<Rightarrow> headers" where
  "fetch_request hs st = (case st of None \<Rightarrow> hs | Some entry \<Rightarrow> set_validators hs (sd_headers (cp_head entry)))"

definition fetch_response ::
    "cache_env \<Rightarrow> http_cache \<Rightarrow> cache_request \<Rightarrow> cached_response option \<Rightarrow> string option \<Rightarrow> nat \<Rightarrow> headers \<Rightarrow>
     instant \<Rightarrow> (fetch_result \<times> http_cache) option" where
  "fetch_response e c q st guard status hs now =
     (case st of
        Some entry \<Rightarrow>
          if status = 304
          then map_option (\<lambda>(res, c1). (FromCache res, c1)) (handle_304 e (release_guard c guard) q entry hs now)
          else (case cache_store e c q status hs guard of (hs', r, c1) \<Rightarrow> Some (FromUpstream status hs' r, c1))
      | None \<Rightarrow> (case cache_store e c q status hs guard of (hs', r, c1) \<Rightarrow> Some (FromUpstream status hs' r, c1)))"

definition is_success :: "nat \<Rightarrow> bool" where "is_success status \<longleftrightarrow> 200 \<le> status \<and> status < 300"
definition is_redirection :: "nat \<Rightarrow> bool" where "is_redirection status \<longleftrightarrow> 300 \<le> status \<and> status < 400"

definition fetch_unsafe :: "http_cache \<Rightarrow> cache_request \<Rightarrow> nat \<Rightarrow> http_cache" where
  "fetch_unsafe c q status =
     (if is_success status \<or> is_redirection status then invalidate_target c (cq_key q) (cq_host q) (cq_path q) else c)"

text \<open>The upstream answer is a status, headers and the collected body, which is \<^term>\<open>None\<close> when reading
  it failed.\<close>

definition run_background_revalidation ::
    "cache_env \<Rightarrow> http_cache \<Rightarrow> revalidation \<Rightarrow> (nat \<times> headers \<times> string option) option \<Rightarrow> instant \<Rightarrow> http_cache option" where
  "run_background_revalidation e c task answer now =
     (case answer of
        None \<Rightarrow> Some c
      | Some (status, hs, body) \<Rightarrow>
          if status = 304
          then if is_storable_304 (ce_http e) hs (rv_authorized task)
               then map_option snd (refresh_entry e c (rv_key task) (rv_entry task) hs now) else Some c
          else if \<not> is_storable (ce_http e) status hs (rv_authorized task) \<or> rv_head task then Some c
          else case body of
              None \<Rightarrow> Some c
            | Some bytes \<Rightarrow>
                if length bytes > cc_max_entry_size (hc_config c) then Some c
                else case vary_values (ce_http e) hs (rv_req_headers task) of
                    None \<Rightarrow> Some c
                  | Some vary \<Rightarrow>
                      store_entry e c (rv_key task)
                        \<lparr>sd_status = status, sd_headers = hs, sd_vary = vary, sd_initial_age = 0,
                         sd_freshness = freshness e hs (cc_default_ttl (hc_config c))\<rparr> bytes now)"

section \<open>The registry of the caches\<close>

text \<open>The caches live on a heap.  \<open>kw_sharing\<close> says whether \<open>start_sharing\<close> was called.\<close>

record cache_world =
  kw_heap :: "nat \<Rightarrow> http_cache"
  kw_next :: nat
  kw_caches :: "string registry"
  kw_sharing :: bool
  kw_purges :: "string \<Rightarrow> nat option"

definition purged_at :: "cache_world \<Rightarrow> string \<Rightarrow> nat" where
  "purged_at w pid = (case kw_purges w pid of None \<Rightarrow> 0 | Some t \<Rightarrow> t)"

definition cache_reusable :: "cache_world \<Rightarrow> cache_config \<Rightarrow> nat \<Rightarrow> bool" where
  "cache_reusable w config a \<longleftrightarrow>
     hc_config (kw_heap w a) = config \<and> (hc_share (kw_heap w a) \<noteq> None) = kw_sharing w"

definition cache_for ::
    "(nat \<Rightarrow> bool) \<Rightarrow> cache_world \<Rightarrow> string \<Rightarrow> cache_config \<Rightarrow> nat option \<times> cache_world" where
  "cache_for alive w pid config =
     (if cache_is_disabled config then (None, w)
      else case registry_get_or_create alive (kw_caches w) pid (cache_reusable w config) (kw_next w) of
        (a, created, caches) \<Rightarrow>
          let share = (if kw_sharing w then Some (cache_share_new (purged_at w pid) (cc_max_size config)) else None);
              w1 = w\<lparr>kw_caches := caches\<rparr>
          in (Some a,
              if created
              then w1\<lparr>kw_heap := (kw_heap w)(a := http_cache_new config share), kw_next := Suc (kw_next w)\<rparr>
              else w1))"

definition start_sharing :: "cache_world \<Rightarrow> cache_world" where
  "start_sharing w = w\<lparr>kw_sharing := True\<rparr>"

definition purge_at :: "(nat \<Rightarrow> bool) \<Rightarrow> cache_world \<Rightarrow> string \<Rightarrow> nat \<Rightarrow> cache_world" where
  "purge_at alive w pid t =
     (let w1 = w\<lparr>kw_purges := (kw_purges w)(pid \<mapsto> max (purged_at w pid) t)\<rparr> in
      case registry_get alive (kw_caches w) pid of
        None \<Rightarrow> w1
      | Some a \<Rightarrow> w1\<lparr>kw_heap := (kw_heap w)(a := cache_purge_all (kw_heap w a) t)\<rparr>)"

definition registry_purge :: "cache_env \<Rightarrow> (nat \<Rightarrow> bool) \<Rightarrow> cache_world \<Rightarrow> string \<Rightarrow> nat \<times> cache_world" where
  "registry_purge e alive w pid = (unix_ms e, purge_at alive w pid (unix_ms e))"

definition registry_purge_path ::
    "cache_env \<Rightarrow> (nat \<Rightarrow> bool) \<Rightarrow> cache_world \<Rightarrow> string \<Rightarrow> string \<Rightarrow> nat \<times> cache_world" where
  "registry_purge_path e alive w pid path =
     (unix_ms e,
      case registry_get alive (kw_caches w) pid of
        None \<Rightarrow> w
      | Some a \<Rightarrow> w\<lparr>kw_heap := (kw_heap w)(a := cache_purge_path (kw_heap w a) path)\<rparr>)"

fun apply_purges :: "(nat \<Rightarrow> bool) \<Rightarrow> cache_world \<Rightarrow> (string \<times> nat) list \<Rightarrow> cache_world" where
  "apply_purges alive w [] = w"
| "apply_purges alive w ((pid, t) # purges) =
     apply_purges alive (if purged_at w pid < t then purge_at alive w pid t else w) purges"

section \<open>Examples\<close>

definition sample_cache_env :: cache_env where
  "sample_cache_env = \<lparr>ce_http = sample_http_env, ce_parse_date = (\<lambda>_. None), ce_wall = 5 * 10 ^ 9,
     ce_encode = (\<lambda>b. b), ce_decode = Some, ce_max_value_size = 1024\<rparr>"

definition sample_cache_config :: cache_config where
  "sample_cache_config = \<lparr>cc_enabled = True, cc_max_size = 1000, cc_max_entry_size = 100, cc_default_ttl = 0,
     cc_stale_while_revalidate = 0\<rparr>"

definition sample_cache_request :: cache_request where
  "sample_cache_request = \<lparr>cq_key = ''http a /'', cq_head = False, cq_headers = [], cq_lookup = True,
     cq_authorized = False, cq_unsafe = False, cq_host = ''a'', cq_path = ''/''\<rparr>"

definition sample_stored_head :: stored_head where
  "sample_stored_head = \<lparr>sd_status = 200, sd_headers = [(''cache-control'', ''max-age=60''), (''content-length'', ''4'')],
     sd_vary = [], sd_initial_age = 0, sd_freshness = 60 * 10 ^ 9\<rparr>"

definition sample_cached :: cached_response where
  "sample_cached = \<lparr>cp_head = sample_stored_head, cp_body = ''abcd'', cp_stored_at = 7\<rparr>"

section \<open>Sharing a response\<close>

text \<open>A \<open>HeaderMap\<close> has valid lower-case names.\<close>

definition valid_name :: "string \<Rightarrow> bool" where
  "valid_name n \<longleftrightarrow> is_header_name n \<and> to_ascii_lowercase n = n"

definition header_map :: "headers \<Rightarrow> bool" where
  "header_map hs \<longleftrightarrow> list_all (\<lambda>(n, v). valid_name n) hs"

lemma header_map_simps [simp]:
  "header_map []" "header_map ((n, v) # hs) \<longleftrightarrow> valid_name n \<and> header_map hs"
  by (simp_all add: header_map_def)

lemma text_headers_same:
  assumes "text_headers h hs = Some ts"
  shows "ts = hs \<and> list_all (\<lambda>(n, v). list_all (hx_text_byte h) v) hs"
  using assms by (induction hs arbitrary: ts)
    (auto simp: to_str_def split: option.splits if_splits)

lemma text_vary_same:
  assumes "text_vary h vs = Some ts"
  shows "ts = vs \<and> list_all (\<lambda>(n, v). case v of None \<Rightarrow> True | Some x \<Rightarrow> list_all (hx_text_byte h) x) vs"
  using assms by (induction vs arbitrary: ts)
    (auto simp: to_str_def split: option.splits if_splits)

lemma parse_headers_same:
  assumes "header_map hs" and "parse_headers h hs = Some hs'"
  shows "hs' = hs"
  using assms by (induction hs arbitrary: hs')
    (auto simp: header_from_str_def valid_name_def split: option.splits if_splits)

lemma parse_headers_text:
  assumes "header_map hs" and "\<And>c. hx_text_byte h c \<Longrightarrow> hx_str_byte h c"
    and "list_all (\<lambda>(n, v). list_all (hx_text_byte h) v) hs"
  shows "parse_headers h hs = Some hs"
  using assms(1,3) by (induction hs) (auto simp: header_from_str_def valid_name_def list_all_iff assms(2))

lemma parse_vary_text:
  assumes "list_all (\<lambda>(n, v). valid_name n) vs" and "\<And>c. hx_text_byte h c \<Longrightarrow> hx_str_byte h c"
    and "list_all (\<lambda>(n, v). case v of None \<Rightarrow> True | Some x \<Rightarrow> list_all (hx_text_byte h) x) vs"
  shows "parse_vary h vs = Some vs"
  using assms(1,3) by (induction vs)
    (auto simp: header_from_str_def valid_name_def list_all_iff assms(2) split: option.splits)

text \<open>
  C36: What one node shares, another node reads back.  Let a stored response have valid header names
  and a status that HTTP knows, and let base64 decode what it encodes and a header value that is text
  be a valid value.  If a node shares the response, a node that reads it at any later time gets the
  same status, headers, \<open>Vary\<close> values and body, the freshness and the age in whole seconds, and adds to
  the age exactly the milliseconds since it was shared, so a response never looks younger on another
  node.  The only exception is an age beyond the range of a \<open>Duration\<close>, which panics.
\<close>

theorem shared_response_roundtrip:
  assumes "\<And>b. ce_decode e (ce_encode e b) = Some b"
    and "\<And>c. hx_text_byte (ce_http e) c \<Longrightarrow> hx_str_byte (ce_http e) c"
    and "header_map (sd_headers (cp_head entry))"
    and "list_all (\<lambda>(n, v). valid_name n) (sd_vary (cp_head entry))"
    and "100 \<le> sd_status (cp_head entry)" and "sd_status (cp_head entry) \<le> 999"
    and "to_shared e entry t = Some r"
  shows "from_shared e r now_ms now =
     (case duration_add (from_secs (as_secs (sd_initial_age (cp_head entry)))) (from_millis (now_ms - t)) of
        None \<Rightarrow> Inl True
      | Some age \<Rightarrow>
          Inr \<lparr>cp_head = (cp_head entry)\<lparr>sd_initial_age := age,
                   sd_freshness := from_secs (as_secs (sd_freshness (cp_head entry)))\<rparr>,
               cp_body = cp_body entry, cp_stored_at = now\<rparr>)"
proof -
  obtain hs vs where hs: "text_headers (ce_http e) (sd_headers (cp_head entry)) = Some hs"
    and vs: "text_vary (ce_http e) (sd_vary (cp_head entry)) = Some vs"
    using assms(7) by (auto simp: to_shared_def split: option.splits)
  note th = text_headers_same [OF hs] and tv = text_vary_same [OF vs]
  have "parse_headers (ce_http e) hs = Some (sd_headers (cp_head entry))"
    using parse_headers_text [OF assms(3,2)] th by auto
  moreover have "parse_vary (ce_http e) vs = Some (sd_vary (cp_head entry))"
    using parse_vary_text [OF assms(4,2)] tv by auto
  moreover have "r = \<lparr>sr_status = sd_status (cp_head entry), sr_headers = hs, sr_vary = vs,
      sr_initial_age = as_secs (sd_initial_age (cp_head entry)), sr_freshness = as_secs (sd_freshness (cp_head entry)),
      sr_stored_at = t, sr_body = ce_encode e (cp_body entry)\<rparr>"
    using assms(7) hs vs by (simp add: to_shared_def)
  ultimately show ?thesis
    using assms(1,5,6) by (simp add: from_shared_def split: option.splits)
qed

theorem shared_response_roundtrip_witness:
  "(case to_shared sample_cache_env sample_cached 3000 of
      None \<Rightarrow> False
    | Some r \<Rightarrow> from_shared sample_cache_env r 5000 9 =
        Inr \<lparr>cp_head = sample_stored_head\<lparr>sd_initial_age := 2 * 10 ^ 9\<rparr>, cp_body = ''abcd'', cp_stored_at = 9\<rparr>)"
proof -
  obtain r where r: "to_shared sample_cache_env sample_cached 3000 = Some r"
    by (simp add: to_shared_def sample_cached_def sample_stored_head_def sample_cache_env_def sample_http_env_def to_str_def)
  have "from_shared sample_cache_env r 5000 9 =
     (case duration_add (from_secs (as_secs (sd_initial_age (cp_head sample_cached)))) (from_millis (5000 - 3000)) of
        None \<Rightarrow> Inl True
      | Some age \<Rightarrow>
          Inr \<lparr>cp_head = (cp_head sample_cached)\<lparr>sd_initial_age := age,
                   sd_freshness := from_secs (as_secs (sd_freshness (cp_head sample_cached)))\<rparr>,
               cp_body = cp_body sample_cached, cp_stored_at = 9\<rparr>)"
  proof (rule shared_response_roundtrip [OF _ _ _ _ _ _ r])
    show "header_map (sd_headers (cp_head sample_cached))" by code_simp
  qed (simp_all add: sample_cache_env_def sample_http_env_def sample_cached_def sample_stored_head_def)
  also have "\<dots> = Inr \<lparr>cp_head = sample_stored_head\<lparr>sd_initial_age := 2 * 10 ^ 9\<rparr>, cp_body = ''abcd'', cp_stored_at = 9\<rparr>"
    by code_simp
  finally show ?thesis by (simp add: r)
qed

section \<open>The recorded body\<close>

lemma release_guard_simps [simp]:
  "hc_entries (release_guard c g) = hc_entries c" "hc_config (release_guard c g) = hc_config c"
  "hc_share (release_guard c g) = hc_share c" "hc_revalidating (release_guard c g) = hc_revalidating c"
  by (simp_all add: release_guard_def end_flight_def split: option.splits)

lemma cache_insert_Some:
  "cache_insert h c key entry = Some c' \<longleftrightarrow>
     entry_lifetime h (cc_stale_while_revalidate (hc_config c)) entry \<noteq> None \<and>
     c' = c\<lparr>hc_entries := (hc_entries c)(key \<mapsto> entry)\<rparr>"
  by (auto simp: cache_insert_def split: option.splits)

lemma entry_lifetime_head:
  "cp_head a = cp_head b \<Longrightarrow> entry_lifetime h swr a = entry_lifetime h swr b"
  by (simp add: entry_lifetime_def stale_window_def)

fun poll_data :: "body_poll \<Rightarrow> string" where
  "poll_data (PollFrame (BodyData d)) = d"
| "poll_data _ = []"

fun plain_poll :: "body_poll \<Rightarrow> bool" where
  "plain_poll PollPending = True"
| "plain_poll (PollFrame (BodyData _)) = True"
| "plain_poll _ = False"

definition polls_data :: "(body_poll \<times> instant) list \<Rightarrow> string" where
  "polls_data ps = concat (map (poll_data \<circ> fst) ps)"

lemma polls_data_simps [simp]:
  "polls_data [] = []" "polls_data ((p, t) # ps) = poll_data p @ polls_data ps"
  "polls_data (ps @ qs) = polls_data ps @ polls_data qs"
  by (simp_all add: polls_data_def)

text \<open>A body is complete when it has its declared length, or when it is chunked and ended cleanly.\<close>

definition complete_body :: "nat option \<Rightarrow> bool \<Rightarrow> (body_poll \<times> instant) list \<Rightarrow> bool" where
  "complete_body expected chunked ps \<longleftrightarrow>
     ps \<noteq> [] \<and> list_all (plain_poll \<circ> fst) (butlast ps) \<and>
     (case expected of
        Some n \<Rightarrow> n = length (polls_data ps) \<and> (plain_poll (fst (last ps)) \<or> (\<exists>clean. fst (last ps) = PollEnd clean))
      | None \<Rightarrow> chunked \<and> fst (last ps) = PollEnd True)"

lemma idle_recorder_poll:
  assumes "rc_head r = None" and "recording_poll e c r p t = Some (c', r')"
  shows "rc_head r' = None \<and> hc_entries c' = hc_entries c"
proof (cases p)
  case (PollFrame f)
  then show ?thesis using assms by (cases f) (auto simp: recorder_abort_def)
qed (use assms in \<open>auto simp: recorder_abort_def recorder_finish_def Let_def\<close>)

lemma idle_recorder:
  assumes "rc_head r = None" and "recording_polls e c r ps = Some (c', r')"
  shows "hc_entries c' = hc_entries c"
  using assms
proof (induction ps arbitrary: c r)
  case (Cons p ps)
  obtain q t where p: "p = (q, t)" by (metis surj_pair)
  obtain c1 r1 where 1: "recording_poll e c r q t = Some (c1, r1)" and 2: "recording_polls e c1 r1 ps = Some (c', r')"
    using Cons.prems(2) by (auto simp: p split: option.splits)
  show ?case using Cons.IH [OF _ 2] idle_recorder_poll [OF Cons.prems(1) 1] by simp
qed simp

lemma recorder_finish_cases:
  assumes "rc_head r = Some head" and "recorder_finish e c r clean t = Some (c', r')"
  shows "rc_head r' = None \<and>
    (if (case rc_expected r of Some n \<Rightarrow> n = length (rc_buffer r) | None \<Rightarrow> rc_chunked r \<and> clean)
     then hc_entries c' = (hc_entries c)(rc_key r \<mapsto> \<lparr>cp_head = head, cp_body = rc_buffer r, cp_stored_at = t\<rparr>)
     else hc_entries c' = hc_entries c)"
  using assms by (auto simp: recorder_finish_def Let_def cache_insert_Some split: option.splits if_splits)

text \<open>The recorder stored its body with this data added, at a poll that completed it.\<close>

definition stores_body :: "http_cache \<Rightarrow> recorder \<Rightarrow> stored_head \<Rightarrow> string \<Rightarrow> body_poll \<Rightarrow> http_cache \<Rightarrow> bool" where
  "stores_body c r head data p c' \<longleftrightarrow>
     length (rc_buffer r @ data) \<le> rc_max_size r \<and>
     (\<exists>t. hc_entries c' = (hc_entries c)
        (rc_key r \<mapsto> \<lparr>cp_head = head, cp_body = rc_buffer r @ data, cp_stored_at = t\<rparr>)) \<and>
     (case rc_expected r of
        Some n \<Rightarrow> n = length (rc_buffer r @ data) \<and> (plain_poll p \<or> (\<exists>clean. p = PollEnd clean))
      | None \<Rightarrow> rc_chunked r \<and> p = PollEnd True)"

lemma stores_body_buffer:
  "stores_body c (r\<lparr>rc_buffer := rc_buffer r @ d\<rparr>) head data p c' = stores_body c r head (d @ data) p c'"
  by (cases "rc_expected r") (simp_all add: stores_body_def)

lemma stores_body_cong: "hc_entries c1 = hc_entries c' \<Longrightarrow> stores_body c r head data p c1 = stores_body c r head data p c'"
  by (simp add: stores_body_def)

text \<open>One poll of a live recorder: it goes on recording, gives up, or stores.\<close>

lemma live_recorder_poll:
  assumes "rc_head r = Some head" and "length (rc_buffer r) \<le> rc_max_size r"
    and "recording_poll e c r p t = Some (c', r')"
  shows "(plain_poll p \<and> c' = c \<and> r' = r\<lparr>rc_buffer := rc_buffer r @ poll_data p\<rparr> \<and>
            length (rc_buffer r @ poll_data p) \<le> rc_max_size r)
       \<or> (rc_head r' = None \<and> hc_entries c' = hc_entries c)
       \<or> (rc_head r' = None \<and> stores_body c r head (poll_data p) p c')"
proof (cases p)
  case PollPending
  then show ?thesis using assms by simp
next
  case PollError
  then show ?thesis using assms by (auto simp: recorder_abort_def)
next
  case (PollEnd clean)
  then show ?thesis
    using recorder_finish_cases [OF assms(1), of e c clean t c' r'] assms(2,3)
    by (auto simp: stores_body_def split: option.splits if_splits)
next
  case (PollFrame f)
  show ?thesis
  proof (cases f)
    case BodyTrailers
    then show ?thesis using PollFrame assms by (auto simp: recorder_abort_def)
  next
    case (BodyData d)
    let ?r1 = "r\<lparr>rc_buffer := rc_buffer r @ d\<rparr>"
    consider "rc_max_size r < length (rc_buffer r) + length d"
      | "length (rc_buffer r) + length d \<le> rc_max_size r" "rc_expected r = Some (length (rc_buffer r) + length d)"
      | "length (rc_buffer r) + length d \<le> rc_max_size r" "rc_expected r \<noteq> Some (length (rc_buffer r) + length d)"
      by linarith
    then show ?thesis
    proof cases
      case 2
      then have "recorder_finish e c ?r1 True t = Some (c', r')"
        using assms PollFrame BodyData by (simp add: Let_def)
      from recorder_finish_cases [OF _ this, of head] 2 show ?thesis
        using assms(1) PollFrame BodyData by (auto simp: stores_body_def split: option.splits if_splits)
    qed (use assms PollFrame BodyData in \<open>auto simp: recorder_abort_def Let_def\<close>)
  qed
qed

lemma recorder_sound:
  assumes "rc_head r = Some head" and "length (rc_buffer r) \<le> rc_max_size r"
    and "recording_polls e c r ps = Some (c', r')"
  shows "hc_entries c' = hc_entries c \<or>
    (\<exists>us vs. ps = us @ vs \<and> us \<noteq> [] \<and> list_all (plain_poll \<circ> fst) (butlast us) \<and>
       stores_body c r head (polls_data us) (fst (last us)) c')"
  using assms
proof (induction ps arbitrary: c r)
  case (Cons p ps)
  obtain q t where p: "p = (q, t)" by (metis surj_pair)
  obtain c1 r1 where 1: "recording_poll e c r q t = Some (c1, r1)" and 2: "recording_polls e c1 r1 ps = Some (c', r')"
    using Cons.prems(3) by (auto simp: p split: option.splits)
  from live_recorder_poll [OF Cons.prems(1,2) 1] show ?case
  proof (elim disjE conjE)
    assume q: "plain_poll q" "c1 = c" "r1 = r\<lparr>rc_buffer := rc_buffer r @ poll_data q\<rparr>"
      "length (rc_buffer r @ poll_data q) \<le> rc_max_size r"
    from Cons.IH [OF _ _ 2] Cons.prems(1) q
    have "hc_entries c' = hc_entries c \<or>
      (\<exists>us vs. ps = us @ vs \<and> us \<noteq> [] \<and> list_all (plain_poll \<circ> fst) (butlast us) \<and>
         stores_body c r head (poll_data q @ polls_data us) (fst (last us)) c')"
      unfolding q(3) stores_body_buffer q(2) comp_def by simp
    then show ?thesis
    proof (elim disjE exE conjE)
      fix us vs
      assume "ps = us @ vs" "us \<noteq> []" "list_all (plain_poll \<circ> fst) (butlast us)"
        "stores_body c r head (poll_data q @ polls_data us) (fst (last us)) c'"
      then have "p # ps = ((q, t) # us) @ vs \<and> (q, t) # us \<noteq> [] \<and>
          list_all (plain_poll \<circ> fst) (butlast ((q, t) # us)) \<and>
          stores_body c r head (polls_data ((q, t) # us)) (fst (last ((q, t) # us))) c'"
        using q(1) by (simp add: p comp_def)
      then show ?thesis by blast
    qed simp
  next
    assume "rc_head r1 = None" "hc_entries c1 = hc_entries c"
    then show ?thesis using idle_recorder [OF _ 2] by simp
  next
    assume "rc_head r1 = None" and "stores_body c r head (poll_data q) q c1"
    then have "stores_body c r head (poll_data q) q c'"
      using idle_recorder [OF _ 2] stores_body_cong by blast
    then have "p # ps = [(q, t)] @ ps \<and> [(q, t)] \<noteq> [] \<and> list_all (plain_poll \<circ> fst) (butlast [(q, t)]) \<and>
        stores_body c r head (polls_data [(q, t)]) (fst (last [(q, t)])) c'"
      by (simp add: p)
    then show ?thesis by blast
  qed
qed simp

lemma idle_recorder_total: "rc_head r = None \<Longrightarrow> \<exists>c' r'. recording_polls e c r ps = Some (c', r') \<and> hc_entries c' = hc_entries c"
proof (induction ps arbitrary: c r)
  case (Cons p ps)
  obtain q t where p: "p = (q, t)" by (metis surj_pair)
  have "\<exists>c1 r1. recording_poll e c r q t = Some (c1, r1)"
  proof (cases q)
    case (PollFrame f)
    then show ?thesis using Cons.prems by (cases f) auto
  qed (use Cons.prems in \<open>auto simp: recorder_finish_def Let_def\<close>)
  then obtain c1 r1 where 1: "recording_poll e c r q t = Some (c1, r1)" by blast
  note idle_recorder_poll [OF Cons.prems 1]
  with Cons.IH [of r1 c1] show ?case by (simp add: p 1)
qed simp

lemma recorder_finish_complete:
  assumes "rc_head r = Some head"
    and "\<And>b t. entry_lifetime (ce_http e) (cc_stale_while_revalidate (hc_config c))
           \<lparr>cp_head = head, cp_body = b, cp_stored_at = t\<rparr> \<noteq> None"
    and "rc_expected r = Some (length (rc_buffer r)) \<or> rc_expected r = None \<and> rc_chunked r"
  shows "\<exists>c' r'. recorder_finish e c r True t = Some (c', r') \<and> rc_head r' = None \<and>
    hc_entries c' = (hc_entries c)(rc_key r \<mapsto> \<lparr>cp_head = head, cp_body = rc_buffer r, cp_stored_at = t\<rparr>)"
  using assms(1,3) assms(2) [of "rc_buffer r" t]
  by (auto simp: recorder_finish_def Let_def cache_insert_def split: option.splits)

lemma recorder_complete:
  assumes "rc_head r = Some head"
    and life: "\<And>b t. entry_lifetime (ce_http e) (cc_stale_while_revalidate (hc_config c))
           \<lparr>cp_head = head, cp_body = b, cp_stored_at = t\<rparr> \<noteq> None"
    and "list_all (plain_poll \<circ> fst) ps" and "length (rc_buffer r @ polls_data ps) \<le> rc_max_size r"
    and "rc_expected r = Some (length (rc_buffer r @ polls_data ps)) \<or> rc_expected r = None \<and> rc_chunked r"
  shows "\<exists>c' r' t'. recording_polls e c r (ps @ [(PollEnd True, t)]) = Some (c', r') \<and>
    hc_entries c' = (hc_entries c)(rc_key r \<mapsto> \<lparr>cp_head = head, cp_body = rc_buffer r @ polls_data ps, cp_stored_at = t'\<rparr>)"
  using assms(1,3-5)
proof (induction ps arbitrary: r)
  case Nil
  from recorder_finish_complete [of r head e c t, OF Nil.prems(1) life] Nil.prems(4) show ?case by fastforce
next
  case (Cons p ps)
  obtain q u where p: "p = (q, u)" by (metis surj_pair)
  from Cons.prems(2) consider "q = PollPending" | d where "q = PollFrame (BodyData d)"
    by (cases q rule: plain_poll.cases) (auto simp: p)
  then show ?case
  proof cases
    case 1
    then show ?thesis using Cons.IH [of r] Cons.prems by (simp add: p)
  next
    case (2 d)
    let ?r1 = "r\<lparr>rc_buffer := rc_buffer r @ d\<rparr>"
    show ?thesis
    proof (cases "rc_expected r = Some (length (rc_buffer r) + length d)")
      case True
      then have data: "polls_data ps = []" using Cons.prems(4) 2 by (simp add: p)
      obtain c1 r1 where 1: "recorder_finish e c ?r1 True u = Some (c1, r1)" "rc_head r1 = None"
          "hc_entries c1 = (hc_entries c)(rc_key r \<mapsto> \<lparr>cp_head = head, cp_body = rc_buffer r @ d, cp_stored_at = u\<rparr>)"
        using recorder_finish_complete [of ?r1 head e c u] Cons.prems(1) life True by auto
      obtain c2 r2 where "recording_polls e c1 r1 (ps @ [(PollEnd True, t)]) = Some (c2, r2)" "hc_entries c2 = hc_entries c1"
        using idle_recorder_total [OF 1(2)] by blast
      then show ?thesis using True Cons.prems(1,3) 2 data 1
        by (intro exI [of _ c2] exI [of _ r2] exI [of _ u]) (simp add: p Let_def)
    next
      case False
      then show ?thesis using Cons.IH [of ?r1] Cons.prems 2 by (simp add: p Let_def add.assoc)
    qed
  qed
qed

lemma cache_store_recorder:
  assumes "cache_store e c q status hs guard = (hs', Some r, c1)"
    and "storable_head e (hc_config c) q status hs = Some head"
  shows "c1 = c" and "r = \<lparr>rc_head = Some head, rc_buffer = [], rc_expected = content_length (ce_http e) hs,
      rc_max_size = cc_max_entry_size (hc_config c), rc_key = cq_key q, rc_guard = guard,
      rc_chunked = is_chunked (ce_http e) hs\<rparr>"
proof -
  have same: "get_all hs' n = get_all hs n" if "n \<noteq> ''x-cache''" for n
    using assms that by (auto simp: cache_store_def Let_def)
  have "content_length (ce_http e) hs' = content_length (ce_http e) hs"
    using same [of "''content-length''"] by (simp add: content_length_def header_number_def get_def)
  moreover have "is_chunked (ce_http e) hs' = is_chunked (ce_http e) hs"
    using same [of "''transfer-encoding''"] by (simp add: is_chunked_def)
  ultimately show "c1 = c" and "r = \<lparr>rc_head = Some head, rc_buffer = [], rc_expected = content_length (ce_http e) hs,
      rc_max_size = cc_max_entry_size (hc_config c), rc_key = cq_key q, rc_guard = guard,
      rc_chunked = is_chunked (ce_http e) hs\<rparr>"
    using assms by (auto simp: cache_store_def Let_def)
qed

lemma storable_head_length:
  "storable_head e config q status hs = Some head \<Longrightarrow> content_length (ce_http e) hs = None \<Longrightarrow> is_chunked (ce_http e) hs"
  by (auto simp: storable_head_def Let_def split: if_splits)



section \<open>Answers from the cache\<close>

text \<open>A response that may answer a request: the request allows it, \<open>Vary\<close> matches, and it is stored here
  or another node shared it after the last purge.\<close>

definition usable_entry ::
    "cache_env \<Rightarrow> http_cache \<Rightarrow> cache_request \<Rightarrow> shared_response option \<Rightarrow> instant \<Rightarrow> cached_response \<Rightarrow> bool" where
  "usable_entry e c q answer now entry \<longleftrightarrow>
     cq_lookup q \<and> vary_matches entry (cq_headers q) \<and>
     (hc_entries c (cq_key q) = Some entry \<or>
      (\<exists>x r. hc_share c = Some x \<and> answer = Some r \<and> cx_purged_at x \<le> sr_stored_at r \<and>
         from_shared e r (unix_ms e) now = Inr entry))"

lemma find_stored_usable:
  assumes "find_stored e c q answer now = Some (st, c1)"
  shows "(\<forall>entry. st = Some entry \<longrightarrow> usable_entry e c q answer now entry) \<and>
    hc_in_flight c1 = hc_in_flight c \<and> hc_revalidating c1 = hc_revalidating c \<and> hc_config c1 = hc_config c \<and>
    hc_share c1 = hc_share c \<and>
    (\<forall>k. hc_entries c1 k = hc_entries c k \<or> (k = cq_key q \<and> st \<noteq> None \<and> hc_entries c1 k = st))"
proof (cases "stored q c")
  case None
  then have "cache_shared e c q answer now = Some (st, c1)" using assms by (simp add: find_stored_def)
  then show ?thesis
    by (auto simp: cache_shared_def usable_entry_def share_lookup_def cache_insert_Some
        split: if_splits option.splits sum.splits)
next
  case (Some entry)
  then show ?thesis using assms
    by (auto simp: find_stored_def stored_def usable_entry_def split: if_splits option.splits)
qed

text \<open>The response that a stored entry of this age gives.\<close>

definition answers_with ::
    "cache_env \<Rightarrow> cache_request \<Rightarrow> cached_response \<Rightarrow> duration \<Rightarrow> string \<Rightarrow> response \<Rightarrow> bool" where
  "answers_with e q entry age mark res \<longleftrightarrow>
     (let not_modified = is_not_modified e (cq_headers q) (sd_headers (cp_head entry)) in
      res_status res = (if not_modified then 304 else sd_status (cp_head entry)) \<and>
      res_body res = (if cq_head q \<or> not_modified then [] else cp_body entry) \<and>
      get_all (res_headers res) ''age'' = [to_radix 10 (as_secs age)] \<and>
      get_all (res_headers res) ''x-cache'' = [mark])"

lemma respond_answers:
  "respond e q entry now = Some res \<Longrightarrow>
     \<exists>age. cached_age entry now = Some age \<and> answers_with e q entry age ''HIT'' res"
  by (auto simp: respond_def answers_with_def Let_def split: option.splits)

lemma respond_stale_answers:
  "respond_stale e q entry now = Some res \<Longrightarrow>
     \<exists>age. cached_age entry now = Some age \<and> answers_with e q entry age ''STALE'' res"
  by (auto simp: respond_stale_def respond_def answers_with_def Let_def split: option.splits)

lemma stale_revalidatable_window:
  "is_stale_revalidatable h entry swr now = Some True \<Longrightarrow> cached_age entry now = Some age \<Longrightarrow>
     sd_freshness (cp_head entry) \<le> age \<and> age < sd_freshness (cp_head entry) + stale_window h entry swr"
  by (auto simp: is_stale_revalidatable_def Let_def duration_add_def split: if_splits)

lemma fetch_flight_plan:
  "fetch_flight c q st = (plan, c') \<Longrightarrow>
     plan = (if cq_key q \<in> set (hc_in_flight c) then PlanFollow st else PlanLead st)"
  by (auto simp: fetch_flight_def start_flight_def split: if_splits)



section \<open>Invalidation and purge\<close>

lemma invalidate_key_simps [simp]:
  "hc_entries (invalidate_key c k) = (hc_entries c)(k := None)"
  "hc_share (invalidate_key c k) = map_option (\<lambda>x. share_invalidate x k) (hc_share c)"
  by (simp_all add: invalidate_key_def)

text \<open>
  A request that changes a resource removes what the cache holds of it.  After a successful or
  redirecting answer to an unsafe request for a host and path, no stored response for this host and path
  answers any later request, over HTTP or HTTPS, whatever the scheme of the unsafe request was; every
  other stored response stays.  With room in the queue of the shared store the removals are sent there
  too.
\<close>

theorem unsafe_request_invalidates_all_schemes:
  assumes "cache_request_new h method hs (proto @ '' '' @ host @ '' '' @ path) authorized = Some (q, hs')"
    and "is_unsafe_method method" and "CHR '' '' \<notin> set proto" and "CHR '' '' \<notin> set host"
    and "host \<noteq> []" and "path \<noteq> []" and "is_success status \<or> is_redirection status"
  shows "(\<forall>q' scheme. scheme \<in> {proto, ''http'', ''https''} \<and> cq_key q' = scheme @ '' '' @ host @ '' '' @ path \<longrightarrow>
      stored q' (fetch_unsafe c q status) = None) \<and>
    (\<forall>k. k \<notin> {proto @ '' '' @ host @ '' '' @ path, ''http '' @ host @ '' '' @ path, ''https '' @ host @ '' '' @ path,
            host @ '' '' @ path} \<longrightarrow> hc_entries (fetch_unsafe c q status) k = hc_entries c k) \<and>
    (\<forall>x. hc_share c = Some x \<and> length (cx_queue x) + 4 \<le> WRITE_QUEUE \<longrightarrow>
      (\<exists>y. hc_share (fetch_unsafe c q status) = Some y \<and>
         cx_queue y = cx_queue x @ map ShareDelete [proto @ '' '' @ host @ '' '' @ path, ''http '' @ host @ '' '' @ path,
           ''https '' @ host @ '' '' @ path, host @ '' '' @ path]))"
proof -
  have q: "cq_key q = proto @ '' '' @ host @ '' '' @ path" "cq_host q = host" "cq_path q = path"
    using assms(1,2) key_parts [OF assms(3,4)] by (auto simp: cache_request_new_def Let_def)
  have u: "fetch_unsafe c q status =
      invalidate_key (invalidate_key (invalidate_key (invalidate_key c (proto @ '' '' @ host @ '' '' @ path))
        (''http '' @ host @ '' '' @ path)) (''https '' @ host @ '' '' @ path)) (host @ '' '' @ path)"
    using assms(5-7) q by (simp add: fetch_unsafe_def invalidate_target_def Let_def)
  have "stored q' (fetch_unsafe c q status) = None"
    if "scheme \<in> {proto, ''http'', ''https''}" "cq_key q' = scheme @ '' '' @ host @ '' '' @ path" for q' scheme
    using that by (auto simp: u stored_def)
  moreover have "\<exists>y. hc_share (fetch_unsafe c q status) = Some y \<and>
         cx_queue y = cx_queue x @ map ShareDelete [proto @ '' '' @ host @ '' '' @ path, ''http '' @ host @ '' '' @ path,
           ''https '' @ host @ '' '' @ path, host @ '' '' @ path]"
    if "hc_share c = Some x" "length (cx_queue x) + 4 \<le> WRITE_QUEUE" for x
    using that by (simp add: u share_invalidate_def)
  moreover have "hc_entries (fetch_unsafe c q status) k = hc_entries c k"
    if "k \<notin> {proto @ '' '' @ host @ '' '' @ path, ''http '' @ host @ '' '' @ path, ''https '' @ host @ '' '' @ path,
            host @ '' '' @ path}" for k
    using that by (simp add: u)
  ultimately show ?thesis by blast
qed

lemma share_purge_lookup: "sr_stored_at r < t \<Longrightarrow> t \<le> cx_purged_at x \<Longrightarrow> share_lookup x (Some r) = None"
  by (simp add: share_lookup_def)

lemma share_offer_old: "sr_stored_at r < t \<Longrightarrow> t \<le> cx_purged_at x \<Longrightarrow> share_offer e x key r = x"
  by (simp add: share_offer_def Let_def)

lemma purged_at_purge_at: "purged_at (purge_at alive w pid t) pid = max (purged_at w pid) t"
  by (simp add: purge_at_def Let_def purged_at_def split: option.splits)

text \<open>
  A purge outlives configuration reloads.  After a proxy was purged at a time, the cache that the
  registry gives for it, be it the existing one or a new one for a changed configuration, holds no
  response at all, and it neither accepts a shared response that was stored before the purge nor sends
  such a response to the other nodes.
\<close>

theorem purge_outlives_reload:
  assumes "distinct (map fst (kw_caches w))" and "\<And>a. alive' a \<Longrightarrow> alive a"
    and "cache_for alive' (purge_at alive w pid t) pid config = (Some a, w')"
  shows "(\<forall>k. hc_entries (kw_heap w' a) k = None) \<and>
    (\<forall>x r e key. hc_share (kw_heap w' a) = Some x \<and> sr_stored_at r < t \<longrightarrow>
       share_lookup x (Some r) = None \<and> share_offer e x key r = x)"
proof -
  let ?w = "purge_at alive w pid t"
  let ?r = "registry_get_or_create alive' (kw_caches ?w) pid (cache_reusable ?w config) (kw_next ?w)"
  have caches: "kw_caches ?w = kw_caches w" by (simp add: purge_at_def Let_def split: option.splits)
  have "(\<forall>k. hc_entries (kw_heap w' a) k = None) \<and> (\<forall>x. hc_share (kw_heap w' a) = Some x \<longrightarrow> t \<le> cx_purged_at x)"
  proof (cases "\<exists>b. registry_get alive' (kw_caches w) pid = Some b \<and> cache_reusable ?w config b")
    case True
    then obtain b where b: "registry_get alive' (kw_caches w) pid = Some b" "cache_reusable ?w config b" by blast
    obtain caches where "?r = (b, False, caches)"
      using registry.reused [OF assms(1) b(1), where reuse = "cache_reusable ?w config"] b(2) caches by (metis (full_types) prod.collapse)
    then have w': "a = b" "kw_heap w' a = kw_heap ?w b"
      using assms(3) by (auto simp: cache_for_def Let_def split: if_splits)
    have "registry_get alive (kw_caches w) pid = Some b"
      using b(1) assms(2) by (auto simp: registry_get_def split: option.splits if_splits)
    then have "kw_heap ?w b = cache_purge_all (kw_heap w b) t" by (simp add: purge_at_def Let_def)
    then show ?thesis unfolding w'(2) by (auto simp: cache_purge_all_def share_purge_def)
  next
    case False
    then obtain caches where "?r = (kw_next ?w, True, caches)"
      using registry.created [OF assms(1), of alive' pid "cache_reusable ?w config" "kw_next ?w"] caches
      by (metis (full_types) prod.collapse)
    then have "kw_heap w' a = http_cache_new config
        (if kw_sharing ?w then Some (cache_share_new (purged_at ?w pid) (cc_max_size config)) else None)"
      using assms(3) by (auto simp: cache_for_def Let_def split: if_splits)
    then show ?thesis by (auto simp: http_cache_new_def cache_share_new_def purged_at_purge_at)
  qed
  then show ?thesis using share_purge_lookup share_offer_old by blast
qed

end
