(* ===== verification/Cache_Run.thy ===== *)
theory Cache_Run
  imports Cache
begin

text \<open>
  The cache of a proxy under concurrent requests: every interleaving of the requests that look into it,
  of the upstream answers that they wait for, of the bodies that are recorded, of the background
  revalidations, and of invalidations, purges and evictions.

  \<open>run_inv\<close> is what the cache keeps throughout: everything that it stores, holds or queues for the other
  nodes may be shared between users, and the flights and revalidations that it knows are exactly those
  that somebody will end.
\<close>

section \<open>Steps\<close>

record cache_run =
  cw_cache :: http_cache
  cw_fetches :: "(cache_request \<times> cached_response option \<times> string option) multiset"
  cw_recorders :: "recorder multiset"
  cw_tasks :: "revalidation multiset"

text \<open>A response that a cache shared between users may keep.\<close>

definition sharable :: "cache_env \<Rightarrow> cache_config \<Rightarrow> cached_response \<Rightarrow> bool" where
  "sharable e config entry \<longleftrightarrow>
     sd_status (cp_head entry) \<in> set CACHEABLE_STATUSES \<and> shareable_headers (ce_http e) (sd_headers (cp_head entry)) \<and>
     header_map (sd_headers (cp_head entry)) \<and> length (cp_body entry) \<le> cc_max_entry_size config"

definition shared_ok :: "cache_env \<Rightarrow> cache_config \<Rightarrow> shared_response \<Rightarrow> bool" where
  "shared_ok e config r \<longleftrightarrow> (\<exists>entry t. sharable e config entry \<and> to_shared e entry t = Some r)"

text \<open>What a request leaves behind when \<open>fetch\<close> has looked into the cache.\<close>

definition planned :: "cache_run \<Rightarrow> cache_request \<Rightarrow> fetch_plan \<Rightarrow> http_cache \<Rightarrow> cache_run" where
  "planned s q plan c =
     (case plan of
        PlanHit res \<Rightarrow> s\<lparr>cw_cache := c\<rparr>
      | PlanStale res None \<Rightarrow> s\<lparr>cw_cache := c\<rparr>
      | PlanStale res (Some task) \<Rightarrow> s\<lparr>cw_cache := c, cw_tasks := add_mset task (cw_tasks s)\<rparr>
      | PlanLead st \<Rightarrow> s\<lparr>cw_cache := c, cw_fetches := add_mset (q, st, Some (cq_key q)) (cw_fetches s)\<rparr>
      | PlanFollow st \<Rightarrow> s\<lparr>cw_cache := c, cw_fetches := add_mset (q, st, None) (cw_fetches s)\<rparr>)"

definition recorders_of :: "fetch_result \<Rightarrow> recorder multiset" where
  "recorders_of res = (case res of FromUpstream _ _ (Some r) \<Rightarrow> {#r#} | _ \<Rightarrow> {#})"

text \<open>
  The wall clock may show any time \<open>w\<close>.  The shared store only returns what a node of the cluster with
  the same configuration put there, and an upstream answer has valid header names.  A request that
  ends without an upstream answer (an error, a client that left, or a follower that found the answer of
  the leader) gives its guard back, and so does a recorder whose body is dropped.
\<close>

inductive cache_step :: "cache_env \<Rightarrow> cache_run \<Rightarrow> cache_run \<Rightarrow> bool" for e where
  looked_up: "fetch_begin (e\<lparr>ce_wall := w\<rparr>) (cw_cache s) q original answer now = Some (plan, c) \<Longrightarrow>
    (\<And>r. answer = Some r \<Longrightarrow> shared_ok e (hc_config (cw_cache s)) r) \<Longrightarrow>
    cache_step e s (planned s q plan c)"
| answered: "(q, st, g) \<in># cw_fetches s \<Longrightarrow> header_map hs \<Longrightarrow>
    fetch_response (e\<lparr>ce_wall := w\<rparr>) (cw_cache s) q st g status hs now = Some (res, c) \<Longrightarrow>
    cache_step e s (s\<lparr>cw_cache := c, cw_fetches := cw_fetches s - {#(q, st, g)#},
      cw_recorders := cw_recorders s + recorders_of res\<rparr>)"
| abandoned: "(q, st, g) \<in># cw_fetches s \<Longrightarrow>
    cache_step e s (s\<lparr>cw_cache := release_guard (cw_cache s) g, cw_fetches := cw_fetches s - {#(q, st, g)#}\<rparr>)"
| polled: "r \<in># cw_recorders s \<Longrightarrow> recording_poll (e\<lparr>ce_wall := w\<rparr>) (cw_cache s) r p now = Some (c, r') \<Longrightarrow>
    cache_step e s (s\<lparr>cw_cache := c, cw_recorders := add_mset r' (cw_recorders s - {#r#})\<rparr>)"
| dropped: "r \<in># cw_recorders s \<Longrightarrow>
    cache_step e s (s\<lparr>cw_cache := release_guard (cw_cache s) (rc_guard r), cw_recorders := cw_recorders s - {#r#}\<rparr>)"
| revalidated: "task \<in># cw_tasks s \<Longrightarrow> (\<And>status hs b. answer = Some (status, hs, b) \<Longrightarrow> header_map hs) \<Longrightarrow>
    run_background_revalidation (e\<lparr>ce_wall := w\<rparr>) (cw_cache s) task answer now = Some c \<Longrightarrow>
    cache_step e s (s\<lparr>cw_cache := finish_revalidating c (rv_key task), cw_tasks := cw_tasks s - {#task#}\<rparr>)"
| unsafe_done: "cache_step e s (s\<lparr>cw_cache := fetch_unsafe (cw_cache s) q status\<rparr>)"
| purged_all: "cache_step e s (s\<lparr>cw_cache := cache_purge_all (cw_cache s) t\<rparr>)"
| purged_path: "cache_step e s (s\<lparr>cw_cache := cache_purge_path (cw_cache s) path\<rparr>)"
| evicted: "cache_step e s (s\<lparr>cw_cache := (cw_cache s)\<lparr>hc_entries := (hc_entries (cw_cache s))(key := None)\<rparr>\<rparr>)"
| queue_written: "cache_step e s (s\<lparr>cw_cache := (cw_cache s)\<lparr>hc_share := map_option share_written (hc_share (cw_cache s))\<rparr>\<rparr>)"

inductive cache_reach :: "cache_env \<Rightarrow> cache_config \<Rightarrow> cache_run \<Rightarrow> bool" for e config where
  started: "(\<And>x. share = Some x \<Longrightarrow> cx_queue x = []) \<Longrightarrow>
    cache_reach e config \<lparr>cw_cache = http_cache_new config share, cw_fetches = {#}, cw_recorders = {#}, cw_tasks = {#}\<rparr>"
| stepped: "cache_reach e config s \<Longrightarrow> cache_step e s s' \<Longrightarrow> cache_reach e config s'"

section \<open>What the cache holds\<close>

definition entries_ok :: "cache_env \<Rightarrow> http_cache \<Rightarrow> bool" where
  "entries_ok e c \<longleftrightarrow>
     (\<forall>k entry. hc_entries c k = Some entry \<longrightarrow> sharable e (hc_config c) entry) \<and>
     (\<forall>x k r. hc_share c = Some x \<and> SharePut k r \<in> set (cx_queue x) \<longrightarrow> shared_ok e (hc_config c) r)"

lemma entries_okI:
  "(\<And>k entry. hc_entries c k = Some entry \<Longrightarrow> sharable e (hc_config c) entry) \<Longrightarrow>
   (\<And>x k r. hc_share c = Some x \<Longrightarrow> SharePut k r \<in> set (cx_queue x) \<Longrightarrow> shared_ok e (hc_config c) r) \<Longrightarrow> entries_ok e c"
  unfolding entries_ok_def by blast

lemma entries_okD:
  "entries_ok e c \<Longrightarrow> hc_entries c k = Some entry \<Longrightarrow> sharable e (hc_config c) entry"
  by (simp add: entries_ok_def)

lemma entries_okQ:
  "entries_ok e c \<Longrightarrow> hc_share c = Some x \<Longrightarrow> SharePut k r \<in> set (cx_queue x) \<Longrightarrow> shared_ok e (hc_config c) r"
  unfolding entries_ok_def by blast

definition recorder_ok :: "cache_env \<Rightarrow> cache_config \<Rightarrow> recorder \<Rightarrow> bool" where
  "recorder_ok e config r \<longleftrightarrow>
     (\<forall>head. rc_head r = Some head \<longrightarrow> rc_max_size r = cc_max_entry_size config \<and>
        sharable e config \<lparr>cp_head = head, cp_body = rc_buffer r, cp_stored_at = 0\<rparr>)"

definition content_inv :: "cache_env \<Rightarrow> cache_config \<Rightarrow> cache_run \<Rightarrow> bool" where
  "content_inv e config s \<longleftrightarrow>
     hc_config (cw_cache s) = config \<and> entries_ok e (cw_cache s) \<and>
     (\<forall>q entry g. (q, Some entry, g) \<in># cw_fetches s \<longrightarrow> sharable e config entry) \<and>
     (\<forall>r. r \<in># cw_recorders s \<longrightarrow> recorder_ok e config r) \<and>
     (\<forall>task. task \<in># cw_tasks s \<longrightarrow> sharable e config (rv_entry task))"

text \<open>The environments of the steps differ in the wall clock only.\<close>

lemma to_shared_wall [simp]: "to_shared (e\<lparr>ce_wall := w\<rparr>) entry t = to_shared e entry t"
  by (simp add: to_shared_def cong: option.case_cong)

lemma from_shared_wall [simp]: "from_shared (e\<lparr>ce_wall := w\<rparr>) r ms now = from_shared e r ms now"
  by (simp add: from_shared_def cong: option.case_cong if_cong)

lemma sharable_wall [simp]: "sharable (e\<lparr>ce_wall := w\<rparr>) config entry = sharable e config entry"
  by (simp add: sharable_def)

lemma sharable_head:
  "sharable e config entry \<Longrightarrow> cp_head entry' = cp_head entry \<Longrightarrow> length (cp_body entry') \<le> cc_max_entry_size config \<Longrightarrow>
     sharable e config entry'"
  by (simp add: sharable_def)

lemma header_map_mono: "header_map hs \<Longrightarrow> set hs' \<subseteq> set hs \<Longrightarrow> header_map hs'"
  by (auto simp: header_map_def list_all_iff)

lemma header_map_append [simp]: "header_map (hs @ hs') \<longleftrightarrow> header_map hs \<and> header_map hs'"
  by (simp add: header_map_def)

lemma header_map_replace_header:
  assumes "header_map response" and "header_map hs"
  shows "header_map (replace_header response name hs)"
proof -
  have "header_map (foldl (\<lambda>hs v. happend hs name v) hs' vs)"
    if "header_map hs'" "vs \<noteq> [] \<Longrightarrow> valid_name name" for hs' vs
    using that by (induction vs arbitrary: hs') (simp_all add: happend_def)
  moreover have "header_map (hremove hs name)"
    using assms(2) by (rule header_map_mono) (auto simp: hremove_def)
  moreover have "valid_name name" if "get_all response name \<noteq> []"
    using assms(1) that by (auto simp: get_all_def header_map_def list_all_iff filter_empty_conv)
  ultimately show ?thesis by (simp add: replace_header_def)
qed

lemma header_map_merge_304:
  assumes "header_map response" and "header_map (sd_headers (cp_head entry))"
  shows "header_map (sd_headers (cp_head (merge_304_headers e entry response ttl fc now)))"
proof -
  have "header_map (fold (replace_header response) names hs)" if "header_map hs" for names hs
    using that by (induction names arbitrary: hs) (simp_all add: header_map_replace_header assms(1))
  then show ?thesis using assms(2) by (simp add: merge_304_headers_def Let_def)
qed

lemma sharable_merge_304:
  assumes "sharable e config entry" and "header_map hs" and "is_storable_304 (ce_http e) hs a"
  shows "sharable e config (merge_304_headers e entry hs ttl True now)"
proof -
  let ?m = "merge_304_headers e entry hs ttl True now"
  have "shareable_headers (ce_http e) (sd_headers (cp_head ?m))"
    using merge_304_shareable [OF _ assms(3)] assms(1) by (simp add: sharable_def)
  moreover have "header_map (sd_headers (cp_head ?m))"
    using header_map_merge_304 assms(1,2) by (simp add: sharable_def)
  moreover have "cp_body ?m = cp_body entry" "sd_status (cp_head ?m) = sd_status (cp_head entry)"
    by (simp_all add: merge_304_headers_def Let_def)
  ultimately show ?thesis using assms(1) by (simp add: sharable_def)
qed

lemma shared_ok_wall [simp]: "shared_ok (e\<lparr>ce_wall := w\<rparr>) config r = shared_ok e config r"
  by (simp add: shared_ok_def)

lemma entries_ok_wall [simp]: "entries_ok (e\<lparr>ce_wall := w\<rparr>) c = entries_ok e c"
  by (simp add: entries_ok_def)

lemma recorder_ok_wall [simp]: "recorder_ok (e\<lparr>ce_wall := w\<rparr>) config r = recorder_ok e config r"
  by (simp add: recorder_ok_def)

lemma entries_ok_cong:
  "hc_entries c' = hc_entries c \<Longrightarrow> hc_share c' = hc_share c \<Longrightarrow> hc_config c' = hc_config c \<Longrightarrow>
     entries_ok e c' = entries_ok e c"
  by (simp add: entries_ok_def)

lemma entries_ok_flight [simp]:
  "entries_ok e (release_guard c g) = entries_ok e c" "entries_ok e (snd (start_flight c k)) = entries_ok e c"
  "entries_ok e (snd (mark_revalidating c k)) = entries_ok e c" "entries_ok e (finish_revalidating c k) = entries_ok e c"
  by (rule entries_ok_cong; simp add: start_flight_def mark_revalidating_def finish_revalidating_def)+

lemma config_flight [simp]:
  "hc_config (snd (start_flight c k)) = hc_config c" "hc_config (snd (mark_revalidating c k)) = hc_config c"
  "hc_config (finish_revalidating c k) = hc_config c"
  by (simp_all add: start_flight_def mark_revalidating_def finish_revalidating_def)

lemma entries_ok_insert:
  assumes "entries_ok e c" and "sharable e (hc_config c) entry" and "cache_insert h c k entry = Some c'"
  shows "entries_ok e c' \<and> hc_config c' = hc_config c"
proof -
  have "c' = c\<lparr>hc_entries := (hc_entries c)(k \<mapsto> entry)\<rparr>" using assms(3) by (simp add: cache_insert_Some)
  then show ?thesis using assms(1,2)
    by (auto intro!: entries_okI dest: entries_okD entries_okQ split: if_splits)
qed

lemma shared_ok_offer:
  assumes "SharePut k r \<in> set (cx_queue (share_response e x key entry))" and "sharable e config entry"
  shows "SharePut k r \<in> set (cx_queue x) \<or> shared_ok e config r"
proof (cases "to_shared e entry (unix_ms e)")
  case None
  then show ?thesis using assms(1) by (simp add: share_response_def Let_def split: if_splits)
next
  case (Some r')
  then have "shared_ok e config r'" using assms(2) by (auto simp: shared_ok_def)
  then show ?thesis using assms(1) Some
    by (auto simp: share_response_def share_offer_def Let_def split: if_splits)
qed

lemma entries_ok_share_response:
  assumes "entries_ok e c" and "sharable e (hc_config c) entry"
  shows "entries_ok e (c\<lparr>hc_share := map_option (\<lambda>x. share_response e x key entry) (hc_share c)\<rparr>)"
  by (rule entries_okI)
    (use assms(1) in \<open>auto dest!: shared_ok_offer [OF _ assms(2)] dest: entries_okD entries_okQ\<close>)

lemma sharable_from_shared:
  assumes "\<And>b. ce_decode e (ce_encode e b) = Some b" and "shared_ok e config r"
    and "from_shared e r ms now = Inr entry"
  shows "sharable e config entry"
proof -
  obtain entry0 t where 0: "sharable e config entry0" "to_shared e entry0 t = Some r"
    using assms(2) by (auto simp: shared_ok_def)
  then obtain hs vs where hs: "text_headers (ce_http e) (sd_headers (cp_head entry0)) = Some hs"
    and r: "sr_headers r = hs" "sr_status r = sd_status (cp_head entry0)" "sr_body r = ce_encode e (cp_body entry0)"
    by (auto simp: to_shared_def split: option.splits)
  obtain hs' where hs': "parse_headers (ce_http e) hs = Some hs'" "sd_headers (cp_head entry) = hs'"
      "sd_status (cp_head entry) = sr_status r" "ce_decode e (sr_body r) = Some (cp_body entry)"
    using assms(3) r(1) by (auto simp: from_shared_def split: option.splits if_splits)
  have "hs = sd_headers (cp_head entry0)" using text_headers_same [OF hs] by simp
  moreover have "hs' = hs" using parse_headers_same [OF _ hs'(1)] 0(1) calculation by (simp add: sharable_def)
  ultimately show ?thesis using 0(1) hs' r assms(1) by (simp add: sharable_def)
qed

lemma find_stored_ok:
  assumes "\<And>b. ce_decode e (ce_encode e b) = Some b" and "entries_ok e c"
    and "\<And>r. answer = Some r \<Longrightarrow> shared_ok e (hc_config c) r"
    and "find_stored e c q answer now = Some (st, c1)"
  shows "entries_ok e c1 \<and> hc_config c1 = hc_config c \<and> (\<forall>entry. st = Some entry \<longrightarrow> sharable e (hc_config c) entry)"
proof -
  note u = find_stored_usable [OF assms(4)]
  have st: "sharable e (hc_config c) entry" if entry: "st = Some entry" for entry
  proof -
    from u entry have "usable_entry e c q answer now entry" by blast
    then consider "hc_entries c (cq_key q) = Some entry"
      | r where "answer = Some r" "from_shared e r (unix_ms e) now = Inr entry"
      unfolding usable_entry_def by blast
    then show ?thesis
      by cases (use entries_okD [OF assms(2)] sharable_from_shared [OF assms(1)] assms(3) in \<open>blast+\<close>)
  qed
  have "entries_ok e c1"
  proof (rule entries_okI)
    fix k entry
    assume "hc_entries c1 k = Some entry"
    then have "hc_entries c k = Some entry \<or> st = Some entry" using u by metis
    then show "sharable e (hc_config c1) entry" using u st entries_okD [OF assms(2)] by metis
  qed (use u entries_okQ [OF assms(2)] in simp)
  then show ?thesis using st u by blast
qed

lemma fetch_flight_ok:
  assumes "entries_ok e c" and "fetch_flight c q st = (plan, c')"
  shows "entries_ok e c' \<and> hc_config c' = hc_config c"
proof -
  have "c' = snd (start_flight c (cq_key q))" using assms(2) by (auto simp: fetch_flight_def split: prod.splits)
  then show ?thesis using assms(1) by simp
qed

lemma revalidate_background_ok:
  assumes "revalidate_background c q entry original = (task, c')"
  shows "c' = snd (mark_revalidating c (cq_key q)) \<and> (\<forall>t. task = Some t \<longrightarrow> rv_entry t = entry \<and> rv_key t = cq_key q)"
  using assms by (auto simp: revalidate_background_def Let_def split: prod.splits if_splits)

text \<open>The ways that \<open>fetch\<close> can take.\<close>

lemma fetch_begin_cases:
  assumes "fetch_begin e c q original answer now = Some (plan, c')"
  obtains st c1 where "find_stored e c q answer now = Some (st, c1)"
      "(\<exists>res. plan = PlanHit res \<and> c' = c1) \<or>
       (\<exists>entry res task. st = Some entry \<and> plan = PlanStale res task \<and>
          revalidate_background c1 q entry original = (task, c')) \<or>
       fetch_flight c1 q st = (plan, c')"
proof -
  obtain st c1 where f: "find_stored e c q answer now = Some (st, c1)"
    using assms by (auto simp: fetch_begin_def split: option.splits)
  show ?thesis
  proof (rule that [OF f])
    show "(\<exists>res. plan = PlanHit res \<and> c' = c1) \<or>
       (\<exists>entry res task. st = Some entry \<and> plan = PlanStale res task \<and>
          revalidate_background c1 q entry original = (task, c')) \<or>
       fetch_flight c1 q st = (plan, c')"
      using assms f by (auto simp: fetch_begin_def split: option.splits bool.splits prod.splits)
  qed
qed

definition plan_ok :: "cache_env \<Rightarrow> cache_config \<Rightarrow> fetch_plan \<Rightarrow> bool" where
  "plan_ok e config plan =
     (case plan of
        PlanHit res \<Rightarrow> True
      | PlanStale res task \<Rightarrow> (case task of None \<Rightarrow> True | Some t \<Rightarrow> sharable e config (rv_entry t))
      | PlanLead st \<Rightarrow> (case st of None \<Rightarrow> True | Some entry \<Rightarrow> sharable e config entry)
      | PlanFollow st \<Rightarrow> (case st of None \<Rightarrow> True | Some entry \<Rightarrow> sharable e config entry))"

lemma fetch_begin_ok:
  assumes "\<And>b. ce_decode e (ce_encode e b) = Some b" and "entries_ok e c"
    and "\<And>r. answer = Some r \<Longrightarrow> shared_ok e (hc_config c) r"
    and "fetch_begin e c q original answer now = Some (plan, c')"
  shows "entries_ok e c' \<and> hc_config c' = hc_config c \<and> plan_ok e (hc_config c) plan"
proof -
  obtain st c1 where f: "find_stored e c q answer now = Some (st, c1)" and
    ways: "(\<exists>res. plan = PlanHit res \<and> c' = c1) \<or>
       (\<exists>entry res task. st = Some entry \<and> plan = PlanStale res task \<and>
          revalidate_background c1 q entry original = (task, c')) \<or>
       fetch_flight c1 q st = (plan, c')"
    using fetch_begin_cases [OF assms(4)] by metis
  note ok = find_stored_ok [OF assms(1-3) f]
  from ways show ?thesis
  proof (elim disjE exE conjE)
    fix entry res task
    assume a: "st = Some entry" "plan = PlanStale res task" "revalidate_background c1 q entry original = (task, c')"
    show ?thesis using revalidate_background_ok [OF a(3)] ok a(1,2)
      by (auto simp: plan_ok_def split: option.splits)
  next
    assume a: "fetch_flight c1 q st = (plan, c')"
    show ?thesis using fetch_flight_ok [OF _ a] fetch_flight_plan [OF a] ok
      by (auto simp: plan_ok_def split: option.splits)
  qed (use ok in \<open>simp add: plan_ok_def\<close>)
qed

text \<open>A recorder ends: it stores its body or not, and gives its guard back.\<close>

definition recorder_ended ::
    "cache_env \<Rightarrow> http_cache \<Rightarrow> recorder \<Rightarrow> string \<Rightarrow> http_cache \<Rightarrow> recorder \<Rightarrow> bool" where
  "recorder_ended e c r body c' r' \<longleftrightarrow> rc_head r' = None \<and> rc_guard r' = None \<and>
     (\<exists>c0. c' = release_guard c0 (rc_guard r) \<and>
        (c0 = c \<or> (\<exists>head entry. rc_head r = Some head \<and> cp_head entry = head \<and> cp_body entry = body \<and>
           cache_insert (ce_http e)
             (c\<lparr>hc_share := map_option (\<lambda>x. share_response e x (rc_key r) entry) (hc_share c)\<rparr>) (rc_key r) entry = Some c0)))"

lemma recorder_abort_ended: "recorder_abort c r = (c', r') \<Longrightarrow> recorder_ended e c r body c' r'"
  by (auto simp: recorder_abort_def recorder_ended_def)

lemma recorder_finish_ended:
  assumes "recorder_finish e c r clean now = Some (c', r')"
  shows "recorder_ended e c r (rc_buffer r) c' r'"
proof (cases "rc_head r")
  case None
  then show ?thesis using assms by (auto simp: recorder_finish_def recorder_ended_def Let_def)
next
  case (Some head)
  let ?entry = "\<lparr>cp_head = head, cp_body = rc_buffer r, cp_stored_at = now\<rparr>"
  let ?ins = "cache_insert (ce_http e)
      (c\<lparr>hc_share := map_option (\<lambda>x. share_response e x (rc_key r) ?entry) (hc_share c)\<rparr>) (rc_key r) ?entry"
  have "(c' = release_guard c (rc_guard r) \<or> (\<exists>c0. ?ins = Some c0 \<and> c' = release_guard c0 (rc_guard r))) \<and>
      rc_head r' = None \<and> rc_guard r' = None"
    using assms Some by (auto simp: recorder_finish_def Let_def split: option.splits if_splits)
  then show ?thesis using Some unfolding recorder_ended_def by (metis cached_response.select_convs(1,2))
qed

lemma recording_poll_cases:
  assumes "recording_poll e c r p now = Some (c', r')"
    and "rc_head r \<noteq> None \<longrightarrow> length (rc_buffer r) \<le> rc_max_size r"
  shows "(c' = c \<and> rc_guard r' = rc_guard r \<and> rc_head r' = rc_head r \<and> rc_max_size r' = rc_max_size r \<and>
          (rc_head r' \<noteq> None \<longrightarrow> length (rc_buffer r') \<le> rc_max_size r'))
       \<or> (\<exists>body. (rc_head r \<noteq> None \<longrightarrow> length body \<le> rc_max_size r) \<and> recorder_ended e c r body c' r')"
proof (cases p)
  case (PollFrame f)
  show ?thesis
  proof (cases f)
    case BodyTrailers
    then show ?thesis using assms PollFrame recorder_abort_ended by fastforce
  next
    case (BodyData d)
    let ?r1 = "r\<lparr>rc_buffer := rc_buffer r @ d\<rparr>"
    consider "rc_head r = None" | "rc_head r \<noteq> None" "rc_max_size r < length (rc_buffer r) + length d"
      | "rc_head r \<noteq> None" "length (rc_buffer r) + length d \<le> rc_max_size r" by linarith
    then show ?thesis
    proof cases
      case 2
      then have "recorder_abort c r = (c', r')" using assms(1) PollFrame BodyData by auto
      then show ?thesis using recorder_abort_ended assms(2) by blast
    next
      case 3
      show ?thesis
      proof (cases "rc_expected r = Some (length (rc_buffer r) + length d)")
        case True
        then have "recorder_finish e c ?r1 True now = Some (c', r')" using assms(1) PollFrame BodyData 3 by (auto simp: Let_def)
        from recorder_finish_ended [OF this] have "recorder_ended e c r (rc_buffer r @ d) c' r'"
          by (simp add: recorder_ended_def)
        then show ?thesis using 3 by (intro disjI2 exI [of _ "rc_buffer r @ d"]) simp
      next
        case False
        then show ?thesis using assms(1) PollFrame BodyData 3 by (auto simp: Let_def)
      qed
    qed (use assms PollFrame BodyData in simp)
  qed
next
  case PollError
  then show ?thesis using assms recorder_abort_ended by fastforce
next
  case (PollEnd clean)
  then show ?thesis using assms recorder_finish_ended by fastforce
qed (use assms in simp)

lemma recorder_ended_ok:
  assumes "entries_ok e c" and "recorder_ok e (hc_config c) r"
    and "rc_head r \<noteq> None \<Longrightarrow> length body \<le> rc_max_size r" and "recorder_ended e c r body c' r'"
  shows "entries_ok e c' \<and> hc_config c' = hc_config c \<and> recorder_ok e (hc_config c) r'"
proof -
  have r': "recorder_ok e (hc_config c) r'" using assms(4) by (simp add: recorder_ended_def recorder_ok_def)
  obtain c0 where c': "c' = release_guard c0 (rc_guard r)" and
    c0: "c0 = c \<or> (\<exists>head entry. rc_head r = Some head \<and> cp_head entry = head \<and> cp_body entry = body \<and>
           cache_insert (ce_http e)
             (c\<lparr>hc_share := map_option (\<lambda>x. share_response e x (rc_key r) entry) (hc_share c)\<rparr>) (rc_key r) entry = Some c0)"
    using assms(4) unfolding recorder_ended_def by blast
  from c0 have "entries_ok e c0 \<and> hc_config c0 = hc_config c"
  proof (elim disjE exE conjE)
    fix head entry
    let ?c = "c\<lparr>hc_share := map_option (\<lambda>x. share_response e x (rc_key r) entry) (hc_share c)\<rparr>"
    assume a: "rc_head r = Some head" "cp_head entry = head" "cp_body entry = body"
      "cache_insert (ce_http e) ?c (rc_key r) entry = Some c0"
    have "sharable e (hc_config c) entry"
      using assms(2,3) a(1-3) by (auto simp: recorder_ok_def sharable_def)
    then show ?thesis using entries_ok_insert [OF entries_ok_share_response [OF assms(1)] _ a(4)] by simp
  qed (use assms(1) in simp)
  then show ?thesis using r' by (simp add: c')
qed

lemma recording_poll_ok:
  assumes "entries_ok e c" and "recorder_ok e (hc_config c) r" and "recording_poll e c r p now = Some (c', r')"
  shows "entries_ok e c' \<and> hc_config c' = hc_config c \<and> recorder_ok e (hc_config c) r'"
proof -
  have len: "rc_head r \<noteq> None \<longrightarrow> length (rc_buffer r) \<le> rc_max_size r"
    using assms(2) by (auto simp: recorder_ok_def sharable_def)
  show ?thesis using recording_poll_cases [OF assms(3) len]
  proof (elim disjE exE conjE)
    assume "c' = c" "rc_head r' = rc_head r" "rc_max_size r' = rc_max_size r"
      "rc_head r' \<noteq> None \<longrightarrow> length (rc_buffer r') \<le> rc_max_size r'"
    then show ?thesis using assms(1,2) by (auto simp: recorder_ok_def sharable_def)
  qed (use recorder_ended_ok [OF assms(1,2)] in blast)
qed

lemma storable_head_sharable:
  assumes "storable_head e config q status hs = Some head" and "header_map hs"
  shows "sharable e config \<lparr>cp_head = head, cp_body = [], cp_stored_at = 0\<rparr>"
proof -
  have "is_storable (ce_http e) status hs (cq_authorized q)" and head: "sd_status head = status" "sd_headers head = hs"
    using assms(1) by (auto simp: storable_head_def Let_def split: if_splits)
  then show ?thesis
    using assms(2) is_storable_shareable by (auto simp: sharable_def is_storable_def)
qed

lemma cache_store_ok:
  assumes "entries_ok e c" and "header_map hs" and "cache_store e c q status hs guard = (hs', r, c')"
  shows "entries_ok e c' \<and> hc_config c' = hc_config c \<and> (\<forall>r'. r = Some r' \<longrightarrow> recorder_ok e (hc_config c) r')"
proof (cases "storable_head e (hc_config c) q status hs")
  case None
  then show ?thesis using assms by (auto simp: cache_store_def Let_def)
next
  case (Some head)
  then show ?thesis
    using assms storable_head_sharable [OF Some assms(2)] by (auto simp: cache_store_def Let_def recorder_ok_def)
qed

lemma refresh_entry_ok:
  assumes "entries_ok e c" and "sharable e (hc_config c) entry" and "header_map hs"
    and "is_storable_304 (ce_http e) hs a" and "refresh_entry e c key entry hs now = Some (refreshed, c')"
  shows "entries_ok e c' \<and> hc_config c' = hc_config c"
proof -
  let ?m = "merge_304_headers e entry hs (cc_default_ttl (hc_config c)) True now"
  have "cache_insert (ce_http e) c key ?m = Some c'" using assms(5) by (auto simp: refresh_entry_def Let_def)
  then show ?thesis using entries_ok_insert [OF assms(1) sharable_merge_304 [OF assms(2-4)]] by blast
qed

lemma handle_304_ok:
  assumes "entries_ok e c" and "sharable e (hc_config c) entry" and "header_map hs"
    and "handle_304 e c q entry hs now = Some (res, c')"
  shows "entries_ok e c' \<and> hc_config c' = hc_config c"
proof (cases "is_storable_304 (ce_http e) hs (cq_authorized q)")
  case True
  then obtain refreshed where "refresh_entry e c (cq_key q) entry hs now = Some (refreshed, c')"
    using assms(4) by (auto simp: handle_304_def split: option.splits)
  then show ?thesis using refresh_entry_ok [OF assms(1-3) True] by blast
next
  case False
  then show ?thesis using assms(1,4) by (auto simp: handle_304_def)
qed

lemma fetch_response_ok:
  assumes "entries_ok e c" and "\<And>entry. st = Some entry \<Longrightarrow> sharable e (hc_config c) entry" and "header_map hs"
    and "fetch_response e c q st guard status hs now = Some (res, c')"
  shows "entries_ok e c' \<and> hc_config c' = hc_config c \<and> (\<forall>r. r \<in># recorders_of res \<longrightarrow> recorder_ok e (hc_config c) r)"
proof (cases "status = 304 \<and> st \<noteq> None")
  case True
  then obtain entry res' where "st = Some entry" "res = FromCache res'"
      "handle_304 e (release_guard c guard) q entry hs now = Some (res', c')"
    using assms(4) by (auto simp: fetch_response_def)
  then show ?thesis using handle_304_ok [of e "release_guard c guard" entry hs q now res' c'] assms(1-3)
    by (simp add: recorders_of_def)
next
  case False
  obtain hs' r c1 where st: "cache_store e c q status hs guard = (hs', r, c1)" by (metis prod_cases3)
  then have "res = FromUpstream status hs' r" "c' = c1"
    using assms(4) False by (auto simp: fetch_response_def split: option.splits if_splits)
  then show ?thesis using cache_store_ok [OF assms(1,3) st] by (auto simp: recorders_of_def split: option.splits)
qed

lemma background_ok:
  assumes "entries_ok e c" and "sharable e (hc_config c) (rv_entry task)"
    and "\<And>status hs b. answer = Some (status, hs, b) \<Longrightarrow> header_map hs"
    and "run_background_revalidation e c task answer now = Some c'"
  shows "entries_ok e c' \<and> hc_config c' = hc_config c"
proof (cases answer)
  case None
  then show ?thesis using assms(1,4) by (simp add: run_background_revalidation_def)
next
  case (Some a)
  obtain status hs body where a: "answer = Some (status, hs, body)" using Some by (metis prod_cases3)
  have hs: "header_map hs" using assms(3) a by blast
  show ?thesis
  proof (cases "status = 304")
    case True
    show ?thesis
    proof (cases "is_storable_304 (ce_http e) hs (rv_authorized task)")
      case storable: True
      then obtain refreshed where "refresh_entry e c (rv_key task) (rv_entry task) hs now = Some (refreshed, c')"
        using assms(4) a True by (auto simp: run_background_revalidation_def)
      then show ?thesis using refresh_entry_ok [OF assms(1,2) hs storable] by blast
    next
      case False
      then show ?thesis using assms(1,4) a True by (simp add: run_background_revalidation_def)
    qed
  next
    case False
    have "c' = c \<or> (\<exists>entry. is_storable (ce_http e) status hs (rv_authorized task) \<and> sd_status (cp_head entry) = status \<and>
        sd_headers (cp_head entry) = hs \<and> length (cp_body entry) \<le> cc_max_entry_size (hc_config c) \<and>
        cache_insert (ce_http e) c (rv_key task) entry = Some c')"
      using assms(4) a False
      by (auto simp: run_background_revalidation_def store_entry_def split: if_splits option.splits)
    then show ?thesis
    proof (elim disjE exE conjE)
      fix entry
      assume e: "is_storable (ce_http e) status hs (rv_authorized task)" "sd_status (cp_head entry) = status"
        "sd_headers (cp_head entry) = hs" "length (cp_body entry) \<le> cc_max_entry_size (hc_config c)"
        and ins: "cache_insert (ce_http e) c (rv_key task) entry = Some c'"
      have "sharable e (hc_config c) entry"
        using e hs is_storable_shareable [OF e(1)] by (simp add: sharable_def is_storable_def)
      then show ?thesis using entries_ok_insert [OF assms(1) _ ins] by blast
    qed (use assms(1) in simp)
  qed
qed

text \<open>Removing entries and queueing removals keeps everything sharable.\<close>

lemma entries_ok_shrink:
  assumes "entries_ok e c" and "hc_config c' = hc_config c"
    and "\<And>k. hc_entries c' k = None \<or> hc_entries c' k = hc_entries c k"
    and "\<And>y. hc_share c' = Some y \<Longrightarrow>
      \<exists>x. hc_share c = Some x \<and> (\<forall>k r. SharePut k r \<in> set (cx_queue y) \<longrightarrow> SharePut k r \<in> set (cx_queue x))"
  shows "entries_ok e c'"
proof (rule entries_okI)
  fix k entry
  assume "hc_entries c' k = Some entry"
  then have "hc_entries c k = Some entry" using assms(3) [of k] by simp
  then show "sharable e (hc_config c') entry" using entries_okD [OF assms(1)] assms(2) by simp
next
  fix y k r
  assume "hc_share c' = Some y" "SharePut k r \<in> set (cx_queue y)"
  then show "shared_ok e (hc_config c') r" using assms(4) entries_okQ [OF assms(1)] assms(2) by metis
qed

lemma invalidate_key_config [simp]: "hc_config (invalidate_key c k) = hc_config c"
  by (simp add: invalidate_key_def)

lemma invalidate_key_ok: "entries_ok e c \<Longrightarrow> entries_ok e (invalidate_key c k)"
  by (rule entries_ok_shrink) (auto simp: share_invalidate_def split: if_splits)

lemma fetch_unsafe_ok:
  "entries_ok e c \<Longrightarrow> entries_ok e (fetch_unsafe c q status) \<and> hc_config (fetch_unsafe c q status) = hc_config c"
  by (simp add: fetch_unsafe_def invalidate_target_def invalidate_key_ok Let_def)

lemma set_tl: "x \<in> set (tl xs) \<Longrightarrow> x \<in> set xs"
  by (cases xs) auto

lemma purge_ok:
  assumes "entries_ok e c"
  shows "entries_ok e (cache_purge_all c t)" "entries_ok e (cache_purge_path c path)"
    "entries_ok e (c\<lparr>hc_entries := (hc_entries c)(key := None)\<rparr>)"
    "entries_ok e (c\<lparr>hc_share := map_option share_written (hc_share c)\<rparr>)"
proof -
  show "entries_ok e (cache_purge_all c t)"
    by (rule entries_ok_shrink [OF assms]) (auto simp: cache_purge_all_def share_purge_def)
  show "entries_ok e (cache_purge_path c path)"
    by (rule entries_ok_shrink [OF assms]) (auto simp: cache_purge_path_def)
  show "entries_ok e (c\<lparr>hc_entries := (hc_entries c)(key := None)\<rparr>)"
    by (rule entries_ok_shrink [OF assms]) auto
  show "entries_ok e (c\<lparr>hc_share := map_option share_written (hc_share c)\<rparr>)"
    by (rule entries_ok_shrink [OF assms]) (auto simp: share_written_def dest: set_tl)
qed

lemma content_inv_planned:
  assumes "content_inv e config s" and "entries_ok e c" and "hc_config c = config" and "plan_ok e config plan"
  shows "content_inv e config (planned s q plan c)"
  using assms unfolding content_inv_def planned_def plan_ok_def
  by (auto split: fetch_plan.splits option.splits)

lemma content_inv_step:
  assumes "\<And>b. ce_decode e (ce_encode e b) = Some b" and "content_inv e config s" and "cache_step e s s'"
  shows "content_inv e config s'"
proof -
  have conf: "hc_config (cw_cache s) = config" and ok: "entries_ok e (cw_cache s)"
    and fetches: "\<And>q entry g. (q, Some entry, g) \<in># cw_fetches s \<Longrightarrow> sharable e config entry"
    and recorders: "\<And>r. r \<in># cw_recorders s \<Longrightarrow> recorder_ok e config r"
    and tasks: "\<And>task. task \<in># cw_tasks s \<Longrightarrow> sharable e config (rv_entry task)"
    using assms(2) unfolding content_inv_def by blast+
  from assms(3) show ?thesis
  proof cases
    case (looked_up w q original answer now plan c)
    have "entries_ok (e\<lparr>ce_wall := w\<rparr>) c \<and> hc_config c = hc_config (cw_cache s) \<and>
        plan_ok (e\<lparr>ce_wall := w\<rparr>) (hc_config (cw_cache s)) plan"
      by (rule fetch_begin_ok [OF _ _ _ looked_up(2)]) (use assms(1) ok looked_up(3) in simp_all)
    then show ?thesis
      using content_inv_planned [OF assms(2), of c plan q] conf looked_up(1)
      by (simp add: plan_ok_def split: fetch_plan.splits option.splits)
  next
    case (answered q st g hs w status now res c)
    have "entries_ok (e\<lparr>ce_wall := w\<rparr>) c \<and> hc_config c = hc_config (cw_cache s) \<and>
        (\<forall>r. r \<in># recorders_of res \<longrightarrow> recorder_ok (e\<lparr>ce_wall := w\<rparr>) (hc_config (cw_cache s)) r)"
      by (rule fetch_response_ok [OF _ _ answered(3,4)]) (use ok fetches answered(2) conf in auto)
    then show ?thesis using answered(1) assms(2) conf by (auto simp: content_inv_def dest!: in_diffD)
  next
    case (polled r w p now c r')
    have "entries_ok (e\<lparr>ce_wall := w\<rparr>) c \<and> hc_config c = hc_config (cw_cache s) \<and>
        recorder_ok (e\<lparr>ce_wall := w\<rparr>) (hc_config (cw_cache s)) r'"
      by (rule recording_poll_ok [OF _ _ polled(3)]) (use ok recorders polled(2) conf in simp_all)
    then show ?thesis using polled(1) assms(2) conf by (auto simp: content_inv_def dest!: in_diffD)
  next
    case (revalidated task answer w now c)
    have "entries_ok (e\<lparr>ce_wall := w\<rparr>) c \<and> hc_config c = hc_config (cw_cache s)"
      by (rule background_ok [OF _ _ _ revalidated(4)]) (use ok tasks revalidated(2,3) conf in auto)
    then show ?thesis using revalidated(1) assms(2) conf by (auto simp: content_inv_def dest!: in_diffD)
  next
    case (abandoned q st g)
    then show ?thesis using assms(2) by (auto simp: content_inv_def dest!: in_diffD)
  next
    case (unsafe_done q status)
    then show ?thesis using assms(2) fetch_unsafe_ok [OF ok] by (simp add: content_inv_def)
  qed (use assms(2) purge_ok [OF ok] in \<open>auto simp: content_inv_def cache_purge_all_def cache_purge_path_def dest!: in_diffD\<close>)
qed

lemma content_inv_reach:
  assumes "\<And>b. ce_decode e (ce_encode e b) = Some b" and "cache_reach e config s"
  shows "content_inv e config s"
  using assms(2)
proof induction
  case (started share)
  then show ?case by (auto simp: content_inv_def http_cache_new_def intro!: entries_okI)
next
  case (stepped s s')
  then show ?case using content_inv_step [OF assms(1)] by blast
qed

section \<open>Flights\<close>

definition guard_keys :: "string option \<Rightarrow> string multiset" where
  "guard_keys g = (case g of None \<Rightarrow> {#} | Some k \<Rightarrow> {#k#})"

text \<open>The guards that requests and recorders hold.\<close>

definition guards :: "cache_run \<Rightarrow> string multiset" where
  "guards s = \<Sum>\<^sub># (image_mset (\<lambda>(q, st, g). guard_keys g) (cw_fetches s)) +
     \<Sum>\<^sub># (image_mset (guard_keys \<circ> rc_guard) (cw_recorders s))"

definition flight_inv :: "cache_run \<Rightarrow> bool" where
  "flight_inv s \<longleftrightarrow>
     mset (hc_in_flight (cw_cache s)) = guards s \<and> distinct (hc_in_flight (cw_cache s)) \<and>
     mset (hc_revalidating (cw_cache s)) = image_mset rv_key (cw_tasks s) \<and> distinct (hc_revalidating (cw_cache s))"

definition same_flights :: "http_cache \<Rightarrow> http_cache \<Rightarrow> bool" where
  "same_flights c c' \<longleftrightarrow> hc_in_flight c' = hc_in_flight c \<and> hc_revalidating c' = hc_revalidating c"

lemma same_flights_refl [simp]: "same_flights c c"
  by (simp add: same_flights_def)

lemma mset_remove_distinct:
  assumes "distinct xs" and "mset xs = add_mset k M"
  shows "mset (filter (\<lambda>x. x \<noteq> k) xs) = M"
proof -
  have "count (mset xs) k \<le> 1" using assms(1) by (simp add: distinct_count_atmost_1)
  then have "k \<notin># M" using assms(2) by (simp add: not_in_iff)
  then have "filter_mset (\<lambda>x. x \<noteq> k) M = M" by (auto simp: filter_mset_eq_conv)
  then show ?thesis using assms(2) by (simp add: mset_filter)
qed

lemma release_guard_flights:
  assumes "distinct (hc_in_flight c)" and "mset (hc_in_flight c) = guard_keys g + M"
  shows "mset (hc_in_flight (release_guard c g)) = M \<and> distinct (hc_in_flight (release_guard c g))"
  using assms mset_remove_distinct [of "hc_in_flight c"]
  by (cases g) (simp_all add: release_guard_def end_flight_def guard_keys_def)

lemma cache_insert_flights: "cache_insert h c k entry = Some c' \<Longrightarrow> same_flights c c'"
  by (auto simp: cache_insert_Some same_flights_def)

lemma handle_304_flights: "handle_304 e c q entry hs now = Some (res, c') \<Longrightarrow> same_flights c c'"
  by (auto simp: handle_304_def refresh_entry_def Let_def dest: cache_insert_flights split: if_splits option.splits)

lemma background_flights:
  assumes "run_background_revalidation e c task answer now = Some c'"
  shows "same_flights c c'"
proof -
  have "c' = c \<or> (\<exists>entry. cache_insert (ce_http e) c (rv_key task) entry = Some c')"
    using assms
    by (auto simp: run_background_revalidation_def refresh_entry_def store_entry_def Let_def split: if_splits option.splits)
  then show ?thesis using cache_insert_flights by auto
qed

lemma invalidate_flights: "same_flights c (fetch_unsafe c q status)"
  by (simp add: same_flights_def fetch_unsafe_def invalidate_target_def invalidate_key_def Let_def)

lemma fetch_begin_flights:
  assumes "flight_inv s" and "fetch_begin e (cw_cache s) q original answer now = Some (plan, c')"
  shows "flight_inv (planned s q plan c')"
proof -
  obtain st c1 where f: "find_stored e (cw_cache s) q answer now = Some (st, c1)" and
    ways: "(\<exists>res. plan = PlanHit res \<and> c' = c1) \<or>
       (\<exists>entry res task. st = Some entry \<and> plan = PlanStale res task \<and>
          revalidate_background c1 q entry original = (task, c')) \<or>
       fetch_flight c1 q st = (plan, c')"
    using fetch_begin_cases [OF assms(2)] by metis
  have 1: "hc_in_flight c1 = hc_in_flight (cw_cache s)" "hc_revalidating c1 = hc_revalidating (cw_cache s)"
    using find_stored_usable [OF f] by blast+
  from ways show ?thesis
  proof (elim disjE exE conjE)
    fix entry res task
    assume a: "st = Some entry" "plan = PlanStale res task" "revalidate_background c1 q entry original = (task, c')"
    show ?thesis
      using assms(1) 1 a by (auto simp: flight_inv_def planned_def guards_def revalidate_background_def
          mark_revalidating_def Let_def split: if_splits)
  next
    assume a: "fetch_flight c1 q st = (plan, c')"
    show ?thesis
      using assms(1) 1 a by (auto simp: flight_inv_def planned_def guards_def guard_keys_def fetch_flight_def start_flight_def
          split: if_splits)
  qed (use assms(1) 1 in \<open>simp add: flight_inv_def planned_def guards_def\<close>)
qed

lemma fetch_response_flights:
  assumes "distinct (hc_in_flight c)" and "mset (hc_in_flight c) = guard_keys g + M"
    and "fetch_response e c q st g status hs now = Some (res, c')"
  shows "mset (hc_in_flight c') = M + \<Sum>\<^sub># (image_mset (guard_keys \<circ> rc_guard) (recorders_of res)) \<and>
    distinct (hc_in_flight c') \<and> hc_revalidating c' = hc_revalidating c"
proof (cases "status = 304 \<and> st \<noteq> None")
  case True
  then obtain entry res' where r: "res = FromCache res'"
      "handle_304 e (release_guard c g) q entry hs now = Some (res', c')"
    using assms(3) by (auto simp: fetch_response_def)
  show ?thesis
    using release_guard_flights [OF assms(1,2)] handle_304_flights [OF r(2)]
    by (simp add: same_flights_def r(1) recorders_of_def)
next
  case False
  obtain hs' r c1 where st: "cache_store e c q status hs g = (hs', r, c1)" by (metis prod_cases3)
  then have res: "res = FromUpstream status hs' r" "c' = c1"
    using assms(3) False by (auto simp: fetch_response_def split: option.splits if_splits)
  show ?thesis
  proof (cases "storable_head e (hc_config c) q status hs")
    case None
    then have "r = None" "c1 = release_guard c g" using st by (auto simp: cache_store_def Let_def)
    then show ?thesis using release_guard_flights [OF assms(1,2)] by (simp add: res recorders_of_def)
  next
    case (Some head)
    then obtain r' where "r = Some r'" "rc_guard r' = g" "c1 = c" using st by (auto simp: cache_store_def Let_def)
    then show ?thesis using assms(1,2) by (simp add: res recorders_of_def add.commute)
  qed
qed

lemma recording_poll_flights:
  assumes "distinct (hc_in_flight c)" and "mset (hc_in_flight c) = guard_keys (rc_guard r) + M"
    and "rc_head r \<noteq> None \<longrightarrow> length (rc_buffer r) \<le> rc_max_size r" and "recording_poll e c r p now = Some (c', r')"
  shows "mset (hc_in_flight c') = guard_keys (rc_guard r') + M \<and> distinct (hc_in_flight c') \<and>
    hc_revalidating c' = hc_revalidating c"
  using recording_poll_cases [OF assms(4,3)]
proof (elim disjE exE conjE)
  fix body
  assume "recorder_ended e c r body c' r'"
  then obtain c0 where c0: "rc_guard r' = None" "c' = release_guard c0 (rc_guard r)" "same_flights c c0"
    unfolding recorder_ended_def by (fastforce dest: cache_insert_flights simp: same_flights_def)
  then show ?thesis using release_guard_flights [of c0 "rc_guard r" M] assms(1,2)
    by (simp add: same_flights_def guard_keys_def)
qed (use assms(1,2) in simp)

text \<open>Taking one request or one recorder out of a state separates its guard.\<close>

lemma guards_fetch:
  assumes "(q, st, g) \<in># cw_fetches s"
  shows "guards s = guard_keys g + guards (s\<lparr>cw_fetches := cw_fetches s - {#(q, st, g)#}\<rparr>)"
proof -
  obtain F where "cw_fetches s = add_mset (q, st, g) F" using assms by (metis insert_DiffM)
  then show ?thesis by (simp add: guards_def)
qed

lemma guards_recorder:
  assumes "r \<in># cw_recorders s"
  shows "guards s = guard_keys (rc_guard r) + guards (s\<lparr>cw_recorders := cw_recorders s - {#r#}\<rparr>)"
proof -
  obtain R where "cw_recorders s = add_mset r R" using assms by (metis insert_DiffM)
  then show ?thesis by (simp add: guards_def add_ac)
qed

lemma flight_inv_step:
  assumes "flight_inv s" and "content_inv e config s" and "cache_step e s s'"
  shows "flight_inv s'"
proof -
  let ?c = "cw_cache s"
  have in_flight: "mset (hc_in_flight ?c) = guards s" and d: "distinct (hc_in_flight ?c)"
    and reval: "mset (hc_revalidating ?c) = image_mset rv_key (cw_tasks s)" "distinct (hc_revalidating ?c)"
    using assms(1) unfolding flight_inv_def by blast+
  from assms(3) show ?thesis
  proof cases
    case (looked_up w q original answer now plan c)
    then show ?thesis using fetch_begin_flights [OF assms(1)] by blast
  next
    case (answered q st g hs w status now res c)
    note m = in_flight [unfolded guards_fetch [OF answered(2)]]
    show ?thesis
      using fetch_response_flights [OF d m answered(4)] reval answered(1)
      by (simp add: flight_inv_def guards_def add_ac)
  next
    case (abandoned q st g)
    note m = in_flight [unfolded guards_fetch [OF abandoned(2)]]
    show ?thesis
      using release_guard_flights [OF d m] reval abandoned(1) by (simp add: flight_inv_def guards_def)
  next
    case (polled r w p now c r')
    note m = in_flight [unfolded guards_recorder [OF polled(2)]]
    have len: "rc_head r \<noteq> None \<longrightarrow> length (rc_buffer r) \<le> rc_max_size r"
      using assms(2) polled(2) by (auto simp: content_inv_def recorder_ok_def sharable_def)
    show ?thesis
      using recording_poll_flights [OF d m len polled(3)] reval polled(1)
      by (simp add: flight_inv_def guards_def add_ac)
  next
    case (dropped r)
    note m = in_flight [unfolded guards_recorder [OF dropped(2)]]
    show ?thesis
      using release_guard_flights [OF d m] reval dropped(1) by (simp add: flight_inv_def guards_def)
  next
    case (revalidated task answer w now c)
    obtain T where T: "cw_tasks s = add_mset task T" using revalidated(2) by (metis insert_DiffM)
    have c: "hc_in_flight c = hc_in_flight ?c" "hc_revalidating c = hc_revalidating ?c"
      using background_flights [OF revalidated(4)] by (simp_all add: same_flights_def)
    have "mset (filter (\<lambda>k. k \<noteq> rv_key task) (hc_revalidating ?c)) = image_mset rv_key T"
      using mset_remove_distinct [OF reval(2)] reval(1) T by simp
    then show ?thesis
      using in_flight d reval(2) revalidated(1) c T by (simp add: flight_inv_def guards_def finish_revalidating_def)
  next
    case (unsafe_done q status)
    then show ?thesis using assms(1) invalidate_flights [of ?c q status] by (simp add: flight_inv_def guards_def same_flights_def)
  qed (use assms(1) in \<open>simp_all add: flight_inv_def guards_def cache_purge_all_def cache_purge_path_def\<close>)
qed

lemma flight_inv_reach:
  assumes "\<And>b. ce_decode e (ce_encode e b) = Some b" and "cache_reach e config s"
  shows "flight_inv s"
  using assms(2)
proof induction
  case (started share)
  then show ?case by (simp add: flight_inv_def guards_def http_cache_new_def)
next
  case (stepped s s')
  then show ?case using flight_inv_step content_inv_reach [OF assms(1)] by blast
qed

text \<open>A run that looks up a key, fetches it and stores the answer.\<close>

definition sample_lookup :: "(fetch_plan \<times> http_cache) option" where
  "sample_lookup = fetch_begin sample_cache_env (http_cache_new sample_cache_config None) sample_cache_request [] None 0"

definition sample_answer :: "(fetch_result \<times> http_cache) option" where
  "sample_answer = fetch_response sample_cache_env (snd (the sample_lookup)) sample_cache_request None (Some ''http a /'') 200
     (sd_headers sample_stored_head) 1"

definition sample_recorder :: recorder where
  "sample_recorder = (case fst (the sample_answer) of FromUpstream _ _ (Some r) \<Rightarrow> r | _ \<Rightarrow> undefined)"

definition sample_store :: "(http_cache \<times> recorder) option" where
  "sample_store = recording_poll sample_cache_env (snd (the sample_answer)) sample_recorder (PollFrame (BodyData ''abcd'')) 2"

definition sample_flying :: cache_run where
  "sample_flying = \<lparr>cw_cache = snd (the sample_lookup), cw_fetches = {#(sample_cache_request, None, Some ''http a /'')#},
     cw_recorders = {#}, cw_tasks = {#}\<rparr>"

definition sample_stored :: cache_run where
  "sample_stored = \<lparr>cw_cache = fst (the sample_store), cw_fetches = {#}, cw_recorders = {#snd (the sample_store)#}, cw_tasks = {#}\<rparr>"

lemma sample_env_wall: "sample_cache_env\<lparr>ce_wall := 5 * 10 ^ 9\<rparr> = sample_cache_env"
  by (simp add: sample_cache_env_def)

lemma sample_flying_reach: "cache_reach sample_cache_env sample_cache_config sample_flying"
proof -
  let ?s = "\<lparr>cw_cache = http_cache_new sample_cache_config None, cw_fetches = {#}, cw_recorders = {#}, cw_tasks = {#}\<rparr>"
  have "cache_reach sample_cache_env sample_cache_config ?s" by (rule cache_reach.started) simp
  moreover have "cache_step sample_cache_env ?s (planned ?s sample_cache_request (PlanLead None) (snd (the sample_lookup)))"
  proof (rule cache_step.looked_up)
    have "map_option fst sample_lookup = Some (PlanLead None)" by code_simp
    then show "fetch_begin (sample_cache_env\<lparr>ce_wall := 5 * 10 ^ 9\<rparr>) (cw_cache ?s) sample_cache_request [] None 0 =
        Some (PlanLead None, snd (the sample_lookup))"
      unfolding sample_env_wall sample_lookup_def by auto
  qed simp
  moreover have "planned ?s sample_cache_request (PlanLead None) (snd (the sample_lookup)) = sample_flying"
    by (simp add: planned_def sample_flying_def sample_cache_request_def)
  ultimately show ?thesis using cache_reach.stepped by metis
qed

lemma sample_stored_reach: "cache_reach sample_cache_env sample_cache_config sample_stored"
proof -
  let ?s = "sample_flying\<lparr>cw_cache := snd (the sample_answer), cw_fetches := {#}, cw_recorders := {#sample_recorder#}\<rparr>"
  have "case sample_answer of Some (FromUpstream _ _ (Some r), c) \<Rightarrow> True | _ \<Rightarrow> False" by code_simp
  then obtain n hs r c where sa: "sample_answer = Some (FromUpstream n hs (Some r), c)"
    by (auto split: option.splits fetch_result.splits)
  then have a: "sample_answer = Some (fst (the sample_answer), snd (the sample_answer))"
      and r: "recorders_of (fst (the sample_answer)) = {#sample_recorder#}"
    unfolding sample_recorder_def recorders_of_def sa by simp_all
  have "cache_step sample_cache_env sample_flying (sample_flying\<lparr>cw_cache := snd (the sample_answer),
      cw_fetches := cw_fetches sample_flying - {#(sample_cache_request, None, Some ''http a /'')#},
      cw_recorders := cw_recorders sample_flying + recorders_of (fst (the sample_answer))\<rparr>)"
  proof (rule cache_step.answered)
    show "header_map (sd_headers sample_stored_head)" by code_simp
    show "fetch_response (sample_cache_env\<lparr>ce_wall := 5 * 10 ^ 9\<rparr>) (cw_cache sample_flying) sample_cache_request None
        (Some ''http a /'') 200 (sd_headers sample_stored_head) 1 = Some (fst (the sample_answer), snd (the sample_answer))"
      using a unfolding sample_env_wall by (simp add: sample_answer_def sample_flying_def)
  qed (simp add: sample_flying_def)
  then have 2: "cache_step sample_cache_env sample_flying ?s" unfolding r by (simp add: sample_flying_def)
  have "case sample_store of Some _ \<Rightarrow> True | None \<Rightarrow> False" by code_simp
  then have st: "sample_store = Some (fst (the sample_store), snd (the sample_store))"
    by (metis option.collapse option.simps(4) prod.collapse)
  have "cache_step sample_cache_env ?s (?s\<lparr>cw_cache := fst (the sample_store),
      cw_recorders := add_mset (snd (the sample_store)) (cw_recorders ?s - {#sample_recorder#})\<rparr>)"
  proof (rule cache_step.polled)
    show "recording_poll (sample_cache_env\<lparr>ce_wall := 5 * 10 ^ 9\<rparr>) (cw_cache ?s) sample_recorder (PollFrame (BodyData ''abcd'')) 2 =
        Some (fst (the sample_store), snd (the sample_store))"
      using st unfolding sample_env_wall by (simp add: sample_store_def)
  qed simp
  then have 3: "cache_step sample_cache_env ?s sample_stored" by (simp add: sample_stored_def sample_flying_def)
  show ?thesis
    by (rule cache_reach.stepped [OF cache_reach.stepped [OF sample_flying_reach 2] 3])
qed



text \<open>
  C25: At most one request fetches a key at a time, and none is forgotten.  In every reachable state a
  key is in flight exactly when one request or one recorder holds its guard, and never two of them; a key
  is being revalidated exactly when one background task will end it.  So a key never stays locked after
  the requests for it are gone.
\<close>

theorem one_leader_per_key:
  assumes "\<And>b. ce_decode e (ce_encode e b) = Some b" and "cache_reach e config s"
  shows "count (guards s) key = (if key \<in> set (hc_in_flight (cw_cache s)) then 1 else 0) \<and>
    count (image_mset rv_key (cw_tasks s)) key = (if key \<in> set (hc_revalidating (cw_cache s)) then 1 else 0)"
proof -
  have "flight_inv s" by (rule flight_inv_reach [OF assms])
  then show ?thesis unfolding flight_inv_def by (metis distinct_count_atmost_1)
qed

theorem one_leader_per_key_witness:
  "count (guards sample_flying) ''http a /'' = 1 \<and> count (guards sample_stored) ''http a /'' = 0"
proof -
  have e: "ce_decode sample_cache_env (ce_encode sample_cache_env b) = Some b" for b by (simp add: sample_cache_env_def)
  have "hc_in_flight (cw_cache sample_flying) = [''http a /'']" "hc_in_flight (cw_cache sample_stored) = []" by code_simp+
  then show ?thesis
    using one_leader_per_key [OF e sample_flying_reach, of "''http a /''"] one_leader_per_key [OF e sample_stored_reach, of "''http a /''"]
    by simp
qed

end
