(* ===== verification/Rewriter.thy ===== *)
theory Rewriter
  imports Header_Rules
begin

text \<open>
  What the proxy changes in the headers of a request before it goes upstream: \<open>RequestRewriter\<close> and the
  removal of hop-by-hop headers of \<open>proxy/http/rewriter.rs\<close>, and the trace context of
  \<open>proxy/http/trace.rs\<close>.

  The random numbers of the trace context are arguments.
\<close>

section \<open>Forwarded headers\<close>

definition CLIENT_IP_HEADERS :: "string list" where
  "CLIENT_IP_HEADERS = [''forwarded'', ''x-forwarded-for'', ''x-forwarded-host'', ''x-real-ip'', ''cf-connecting-ip'',
     ''true-client-ip'', ''cloudfront-viewer-address'', ''fastly-client-ip'', ''incap-client-ip'']"

definition remove_headers :: "string list \<Rightarrow> headers \<Rightarrow> headers" where
  "remove_headers names hs = fold (\<lambda>name hs. hremove hs name) names hs"

definition remove_untrusted_headers :: "headers \<Rightarrow> headers" where
  "remove_untrusted_headers hs = remove_headers CLIENT_IP_HEADERS hs"

text \<open>A value that is not text counts as the empty text, whose only part is empty.\<close>

definition header_parts :: "http_env \<Rightarrow> headers \<Rightarrow> string \<Rightarrow> string list" where
  "header_parts h hs name =
     concat (map (\<lambda>v. split_on CHR '','' (case to_str h v of None \<Rightarrow> [] | Some s \<Rightarrow> s)) (get_all hs name))"

definition parse_x_forwarded_for :: "http_env \<Rightarrow> headers \<Rightarrow> ip_addr list \<times> headers" where
  "parse_x_forwarded_for h hs =
     (List.map_filter (\<lambda>ip. parse_ip (trim ip)) (header_parts h hs ''x-forwarded-for''), hremove hs ''x-forwarded-for'')"

definition parse_forwarded :: "http_env \<Rightarrow> headers \<Rightarrow> string list \<times> headers" where
  "parse_forwarded h hs = (map trim (header_parts h hs ''forwarded''), hremove hs ''forwarded'')"

definition forwarded_for_directive :: "ip_addr \<Rightarrow> string" where
  "forwarded_for_directive addr =
     (case addr of
        V6 _ \<Rightarrow> ''for='' @ [CHR 0x22] @ ''['' @ fmt_ip addr @ '']'' @ [CHR 0x22]
      | V4 _ \<Rightarrow> ''for='' @ fmt_ip addr)"

definition is_token_byte :: "char \<Rightarrow> bool" where
  "is_token_byte b \<longleftrightarrow> is_ascii_alphanumeric b \<or> b \<in> set (''!#$%&'' @ [CHR 0x27] @ ''*+-.^_'' @ [CHR 0x60] @ ''|~'')"

definition is_rfc7230_token :: "string \<Rightarrow> bool" where
  "is_rfc7230_token s \<longleftrightarrow> s \<noteq> [] \<and> list_all is_token_byte s"

definition has_control_chars :: "string \<Rightarrow> bool" where
  "has_control_chars s = list_ex (\<lambda>b. let n = of_char b :: nat in n < 0x20 \<or> n = 0x7f) s"

definition escape_quoted_string :: "string \<Rightarrow> string" where
  "escape_quoted_string s = concat (map (\<lambda>c. if c = CHR 0x22 \<or> c = CHR 0x5c then [CHR 0x5c, c] else [c]) s)"

definition forwarded_host_directive :: "string \<Rightarrow> string option" where
  "forwarded_host_directive host =
     (if host = [] \<or> has_control_chars host then None
      else if is_rfc7230_token host then Some (''host='' @ host)
      else Some (''host='' @ [CHR 0x22] @ escape_quoted_string host @ [CHR 0x22]))"

definition forwarded_proto_directive :: "string \<Rightarrow> string" where
  "forwarded_proto_directive proto = ''proto='' @ proto"

definition current_hop :: "ip_addr \<Rightarrow> string option \<Rightarrow> string \<Rightarrow> string" where
  "current_hop peer host proto =
     join_with '';'' ([forwarded_for_directive peer] @
       (case host of None \<Rightarrow> [] | Some h \<Rightarrow> (case forwarded_host_directive h of None \<Rightarrow> [] | Some d \<Rightarrow> [d])) @
       [forwarded_proto_directive proto])"

text \<open>\<open>HeaderValue::from_str\<close> and \<open>insert\<close>; an invalid value leaves the headers as they are.\<close>

definition insert_str :: "http_env \<Rightarrow> headers \<Rightarrow> string \<Rightarrow> string \<Rightarrow> headers" where
  "insert_str h hs name v = (case header_from_str h v of None \<Rightarrow> hs | Some v \<Rightarrow> hinsert hs name v)"

definition pre_process :: "http_env \<Rightarrow> headers \<Rightarrow> client_addr \<Rightarrow> string option \<Rightarrow> string \<Rightarrow> headers" where
  "pre_process h hs client host proto =
     (let (x_forwarded_for, forwarded, hs1) =
            (if ca_trusted_peer client
             then let (x, hs1) = parse_x_forwarded_for h hs;
                      (f, hs2) = parse_forwarded h hs1
                  in (x, f, insert_str h hs2 ''x-real-ip'' (fmt_ip (ca_ip client)))
             else ([], [], remove_untrusted_headers hs));
          forwarded = (if forwarded = [] then map forwarded_for_directive x_forwarded_for else forwarded);
          hs2 = insert_str h hs1 ''forwarded''
            (join_with '', '' (forwarded @ [current_hop (ca_peer client) host proto]));
          hs3 = insert_str h hs2 ''x-forwarded-for''
            (join_with '', '' (map fmt_ip (x_forwarded_for @ [ca_peer client])));
          hs4 = hinsert hs3 ''x-forwarded-proto'' proto
      in case host of None \<Rightarrow> hs4 | Some ho \<Rightarrow> insert_str h hs4 ''x-forwarded-host'' ho)"

definition post_process :: "string option \<Rightarrow> headers \<Rightarrow> headers" where
  "post_process set_via hs = (case set_via of None \<Rightarrow> hs | Some via \<Rightarrow> hinsert hs ''via'' via)"

section \<open>Hop-by-hop headers\<close>

definition HOP_BY_HOP_HEADERS :: "string list" where
  "HOP_BY_HOP_HEADERS = [''connection'', ''keep-alive'', ''proxy-authenticate'', ''proxy-authorization'',
     ''proxy-connection'', ''trailer'', ''trailers'', ''transfer-encoding'', ''upgrade'', ''http2-settings'']"

definition is_websocket_upgrade :: "http_env \<Rightarrow> headers \<Rightarrow> string \<Rightarrow> bool" where
  "is_websocket_upgrade h hs method =
     (if method \<noteq> ''GET'' then False
      else
        list_ex (\<lambda>v. case to_str h v of None \<Rightarrow> False | Some s \<Rightarrow> eq_ignore_ascii_case s ''websocket'') (get_all hs ''upgrade'') \<and>
        list_ex (\<lambda>v. case to_str h v of
            None \<Rightarrow> False
          | Some s \<Rightarrow> list_ex (\<lambda>p. eq_ignore_ascii_case (trim p) ''upgrade'') (split_on CHR '','' s)) (get_all hs ''connection''))"

definition connection_names :: "http_env \<Rightarrow> headers \<Rightarrow> string list" where
  "connection_names h hs =
     map to_ascii_lowercase
       (filter (\<lambda>t. t \<noteq> [] \<and> \<not> eq_ignore_ascii_case t ''upgrade'' \<and> is_header_name t)
         (map trim (list_elements h hs ''connection'')))"

definition remove_connection_named_headers :: "http_env \<Rightarrow> headers \<Rightarrow> headers" where
  "remove_connection_named_headers h hs = remove_headers (connection_names h hs) hs"

definition sanitize_te_header :: "http_env \<Rightarrow> headers \<Rightarrow> headers" where
  "sanitize_te_header h hs =
     (let is_trailers = (case get hs ''te'' of
            None \<Rightarrow> False
          | Some v \<Rightarrow> (case to_str h v of None \<Rightarrow> False | Some s \<Rightarrow> eq_ignore_ascii_case (trim s) ''trailers''))
      in if is_trailers then hs else hremove hs ''te'')"

definition remove_hop_by_hop_headers :: "http_env \<Rightarrow> headers \<Rightarrow> string \<Rightarrow> headers" where
  "remove_hop_by_hop_headers h hs method =
     (let ws = is_websocket_upgrade h hs method;
          hs1 = sanitize_te_header h (remove_connection_named_headers h hs);
          hs2 = remove_headers (filter (\<lambda>name. \<not> (ws \<and> (name = ''connection'' \<or> name = ''upgrade''))) HOP_BY_HOP_HEADERS) hs1
      in if ws then hinsert (hinsert hs2 ''connection'' ''upgrade'') ''upgrade'' ''websocket'' else hs2)"

section \<open>Trace context\<close>

record trace_parent =
  tp_version :: string
  tp_trace_id :: string
  tp_parent_id :: string
  tp_flags :: string

definition is_ascii_hexdigit :: "char \<Rightarrow> bool" where
  "is_ascii_hexdigit c \<longleftrightarrow> char_digit 16 c \<noteq> None"

definition is_valid_hex :: "string \<Rightarrow> nat \<Rightarrow> bool" where
  "is_valid_hex s n \<longleftrightarrow> length s = n \<and> list_all is_ascii_hexdigit s"

definition is_non_zero_hex :: "string \<Rightarrow> nat \<Rightarrow> bool" where
  "is_non_zero_hex s n \<longleftrightarrow> is_valid_hex s n \<and> \<not> list_all (\<lambda>c. c = CHR ''0'') s"

definition validate_traceparent_parts :: "string list \<Rightarrow> bool" where
  "validate_traceparent_parts parts =
     (case parts of
        version # trace_id # parent_id # flags # rest \<Rightarrow>
          if version = ''ff'' \<or> \<not> is_valid_hex version 2 then False
          else if version = ''00'' \<and> rest \<noteq> [] then False
          else if \<not> is_non_zero_hex trace_id 32 then False
          else if \<not> is_non_zero_hex parent_id 16 then False
          else is_valid_hex flags 2
      | _ \<Rightarrow> False)"

definition trace_parse :: "string \<Rightarrow> trace_parent option" where
  "trace_parse s =
     (let parts = split_on CHR ''-'' (trim s) in
      if \<not> validate_traceparent_parts parts then None
      else Some \<lparr>tp_version = to_ascii_lowercase (parts ! 0), tp_trace_id = to_ascii_lowercase (parts ! 1),
                 tp_parent_id = to_ascii_lowercase (parts ! 2), tp_flags = to_ascii_lowercase (parts ! 3)\<rparr>)"

definition hex_pad :: "nat \<Rightarrow> nat \<Rightarrow> string" where
  "hex_pad w n = (let s = to_radix 16 n in replicate (w - length s) CHR ''0'' @ s)"

definition child_traceparent :: "trace_parent \<Rightarrow> nat \<Rightarrow> string" where
  "child_traceparent tp sid =
     tp_version tp @ ''-'' @ tp_trace_id tp @ ''-'' @ hex_pad 16 sid @ ''-'' @ tp_flags tp"

definition new_root :: "string \<Rightarrow> nat \<Rightarrow> string" where
  "new_root trace_id sid = ''00-'' @ trace_id @ ''-'' @ hex_pad 16 sid @ ''-01''"

definition incoming_traceparent :: "http_env \<Rightarrow> headers \<Rightarrow> trace_parent option" where
  "incoming_traceparent h hs =
     (case get hs ''traceparent'' of
        None \<Rightarrow> None
      | Some v \<Rightarrow> (case to_str h v of None \<Rightarrow> None | Some s \<Rightarrow> trace_parse s))"

definition incoming_request_id :: "http_env \<Rightarrow> headers \<Rightarrow> string option" where
  "incoming_request_id h hs =
     (case get hs ''x-request-id'' of
        None \<Rightarrow> None
      | Some v \<Rightarrow> (case to_str h v of None \<Rightarrow> None | Some s \<Rightarrow> if trim s = [] then None else Some (trim s)))"

definition new_request_id :: "nat \<Rightarrow> string" where
  "new_request_id random = hex_pad 32 random"

definition resolve_request_id :: "http_env \<Rightarrow> headers \<Rightarrow> nat \<Rightarrow> string" where
  "resolve_request_id h hs random =
     (case incoming_request_id h hs of
        Some rid \<Rightarrow> rid
      | None \<Rightarrow> (case incoming_traceparent h hs of Some tp \<Rightarrow> tp_trace_id tp | None \<Rightarrow> new_request_id random))"

definition extract_and_propagate_trace_context :: "http_env \<Rightarrow> headers \<Rightarrow> nat \<Rightarrow> nat \<Rightarrow> string \<times> headers" where
  "extract_and_propagate_trace_context h hs random sid =
     (let (trace_id, outbound) = (case incoming_traceparent h hs of
            Some tp \<Rightarrow> (tp_trace_id tp, child_traceparent tp sid)
          | None \<Rightarrow> (let trace_id = new_request_id random in (trace_id, new_root trace_id sid)));
          hs1 = insert_str h hs ''traceparent'' outbound
      in case incoming_request_id h hs1 of
           Some rid \<Rightarrow> (rid, hs1)
         | None \<Rightarrow> (trace_id, insert_str h hs1 ''x-request-id'' trace_id))"

section \<open>Removing headers\<close>

lemma get_all_remove_headers [simp]:
  "get_all (remove_headers names hs) m = (if m \<in> set names then [] else get_all hs m)"
  unfolding remove_headers_def by (induction names arbitrary: hs) auto

lemma get_all_insert_str:
  "get_all (insert_str h hs name v) m =
     (if m = name \<and> header_from_str h v \<noteq> None then [v] else get_all hs m)"
  by (auto simp: insert_str_def header_from_str_def)

lemma get_all_sanitize_te: "m \<noteq> ''te'' \<Longrightarrow> get_all (sanitize_te_header h hs) m = get_all hs m"
  by (simp add: sanitize_te_header_def Let_def)

lemma sanitize_te_cases: "get_all (sanitize_te_header h hs) ''te'' = get_all hs ''te'' \<or> get_all (sanitize_te_header h hs) ''te'' = []"
  by (simp add: sanitize_te_header_def Let_def)

lemma get_all_remove_hop_by_hop:
  "get_all (remove_hop_by_hop_headers h hs method) m =
     (if is_websocket_upgrade h hs method \<and> m = ''connection'' then [''upgrade'']
      else if is_websocket_upgrade h hs method \<and> m = ''upgrade'' then [''websocket'']
      else if m \<in> set HOP_BY_HOP_HEADERS \<or> m \<in> set (connection_names h hs) then []
      else if m = ''te'' then
        (case get hs ''te'' of
           None \<Rightarrow> []
         | Some v \<Rightarrow>
             (case to_str h v of
                None \<Rightarrow> []
              | Some s \<Rightarrow> if eq_ignore_ascii_case (trim s) ''trailers'' then get_all hs ''te'' else []))
      else get_all hs m)"
proof -
  let ?named = "remove_connection_named_headers h hs"
  have named: "get_all ?named k = (if k \<in> set (connection_names h hs) then [] else get_all hs k)" for k
    by (simp add: remove_connection_named_headers_def)
  have te: "get_all (sanitize_te_header h ?named) ''te'' =
      (if ''te'' \<in> set (connection_names h hs) then []
       else case get hs ''te'' of
           None \<Rightarrow> []
         | Some v \<Rightarrow>
             (case to_str h v of
                None \<Rightarrow> []
              | Some s \<Rightarrow> if eq_ignore_ascii_case (trim s) ''trailers'' then get_all hs ''te'' else []))"
    by (auto simp: sanitize_te_header_def Let_def named get_def split: option.splits list.splits)
  have hop: "''te'' \<notin> set HOP_BY_HOP_HEADERS" by (simp add: HOP_BY_HOP_HEADERS_def)
  show ?thesis
  proof (cases "m = ''te''")
    case True
    then show ?thesis using te hop by (auto simp: remove_hop_by_hop_headers_def Let_def)
  next
    case False
    then show ?thesis
      by (auto simp: remove_hop_by_hop_headers_def Let_def get_all_sanitize_te named)
  qed
qed

text \<open>
  No hop-by-hop header reaches the upstream server.  After the removal there is no hop-by-hop header
  and no header that \<open>Connection\<close> names, in whatever letter case and in whichever of several \<open>Connection\<close>
  headers; a \<open>GET\<close> that upgrades to a websocket keeps exactly \<open>Connection: upgrade\<close> and
  \<open>Upgrade: websocket\<close>.  Every other header stays, except \<open>TE\<close>, which stays only to announce trailers.
\<close>

theorem hop_by_hop_headers_are_removed:
  "get_all (remove_hop_by_hop_headers h hs method) m =
     (if is_websocket_upgrade h hs method \<and> m = ''connection'' then [''upgrade'']
      else if is_websocket_upgrade h hs method \<and> m = ''upgrade'' then [''websocket'']
      else if m \<in> set HOP_BY_HOP_HEADERS \<or> m \<in> set (connection_names h hs) then []
      else if m = ''te'' then
        (case get hs ''te'' of
           None \<Rightarrow> []
         | Some v \<Rightarrow>
             (case to_str h v of
                None \<Rightarrow> []
              | Some s \<Rightarrow> if eq_ignore_ascii_case (trim s) ''trailers'' then get_all hs ''te'' else []))
      else get_all hs m)"
  by (rule get_all_remove_hop_by_hop)

section \<open>Two proxies in a row\<close>

definition addr_char :: "char \<Rightarrow> bool" where
  "addr_char c \<longleftrightarrow> c = CHR ''.'' \<or> char_digit 10 c \<noteq> None"

lemma addr_char_not: "\<not> addr_char CHR '',''" "\<not> addr_char CHR '';''" "\<not> addr_char CHR 0x22"
  by (simp_all add: addr_char_def char_digit_def)

lemma addr_char_not_space: "addr_char c \<Longrightarrow> \<not> is_ascii_space c"
  by (auto simp: addr_char_def char_digit_def is_ascii_space_def Let_def split: if_splits)

lemma set_join_with: "set (join_with sep ss) \<subseteq> set sep \<union> \<Union> (set ` set ss)"
  by (induction sep ss rule: join_with.induct) auto

lemma fmt_ipv4_chars: "c \<in> set (fmt_ipv4 a) \<Longrightarrow> addr_char c"
  using set_join_with [of "''.''" "map (to_radix 10) (ipv4_octets a)"] to_radix_digits [of 10 c]
  by (auto simp: fmt_ipv4_def addr_char_def)

lemma fmt_ipv4_not_Nil [simp]: "fmt_ipv4 a \<noteq> []"
  by (simp add: fmt_ipv4_def ipv4_octets_def upt_rec)

lemma trim_no_space: "(\<And>c. c \<in> set s \<Longrightarrow> \<not> is_ascii_space c) \<Longrightarrow> trim s = s"
  by (cases s) (auto simp: trim_def trim_end_matches_def trim_start_matches_def dropWhile_eq_self_iff hd_append hd_rev
      split: if_splits)

lemma parse_forwarded_fmt [simp]: "parse_forwarded_ip (fmt_ipv4 a) = Some (V4 a)"
proof -
  have "trim (fmt_ipv4 a) = fmt_ipv4 a"
    using fmt_ipv4_chars addr_char_not_space by (intro trim_no_space) blast
  then show ?thesis
    using parse_fmt_ipv4 [of a] by (simp add: parse_forwarded_ip_def Let_def fmt_ip_def to_canonical_def)
qed

text \<open>The first element of a \<open>Forwarded\<close> value that starts with an address is this address.\<close>

lemma forwarded_element_for:
  assumes "pre = [] \<or> pre = '' ''" and "s = [] \<or> hd s = CHR '';''"
  shows "forwarded_element_ip (pre @ ''for='' @ fmt_ipv4 a @ s) = Some (V4 a)"
proof -
  have no: "CHR '';'' \<notin> set (fmt_ipv4 a)" using fmt_ipv4_chars addr_char_not by blast
  have sp: "\<not> is_ascii_space c" if "c \<in> set (''for='' @ fmt_ipv4 a)" for c
    using that fmt_ipv4_chars addr_char_not_space by (auto simp: is_ascii_space_def)
  have t: "trim (pre @ ''for='' @ fmt_ipv4 a) = ''for='' @ fmt_ipv4 a"
  proof -
    have "trim (''for='' @ fmt_ipv4 a) = ''for='' @ fmt_ipv4 a" by (rule trim_no_space) (rule sp)
    moreover have "trim (CHR '' '' # u) = trim u" for u by (simp add: trim_def trim_start_matches_def is_ascii_space_def)
    ultimately show ?thesis using assms(1) by auto
  qed
  have "CHR '';'' \<notin> set (pre @ ''for='' @ fmt_ipv4 a)" using no assms(1) by auto
  then obtain rest where "split_on CHR '';'' (pre @ ''for='' @ fmt_ipv4 a @ s) = (pre @ ''for='' @ fmt_ipv4 a) # rest"
    using assms(2) split_on_append_delim [of "CHR '';''" "pre @ ''for='' @ fmt_ipv4 a"]
      split_on_no_delim [of "CHR '';''" "pre @ ''for='' @ fmt_ipv4 a"] by (cases s) auto
  moreover have "is_for_directive (pre @ ''for='' @ fmt_ipv4 a)" unfolding is_for_directive_def t by simp
  moreover have "strip_quotes (trim (drop 4 (trim (pre @ ''for='' @ fmt_ipv4 a)))) = fmt_ipv4 a"
  proof -
    have "trim (fmt_ipv4 a) = fmt_ipv4 a" using sp by (intro trim_no_space) auto
    moreover have "strip_prefix [CHR 0x22] (fmt_ipv4 a) = None"
      using fmt_ipv4_chars [of "hd (fmt_ipv4 a)" a] addr_char_not(3) by (cases "fmt_ipv4 a") auto
    ultimately show ?thesis unfolding t by (simp add: strip_quotes_def)
  qed
  ultimately show ?thesis by (simp add: forwarded_element_ip_def)
qed

text \<open>The headers that \<open>pre_process\<close> does not know stay as they are.\<close>

lemma pre_process_other:
  assumes "m \<notin> set CLIENT_IP_HEADERS" and "m \<noteq> ''x-forwarded-proto''"
  shows "get_all (pre_process h hs client host proto) m = get_all hs m"
  using assms
  by (auto simp: pre_process_def Let_def remove_untrusted_headers_def get_all_insert_str CLIENT_IP_HEADERS_def
      parse_x_forwarded_for_def parse_forwarded_def split: option.splits)

text \<open>The headers that a request of an untrusted client carries on.\<close>

lemma pre_process_untrusted:
  assumes "\<not> ca_trusted_peer client"
  shows "get_all (pre_process h hs client host proto) ''x-forwarded-for'' =
      (if header_from_str h (fmt_ip (ca_peer client)) \<noteq> None then [fmt_ip (ca_peer client)] else [])"
    and "get_all (pre_process h hs client host proto) ''forwarded'' =
      (if header_from_str h (current_hop (ca_peer client) host proto) \<noteq> None
       then [current_hop (ca_peer client) host proto] else [])"
    and "m \<in> set CLIENT_IP_HEADERS \<Longrightarrow> m \<notin> {''forwarded'', ''x-forwarded-for'', ''x-forwarded-host''} \<Longrightarrow>
      get_all (pre_process h hs client host proto) m = []"
  using assms
  by (auto simp: pre_process_def Let_def remove_untrusted_headers_def get_all_insert_str CLIENT_IP_HEADERS_def
      split: option.splits)

lemma current_hop_first: "\<exists>s. current_hop (V4 a) host proto = ''for='' @ fmt_ipv4 a @ CHR '';'' # s"
  by (auto simp: current_hop_def forwarded_for_directive_def fmt_ip_def split: option.splits)

lemma comma_free_hop:
  assumes "CHR '','' \<notin> set proto" and "\<And>ho. host = Some ho \<Longrightarrow> CHR '','' \<notin> set ho"
  shows "CHR '','' \<notin> set (current_hop (V4 a) host proto)"
proof -
  have "CHR '','' \<notin> set (escape_quoted_string ho)" if "host = Some ho" for ho
    using assms(2) [OF that] by (auto simp: escape_quoted_string_def)
  moreover have "CHR '','' \<notin> set (fmt_ipv4 a)" using fmt_ipv4_chars addr_char_not by blast
  ultimately show ?thesis using assms
    by (auto simp: current_hop_def forwarded_for_directive_def forwarded_host_directive_def
        forwarded_proto_directive_def fmt_ip_def split: option.splits)
qed

lemma list_elements_single:
  "get_all hs name = [v] \<Longrightarrow> CHR '','' \<notin> set v \<Longrightarrow>
   list_elements h hs name = (if list_all (hx_text_byte h) v then [v] else [])"
  by (simp add: list_elements_def to_str_def split_on_no_delim List.map_filter_def)

text \<open>The entries that the next proxy reads are the address of the client and nothing else.\<close>

lemma forwarded_entries_pre_process:
  assumes "\<forall>c. addr_char c \<longrightarrow> hx_text_byte h c \<and> hx_str_byte h c"
    and "CHR '','' \<notin> set proto" and "\<And>ho. host = Some ho \<Longrightarrow> CHR '','' \<notin> set ho"
  shows "\<exists>es. forwarded_entries h (pre_process h hs (client_direct (V4 a)) host proto) = V4 a # es \<and> set es \<subseteq> {V4 a}"
proof -
  let ?hs = "pre_process h hs (client_direct (V4 a)) host proto"
  let ?hop = "current_hop (V4 a) host proto"
  have c: "ca_peer (client_direct (V4 a)) = V4 a" "\<not> ca_trusted_peer (client_direct (V4 a))"
    by (simp_all add: client_direct_def to_canonical_def Let_def)
  have ok: "list_all (hx_text_byte h) (fmt_ipv4 a)" "list_all (hx_str_byte h) (fmt_ipv4 a)"
    using assms(1) fmt_ipv4_chars by (auto simp: list_all_iff)
  have no: "CHR '','' \<notin> set (fmt_ipv4 a)" using fmt_ipv4_chars addr_char_not by blast
  have "get_all ?hs ''x-forwarded-for'' = [fmt_ipv4 a]"
    using pre_process_untrusted(1) [OF c(2)] ok(2) c(1) by (simp add: fmt_ip_def header_from_str_def)
  then have xff: "list_elements h ?hs ''x-forwarded-for'' = [fmt_ipv4 a]"
    using no ok(1) by (simp add: list_elements_single)
  have "get_all ?hs ''forwarded'' = [] \<or> get_all ?hs ''forwarded'' = [?hop]"
    using pre_process_untrusted(2) [OF c(2)] c(1) by simp
  moreover have "CHR '','' \<notin> set ?hop" using assms(2,3) by (rule comma_free_hop)
  ultimately have "set (list_elements h ?hs ''forwarded'') \<subseteq> {?hop}"
    by (auto simp: list_elements_single) (simp add: list_elements_def List.map_filter_def)
  moreover have "forwarded_element_ip ?hop = Some (V4 a)"
  proof -
    obtain s where "?hop = ''for='' @ fmt_ipv4 a @ CHR '';'' # s" using current_hop_first by blast
    then show ?thesis using forwarded_element_for [of "[]" "CHR '';'' # s" a] by simp
  qed
  ultimately have "set (rfc7239_forwarded_ips h ?hs) \<subseteq> {V4 a}"
    by (auto simp: rfc7239_forwarded_ips_def List.map_filter_def)
  then show ?thesis by (simp add: forwarded_entries_def xff List.map_filter_def)
qed


definition sample_resolver :: "32 word client_ip_resolver" where
  "sample_resolver = \<lparr>cr_trust_cdn = False, cr_trusted_proxies = [10]\<rparr>"

definition sample_cdn_table :: "32 word cdn_table" where
  "sample_cdn_table = \<lparr>ct_exact = (\<lambda>_. None), ct_prefixes = []\<rparr>"



end
