(* ===== verification/Early_Data.thy ===== *)
theory Early_Data
  imports Http_Headers "HOL-Library.AList"
begin

text \<open>
  Requests in TLS early data: \<open>early_data.rs\<close> of the API crate.  The anti-replay buffer remembers the
  requests of the last window and refuses one that it has seen.

  The \<open>HashMap\<close> of the buffer is an association list with distinct keys.  The time of a call is an
  argument.
\<close>

definition EARLY_DATA_HEADER :: string where "EARLY_DATA_HEADER = ''early-data''"
definition EARLY_DATA_VALUE :: string where "EARLY_DATA_VALUE = ''1''"
definition DEFAULT_ANTI_REPLAY_WINDOW :: duration where "DEFAULT_ANTI_REPLAY_WINDOW = from_secs 60"
definition MAX_ANTI_REPLAY_ENTRIES :: nat where "MAX_ANTI_REPLAY_ENTRIES = 10000"

definition to_ascii_uppercase :: "string \<Rightarrow> string" where
  "to_ascii_uppercase s =
     map (\<lambda>c. let n = of_char c :: nat in if 97 \<le> n \<and> n \<le> 122 then char_of (n - 32) else c) s"

definition is_safe_http_method :: "string \<Rightarrow> bool" where
  "is_safe_http_method method \<longleftrightarrow>
     to_ascii_uppercase method \<in> {''GET'', ''HEAD'', ''OPTIONS'', ''TRACE''}"

record replay_key =
  rk_client_ip :: ip_addr
  rk_method :: string
  rk_path_and_query :: string

record anti_replay =
  ar_window :: duration
  ar_max_entries :: nat
  ar_entries :: "(replay_key \<times> instant) list"

definition anti_replay_new :: "duration \<Rightarrow> nat \<Rightarrow> anti_replay" where
  "anti_replay_new window max_entries = \<lparr>ar_window = window, ar_max_entries = max_entries, ar_entries = []\<rparr>"

definition GLOBAL_ANTI_REPLAY :: anti_replay where
  "GLOBAL_ANTI_REPLAY = anti_replay_new DEFAULT_ANTI_REPLAY_WINDOW MAX_ANTI_REPLAY_ENTRIES"

definition evict_expired_or_overflow :: "anti_replay \<Rightarrow> instant \<Rightarrow> anti_replay" where
  "evict_expired_or_overflow b now =
     (let kept = (if length (ar_entries b) > ar_max_entries b div 2
            then filter (\<lambda>(_, seen_at). now - seen_at < ar_window b) (ar_entries b) else ar_entries b)
      in b\<lparr>ar_entries := (if length kept \<ge> ar_max_entries b then [] else kept)\<rparr>)"

definition replay_key_of :: "ip_addr \<Rightarrow> string \<Rightarrow> string \<Rightarrow> replay_key" where
  "replay_key_of client method path_and_query =
     \<lparr>rk_client_ip = client, rk_method = to_ascii_uppercase method, rk_path_and_query = path_and_query\<rparr>"

definition check_key :: "anti_replay \<Rightarrow> replay_key \<Rightarrow> instant \<Rightarrow> bool \<times> anti_replay" where
  "check_key b key now =
     (let b1 = evict_expired_or_overflow b now in
      if (case map_of (ar_entries b1) key of None \<Rightarrow> False | Some seen_at \<Rightarrow> now - seen_at < ar_window b1)
      then (False, b1)
      else (True, b1\<lparr>ar_entries := AList.update key now (ar_entries b1)\<rparr>))"

definition check_and_record ::
    "anti_replay \<Rightarrow> ip_addr \<Rightarrow> string \<Rightarrow> string \<Rightarrow> instant \<Rightarrow> bool \<times> anti_replay" where
  "check_and_record b client method path_and_query now = check_key b (replay_key_of client method path_and_query) now"

definition anti_replay_clear :: "anti_replay \<Rightarrow> anti_replay" where
  "anti_replay_clear b = b\<lparr>ar_entries := []\<rparr>"

section \<open>Sequences of requests\<close>

text \<open>The requests of a run with their times, in order, and the answers of the buffer to them.\<close>

type_synonym replay_log = "(replay_key \<times> instant) list"

fun check_all :: "anti_replay \<Rightarrow> replay_log \<Rightarrow> bool list \<times> anti_replay" where
  "check_all b [] = ([], b)"
| "check_all b ((key, now) # es) =
     (let (ok, b1) = check_key b key now; (oks, b2) = check_all b1 es in (ok # oks, b2))"

text \<open>The keys whose requests are at most one window old.\<close>

definition live_keys :: "duration \<Rightarrow> replay_log \<Rightarrow> instant \<Rightarrow> replay_key set" where
  "live_keys w es now = {k. \<exists>t. (k, t) \<in> set es \<and> now - t < w}"

lemma anti_replay_new_sel [simp]:
  "ar_window (anti_replay_new w m) = w" "ar_max_entries (anti_replay_new w m) = m" "ar_entries (anti_replay_new w m) = []"
  by (simp_all add: anti_replay_new_def)

lemma check_all_snoc:
  "check_all b (es @ [(key, now)]) =
     (let (oks, b1) = check_all b es; (ok, b2) = check_key b1 key now in (oks @ [ok], b2))"
  by (induction es arbitrary: b) (auto simp: Let_def split: prod.splits)

lemma length_check_all [simp]: "length (fst (check_all b es)) = length es"
  by (induction es arbitrary: b) (auto simp: Let_def case_prod_beta)

lemma check_key_config [simp]:
  "ar_window (snd (check_key b key now)) = ar_window b" "ar_max_entries (snd (check_key b key now)) = ar_max_entries b"
  by (simp_all add: check_key_def evict_expired_or_overflow_def Let_def)

lemma check_all_config [simp]:
  "ar_window (snd (check_all b es)) = ar_window b" "ar_max_entries (snd (check_all b es)) = ar_max_entries b"
  by (induction es arbitrary: b) (auto simp: Let_def case_prod_beta)

text \<open>The buffer after a log: every entry is the time of an admitted request, and the last admitted request of
  a key is there unless it is older than the window.\<close>

definition buffer_inv :: "anti_replay \<Rightarrow> replay_log \<Rightarrow> bool list \<Rightarrow> instant \<Rightarrow> bool" where
  "buffer_inv b es oks now \<longleftrightarrow>
     distinct (map fst (ar_entries b)) \<and>
     (\<forall>k t. map_of (ar_entries b) k = Some t \<longrightarrow>
        (\<exists>i < length es. es ! i = (k, t) \<and> oks ! i)) \<and>
     (\<forall>i < length es. oks ! i \<and> now - snd (es ! i) < ar_window b \<longrightarrow>
        map_of (ar_entries b) (fst (es ! i)) = Some (snd (es ! i)))"

lemma map_of_filter_value:
  "distinct (map fst xs) \<Longrightarrow>
   map_of (filter (\<lambda>(_, t). P t) xs) k = (case map_of xs k of None \<Rightarrow> None | Some t \<Rightarrow> if P t then Some t else None)"
  by (induction xs) (auto split: option.splits dest: weak_map_of_SomeI simp: map_of_eq_None_iff image_iff)

lemma evict_keeps_live:
  assumes inv: "buffer_inv b es oks now" and few: "card (live_keys (ar_window b) es now) < ar_max_entries b"
  shows "buffer_inv (evict_expired_or_overflow b now) es oks now"
proof -
  let ?live = "filter (\<lambda>(_, seen_at). now - seen_at < ar_window b) (ar_entries b)"
  let ?kept = "if length (ar_entries b) > ar_max_entries b div 2 then ?live else ar_entries b"
  have d: "distinct (map fst (ar_entries b))" using inv by (simp add: buffer_inv_def)
  have "distinct (map fst ?live)" using d by (simp add: distinct_map_filter)
  then have "length ?live = card (fst ` set ?live)" using distinct_card [of "map fst ?live"] by simp
  moreover have "fst ` set ?live \<subseteq> live_keys (ar_window b) es now"
  proof
    fix k assume "k \<in> fst ` set ?live"
    then obtain t where t: "(k, t) \<in> set (ar_entries b)" "now - t < ar_window b" by auto
    then have "map_of (ar_entries b) k = Some t" using d by simp
    then have "(k, t) \<in> set es" using inv by (metis buffer_inv_def nth_mem)
    then show "k \<in> live_keys (ar_window b) es now" using t(2) by (auto simp: live_keys_def)
  qed
  moreover have "finite (live_keys (ar_window b) es now)"
    by (rule finite_subset [of _ "fst ` set es"]) (force simp: live_keys_def)+
  ultimately have "length ?live < ar_max_entries b" using few by (metis card_mono le_less_trans)
  then have "length ?kept < ar_max_entries b" using few by auto
  then have "evict_expired_or_overflow b now = b\<lparr>ar_entries := ?kept\<rparr>"
    by (auto simp: evict_expired_or_overflow_def Let_def)
  then show ?thesis
    using inv map_of_filter_value [OF d, of "\<lambda>t. now - t < ar_window b"]
    by (auto simp: buffer_inv_def distinct_map_filter split: option.splits if_splits)
qed

lemma check_key_step:
  assumes inv: "buffer_inv b es oks now" and few: "card (live_keys (ar_window b) es now) < ar_max_entries b"
    and len: "length oks = length es" and c: "check_key b key now = (ok, b')"
  shows "ok = (\<forall>i < length es. fst (es ! i) = key \<and> oks ! i \<longrightarrow> ar_window b \<le> now - snd (es ! i))"
    and "buffer_inv b' (es @ [(key, now)]) (oks @ [ok]) now"
proof -
  let ?b = "evict_expired_or_overflow b now"
  have w: "ar_window ?b = ar_window b" by (simp add: evict_expired_or_overflow_def Let_def)
  have inv': "buffer_inv ?b es oks now" using evict_keeps_live [OF inv few] .
  have seen: "(\<exists>t. map_of (ar_entries ?b) key = Some t \<and> now - t < ar_window b) \<longleftrightarrow>
      (\<exists>i < length es. fst (es ! i) = key \<and> oks ! i \<and> now - snd (es ! i) < ar_window b)"
    using inv' w unfolding buffer_inv_def by (metis fst_conv snd_conv)
  have ok: "ok = (\<not> (\<exists>t. map_of (ar_entries ?b) key = Some t \<and> now - t < ar_window b))"
    using c w by (auto simp: check_key_def Let_def split: option.splits if_splits)
  then show exact: "ok = (\<forall>i < length es. fst (es ! i) = key \<and> oks ! i \<longrightarrow> ar_window b \<le> now - snd (es ! i))"
    using seen by (auto simp: not_less)
  show "buffer_inv b' (es @ [(key, now)]) (oks @ [ok]) now"
  proof (cases ok)
    case False
    then have b': "b' = ?b" using c by (auto simp: check_key_def Let_def split: if_splits)
    have "(\<exists>i < length es. es ! i = (k, t) \<and> oks ! i)" if "map_of (ar_entries ?b) k = Some t" for k t
      using inv' that by (simp add: buffer_inv_def)
    then show ?thesis using inv' len False unfolding b' buffer_inv_def
      by (auto simp: nth_append less_Suc_eq) (metis less_SucI)+
  next
    case True
    then have b': "b' = ?b\<lparr>ar_entries := AList.update key now (ar_entries ?b)\<rparr>"
      using c by (auto simp: check_key_def Let_def split: if_splits)
    have old: "(\<exists>i < length es. es ! i = (k, t) \<and> oks ! i)" if "map_of (ar_entries ?b) k = Some t" for k t
      using inv' that by (simp add: buffer_inv_def)
    have new: "fst (es ! i) \<noteq> key" if "i < length es" "oks ! i" "now - snd (es ! i) < ar_window b" for i
      using exact True that by (auto simp: not_less [symmetric])
    show ?thesis using inv' len True old new w unfolding b' buffer_inv_def
      by (auto simp: nth_append less_Suc_eq update_conv distinct_update split: if_splits) (metis less_SucI)+
  qed
qed

lemma buffer_inv_later:
  assumes inv: "buffer_inv b es oks t" and "t \<le> now"
  shows "buffer_inv b es oks now"
proof -
  have "t - x < ar_window b" if "now - x < ar_window b" for x using that assms(2) by linarith
  then show ?thesis using inv by (simp add: buffer_inv_def)
qed

lemma check_key_size: "length (ar_entries (snd (check_key b key now))) \<le> max 1 (ar_max_entries b)"
proof -
  let ?b = "evict_expired_or_overflow b now"
  have small: "length (ar_entries ?b) < max 1 (ar_max_entries b)"
    by (auto simp: evict_expired_or_overflow_def Let_def)
  have "length (AList.update key now xs) \<le> Suc (length xs)" for xs :: replay_log
    by (induction xs) auto
  then have "length (AList.update key now (ar_entries ?b)) \<le> max 1 (ar_max_entries b)"
    using small by (metis Suc_leI order_trans)
  then show ?thesis using small by (auto simp: check_key_def Let_def)
qed

lemma check_all_inv:
  assumes "sorted (map snd es)"
    and "\<forall>j < length es. card (live_keys w (take j es) (snd (es ! j))) < m"
  shows "(\<forall>now. (\<forall>t \<in> snd ` set es. t \<le> now) \<longrightarrow>
        buffer_inv (snd (check_all (anti_replay_new w m) es)) es (fst (check_all (anti_replay_new w m) es)) now) \<and>
     (\<forall>j < length es. fst (check_all (anti_replay_new w m) es) ! j =
        (\<forall>i < j. fst (es ! i) = fst (es ! j) \<and> fst (check_all (anti_replay_new w m) es) ! i \<longrightarrow>
           w \<le> snd (es ! j) - snd (es ! i)))"
  using assms
proof (induction es rule: rev_induct)
  case Nil
  then show ?case by (simp add: buffer_inv_def anti_replay_new_def)
next
  case (snoc e es)
  obtain key now where e: "e = (key, now)" by (cases e)
  let ?r = "check_all (anti_replay_new w m) es"
  obtain ok b' where c: "check_key (snd ?r) key now = (ok, b')" by (cases "check_key (snd ?r) key now")
  have r: "check_all (anti_replay_new w m) (es @ [e]) = (fst ?r @ [ok], b')"
    using c by (simp add: e check_all_snoc case_prod_beta Let_def)
  have cfg: "ar_window (snd ?r) = w" "ar_max_entries (snd ?r) = m" by simp_all
  have "card (live_keys w (take j es) (snd (es ! j))) < m" if "j < length es" for j
    using snoc.prems(2) [rule_format, of j] that by (simp add: nth_append)
  then have IH: "\<forall>now. (\<forall>t \<in> snd ` set es. t \<le> now) \<longrightarrow> buffer_inv (snd ?r) es (fst ?r) now"
     "\<forall>j < length es. fst ?r ! j = (\<forall>i < j. fst (es ! i) = fst (es ! j) \<and> fst ?r ! i \<longrightarrow> w \<le> snd (es ! j) - snd (es ! i))"
    using snoc.IH snoc.prems(1) by (simp_all add: sorted_append)
  have le: "\<forall>t \<in> snd ` set es. t \<le> now" using snoc.prems(1) by (auto simp: e sorted_append)
  have few: "card (live_keys (ar_window (snd ?r)) es now) < ar_max_entries (snd ?r)"
    using snoc.prems(2) [rule_format, of "length es"] by (simp add: e)
  note step = check_key_step [OF IH(1) [rule_format, OF le [rule_format]] few _ c, unfolded cfg, simplified]
  have "fst (check_all (anti_replay_new w m) (es @ [e])) ! j =
      (\<forall>i < j. fst ((es @ [e]) ! i) = fst ((es @ [e]) ! j) \<and> fst (check_all (anti_replay_new w m) (es @ [e])) ! i \<longrightarrow>
         w \<le> snd ((es @ [e]) ! j) - snd ((es @ [e]) ! i))" if "j < length (es @ [e])" for j
  proof (cases "j = length es")
    case True
    then show ?thesis unfolding r using True step(1) by (auto simp: e nth_append)
  next
    case False
    then show ?thesis unfolding r using IH(2) that by (auto simp: nth_append)
  qed
  moreover have "buffer_inv b' (es @ [e]) (fst ?r @ [ok]) t" if "\<forall>u \<in> snd ` set (es @ [e]). u \<le> t" for t
    using buffer_inv_later [OF step(2), of t] that by (simp add: e)
  ultimately show ?case by (simp add: r)
qed

text \<open>
  C24: The anti-replay buffer is exact.  As long as fewer different requests than its capacity arrive within one
  window, a request in early data is admitted exactly when no equal request was admitted within the window
  before it; and whatever arrives, the buffer never holds more entries than its capacity.
\<close>

theorem replays_within_window_are_rejected:
  assumes "sorted (map snd es)"
    and "\<forall>j < length es. card (live_keys w (take j es) (snd (es ! j))) < m"
    and "j < length es" and "fst (check_all (anti_replay_new w m) es) = oks"
  shows "oks ! j = (\<forall>i < j. fst (es ! i) = fst (es ! j) \<and> oks ! i \<longrightarrow> w \<le> snd (es ! j) - snd (es ! i)) \<and>
    length (ar_entries (snd (check_key (snd (check_all (anti_replay_new w m) es')) key now))) \<le> max 1 m"
  using check_all_inv [OF assms(1,2)] assms(3,4) check_key_size [of "snd (check_all (anti_replay_new w m) es')" key now]
  by auto

lemma card_live_keys_le: "card (live_keys w es now) \<le> length es"
proof -
  have "live_keys w es now \<subseteq> fst ` set es" by (force simp: live_keys_def)
  then have "card (live_keys w es now) \<le> card (fst ` set es)" by (rule card_mono [rotated]) simp
  also have "\<dots> \<le> length es" using card_image_le [of "set es" fst] card_length [of es] by simp
  finally show ?thesis .
qed

theorem replays_within_window_are_rejected_witness:
  "fst (check_all GLOBAL_ANTI_REPLAY
     [(replay_key_of (V4 1) ''GET'' ''/a'', 0), (replay_key_of (V4 1) ''get'' ''/a'', 5), (replay_key_of (V4 1) ''get'' ''/a'', 60 * 10 ^ 9)]) =
     [True, False, True]"
proof -
  let ?es = "[(replay_key_of (V4 1) ''GET'' ''/a'', 0), (replay_key_of (V4 1) ''get'' ''/a'', 5), (replay_key_of (V4 1) ''get'' ''/a'', 60 * 10 ^ 9)] :: replay_log"
  have "card (live_keys w (take j ?es) t) < MAX_ANTI_REPLAY_ENTRIES" for w j t
    using card_live_keys_le [of w "take j ?es" t] by (simp add: MAX_ANTI_REPLAY_ENTRIES_def)
  moreover have "sorted (map snd ?es)" by simp
  ultimately have r: "fst (check_all GLOBAL_ANTI_REPLAY ?es) ! j = (\<forall>i < j. fst (?es ! i) = fst (?es ! j) \<and>
      fst (check_all GLOBAL_ANTI_REPLAY ?es) ! i \<longrightarrow> DEFAULT_ANTI_REPLAY_WINDOW \<le> snd (?es ! j) - snd (?es ! i))"
    if "j < length ?es" for j
    using replays_within_window_are_rejected [of ?es DEFAULT_ANTI_REPLAY_WINDOW MAX_ANTI_REPLAY_ENTRIES j _ "[]" undefined 0] that
    unfolding GLOBAL_ANTI_REPLAY_def by blast
  have key: "replay_key_of (V4 1) ''GET'' ''/a'' = replay_key_of (V4 1) ''get'' ''/a''" by code_simp
  have l: "length (fst (check_all GLOBAL_ANTI_REPLAY ?es)) = 3" by (subst length_check_all) simp
  then obtain x y z where "fst (check_all GLOBAL_ANTI_REPLAY ?es) = [x, y, z]"
    by (auto simp: length_Suc_conv numeral_3_eq_3)
  then show ?thesis using r [of 0] r [of 1] r [of 2]
    by (simp add: key DEFAULT_ANTI_REPLAY_WINDOW_def from_secs_def less_Suc_eq numeral_2_eq_2 all_conj_distrib)
qed

text \<open>A buffer that is full of live requests forgets all of them: the next request is admitted, whatever it is.\<close>

lemma full_buffer_forgets:
  assumes "ar_max_entries b \<le> length (filter (\<lambda>(_, seen_at). now - seen_at < ar_window b) (ar_entries b))"
  shows "check_key b key now = (True, b\<lparr>ar_entries := [(key, now)]\<rparr>)"
proof -
  have "ar_max_entries b \<le> length (ar_entries b)" using assms length_filter_le order_trans by blast
  then have "evict_expired_or_overflow b now = b\<lparr>ar_entries := []\<rparr>"
    using assms by (auto simp: evict_expired_or_overflow_def Let_def)
  then show ?thesis by (simp add: check_key_def Let_def)
qed

end
