(* ===== verification/Stream_Priority.thy ===== *)
theory Stream_Priority
  imports Header_Rules "HOL-Library.Code_Target_Nat"
begin

text \<open>
  Stream priorities (RFC 9218): \<open>priority.rs\<close> of the API crate.  The priority of a request comes from its
  header, from the rules of the route or from heuristics; the controller counts the streams in flight and
  pushes back background streams.

  The atomic counters of the controller are words of 64 bits.  A \<open>StreamPermit\<close> is the flag that it carries.
\<close>

definition DEFAULT_MAX_BACKGROUND_CONCURRENCY :: usize where "DEFAULT_MAX_BACKGROUND_CONCURRENCY = 32"

record stream_priority =
  sp_urgency :: nat
  sp_incremental :: bool

definition stream_priority_default :: stream_priority where
  "stream_priority_default = \<lparr>sp_urgency = 3, sp_incremental = False\<rparr>"

definition stream_priority_new :: "nat \<Rightarrow> bool \<Rightarrow> stream_priority" where
  "stream_priority_new urgency incremental = \<lparr>sp_urgency = min urgency 7, sp_incremental = incremental\<rparr>"

definition to_header_value :: "stream_priority \<Rightarrow> string" where
  "to_header_value p =
     (if sp_incremental p then ''u='' @ to_radix 10 (sp_urgency p) @ '', i'' else ''u='' @ to_radix 10 (sp_urgency p))"

definition stream_weight :: "stream_priority \<Rightarrow> nat" where
  "stream_weight p =
     (let u = sp_urgency p in
      if u = 0 then 256 else if u = 1 then 128 else if u = 2 then 64 else if u = 3 then 32
      else if u = 4 then 16 else if u = 5 then 8 else if u = 6 then 4 else if u = 7 then 2 else 32)"

definition is_critical :: "stream_priority \<Rightarrow> bool" where
  "is_critical p \<longleftrightarrow> sp_urgency p \<le> 2"

definition is_background :: "stream_priority \<Rightarrow> bool" where
  "is_background p \<longleftrightarrow> sp_urgency p \<ge> 5"

section \<open>Rules of a route\<close>

record mime_priority_rule =
  mp_pattern :: string
  mp_urgency :: nat
  mp_incremental :: bool

definition strip_suffix :: "string \<Rightarrow> string \<Rightarrow> string option" where
  "strip_suffix suf s = map_option rev (strip_prefix (rev suf) (rev s))"

definition matches_content_type :: "string \<Rightarrow> string \<Rightarrow> bool" where
  "matches_content_type pattern ct =
     (case strip_suffix ''/*'' pattern of
        Some pre \<Rightarrow> starts_with pre ct
      | None \<Rightarrow> eq_ignore_ascii_case ct pattern)"

definition matches_path :: "string \<Rightarrow> string \<Rightarrow> bool" where
  "matches_path pattern path =
     (case strip_prefix ''*.'' pattern of
        Some ext \<Rightarrow> ends_with ext path
      | None \<Rightarrow>
          (case strip_suffix ''*'' pattern of
             Some pre \<Rightarrow> starts_with pre path
           | None \<Rightarrow> path = pattern))"

definition rule_matches :: "mime_priority_rule \<Rightarrow> string \<Rightarrow> string option \<Rightarrow> bool" where
  "rule_matches rule path content_type =
     (let pattern = str_trim (mp_pattern rule) in
      if pattern = [] then False
      else if (case content_type of None \<Rightarrow> False | Some ct \<Rightarrow> matches_content_type pattern ct) then True
      else matches_path pattern path)"

record stream_priority_config =
  sq_enabled :: bool
  sq_inject_header :: bool
  sq_adaptive_concurrency :: bool
  sq_custom_rules :: "mime_priority_rule list"

definition stream_priority_config_default :: stream_priority_config where
  "stream_priority_config_default =
     \<lparr>sq_enabled = False, sq_inject_header = True, sq_adaptive_concurrency = True, sq_custom_rules = []\<rparr>"

definition stream_priority_is_disabled :: "stream_priority_config \<Rightarrow> bool" where
  "stream_priority_is_disabled c \<longleftrightarrow> \<not> sq_enabled c"

section \<open>The \<open>Priority\<close> header\<close>

datatype member_parsed = MemberUrgency nat | MemberIncremental bool

definition parse_u8 :: "string \<Rightarrow> nat option" where
  "parse_u8 s = (case parse_u64 s of None \<Rightarrow> None | Some n \<Rightarrow> if n \<le> u8_max then Some n else None)"

definition parse_rfc9218_member :: "string \<Rightarrow> member_parsed option" where
  "parse_rfc9218_member member =
     (case (case strip_prefix ''u='' member of Some u \<Rightarrow> Some u | None \<Rightarrow> strip_prefix ''u ='' member) of
        Some u_str \<Rightarrow> map_option (\<lambda>u. MemberUrgency (min u 7)) (parse_u8 (trim u_str))
      | None \<Rightarrow>
          if member = ''i'' \<or> member = ''i=?1'' \<or> member = ''i=1'' then Some (MemberIncremental True)
          else if member = ''i=?0'' \<or> member = ''i=0'' then Some (MemberIncremental False)
          else None)"

text \<open>The loop over the members: the urgency, the incremental flag, and whether any member was understood.\<close>

fun parse_members :: "string list \<Rightarrow> nat option \<times> bool \<times> bool \<Rightarrow> nat option \<times> bool \<times> bool" where
  "parse_members [] acc = acc"
| "parse_members (part # parts) (urgency, incremental, parsed_any) =
     parse_members parts
       (case parse_rfc9218_member (trim part) of
          None \<Rightarrow> (urgency, incremental, parsed_any)
        | Some (MemberUrgency u) \<Rightarrow> (Some u, incremental, True)
        | Some (MemberIncremental inc) \<Rightarrow> (urgency, inc, True))"

definition parse_rfc9218_priority :: "string \<Rightarrow> stream_priority option" where
  "parse_rfc9218_priority header_val =
     (let s = trim header_val in
      if s = [] then None
      else let (urgency, incremental, parsed_any) = parse_members (split_on CHR '','' s) (None, False, False) in
        if parsed_any
        then Some \<lparr>sp_urgency = (case urgency of None \<Rightarrow> 3 | Some u \<Rightarrow> u), sp_incremental = incremental\<rparr>
        else None)"

section \<open>Heuristics\<close>

definition is_script_or_api_ct :: "string \<Rightarrow> bool" where
  "is_script_or_api_ct ct \<longleftrightarrow>
     starts_with ''text/css'' ct \<or> sublist ''javascript'' ct \<or> starts_with ''application/json'' ct \<or>
     starts_with ''application/grpc'' ct"

definition heuristic_by_content_type :: "string \<Rightarrow> stream_priority option" where
  "heuristic_by_content_type ct =
     (if starts_with ''text/html'' ct then Some (stream_priority_new 0 False)
      else if is_script_or_api_ct ct then Some (stream_priority_new 1 False)
      else if starts_with ''font/'' ct then Some (stream_priority_new 2 False)
      else if starts_with ''image/'' ct then Some (stream_priority_new 5 True)
      else if starts_with ''video/'' ct \<or> starts_with ''audio/'' ct then Some (stream_priority_new 6 True)
      else None)"

definition is_html_path :: "string \<Rightarrow> bool" where
  "is_html_path p \<longleftrightarrow> ends_with ''.html'' p \<or> ends_with ''.htm'' p \<or> p = ''/''"

definition is_critical_script_or_api :: "string \<Rightarrow> bool" where
  "is_critical_script_or_api p \<longleftrightarrow>
     ends_with ''.css'' p \<or> ends_with ''.js'' p \<or> ends_with ''.mjs'' p \<or> starts_with ''/api/'' p"

definition is_font_path :: "string \<Rightarrow> bool" where
  "is_font_path p \<longleftrightarrow> ends_with ''.woff2'' p \<or> ends_with ''.woff'' p \<or> ends_with ''.ttf'' p"

definition is_icon_path :: "string \<Rightarrow> bool" where
  "is_icon_path p \<longleftrightarrow> ends_with ''.svg'' p \<or> ends_with ''.ico'' p"

definition is_image_ext :: "string \<Rightarrow> bool" where
  "is_image_ext p \<longleftrightarrow> list_ex (\<lambda>ext. ends_with ext p) [''.png'', ''.jpg'', ''.jpeg'', ''.webp'', ''.avif'', ''.gif'']"

definition is_video_ext :: "string \<Rightarrow> bool" where
  "is_video_ext p \<longleftrightarrow> list_ex (\<lambda>ext. ends_with ext p) [''.mp4'', ''.webm'', ''.mp3'']"

definition is_archive_ext :: "string \<Rightarrow> bool" where
  "is_archive_ext p \<longleftrightarrow> list_ex (\<lambda>ext. ends_with ext p) [''.zip'', ''.tar.gz'', ''.iso'']"

definition is_media_path :: "string \<Rightarrow> bool" where
  "is_media_path p \<longleftrightarrow> is_image_ext p \<or> is_video_ext p \<or> is_archive_ext p"

definition heuristic_media_path :: "string \<Rightarrow> stream_priority" where
  "heuristic_media_path p =
     (if is_image_ext p then stream_priority_new 5 True
      else if is_video_ext p then stream_priority_new 6 True
      else if is_archive_ext p then stream_priority_new 7 True
      else stream_priority_default)"

definition heuristic_by_path :: "string \<Rightarrow> stream_priority" where
  "heuristic_by_path path =
     (let lower = to_ascii_lowercase path in
      if is_html_path lower then stream_priority_new 0 False
      else if is_critical_script_or_api lower then stream_priority_new 1 False
      else if is_font_path lower then stream_priority_new 2 False
      else if is_icon_path lower then stream_priority_new 4 False
      else if is_media_path lower then heuristic_media_path lower
      else stream_priority_default)"

definition heuristic_stream_priority :: "string \<Rightarrow> string option \<Rightarrow> stream_priority" where
  "heuristic_stream_priority path content_type =
     (case (case content_type of None \<Rightarrow> None | Some ct \<Rightarrow> heuristic_by_content_type ct) of
        Some prio \<Rightarrow> prio
      | None \<Rightarrow> heuristic_by_path path)"

definition resolve_stream_priority ::
    "string option \<Rightarrow> string \<Rightarrow> string option \<Rightarrow> stream_priority_config \<Rightarrow> stream_priority" where
  "resolve_stream_priority client_header path_and_query content_type config =
     (case (case client_header of None \<Rightarrow> None | Some hdr \<Rightarrow> parse_rfc9218_priority hdr) of
        Some parsed \<Rightarrow> parsed
      | None \<Rightarrow>
          let path = hd (split_on CHR ''?'' path_and_query) in
          (case List.find (\<lambda>rule. rule_matches rule path content_type) (sq_custom_rules config) of
             Some rule \<Rightarrow> stream_priority_new (mp_urgency rule) (mp_incremental rule)
           | None \<Rightarrow> heuristic_stream_priority path content_type))"

section \<open>The controller\<close>

record stream_controller =
  sc_total :: u64
  sc_critical :: u64
  sc_normal :: u64
  sc_background :: u64
  sc_throttled :: u64
  sc_active :: usize
  sc_active_background :: usize

definition stream_controller_new :: stream_controller where
  "stream_controller_new = \<lparr>sc_total = 0, sc_critical = 0, sc_normal = 0, sc_background = 0, sc_throttled = 0,
     sc_active = 0, sc_active_background = 0\<rparr>"

definition record_stream_request :: "stream_controller \<Rightarrow> stream_priority \<Rightarrow> stream_controller" where
  "record_stream_request c p =
     (let c = c\<lparr>sc_total := sc_total c + 1\<rparr> in
      if is_critical p then c\<lparr>sc_critical := sc_critical c + 1\<rparr>
      else if is_background p then c\<lparr>sc_background := sc_background c + 1\<rparr>
      else c\<lparr>sc_normal := sc_normal c + 1\<rparr>)"

definition should_throttle_background :: "stream_controller \<Rightarrow> usize \<Rightarrow> bool \<times> stream_controller" where
  "should_throttle_background c max_background =
     (if sc_active_background c \<ge> max_background then (True, c\<lparr>sc_throttled := sc_throttled c + 1\<rparr>) else (False, c))"

definition acquire_permit :: "stream_controller \<Rightarrow> stream_priority \<Rightarrow> bool \<times> stream_controller" where
  "acquire_permit c p =
     (let c1 = c\<lparr>sc_active := sc_active c + 1\<rparr>;
          c2 = (if is_background p then c1\<lparr>sc_active_background := sc_active_background c1 + 1\<rparr> else c1)
      in (is_background p, c2))"

definition stream_permit_drop :: "bool \<Rightarrow> stream_controller \<Rightarrow> stream_controller" where
  "stream_permit_drop background c =
     (let c1 = c\<lparr>sc_active := sc_active c - 1\<rparr>
      in if background then c1\<lparr>sc_active_background := sc_active_background c1 - 1\<rparr> else c1)"

record stream_priority_stats =
  ss_total :: u64
  ss_critical :: u64
  ss_normal :: u64
  ss_background :: u64
  ss_throttled :: u64
  ss_active :: usize

definition stream_stats :: "stream_controller \<Rightarrow> stream_priority_stats" where
  "stream_stats c = \<lparr>ss_total = sc_total c, ss_critical = sc_critical c, ss_normal = sc_normal c,
     ss_background = sc_background c, ss_throttled = sc_throttled c, ss_active = sc_active c\<rparr>"

section \<open>Priorities are valid\<close>

lemma parse_member_urgency: "parse_rfc9218_member m = Some (MemberUrgency u) \<Longrightarrow> u \<le> 7"
  by (auto simp: parse_rfc9218_member_def split: option.splits if_splits)

lemma parse_members_urgency:
  "parse_members parts (u0, i0, a0) = (u, i, a) \<Longrightarrow> (\<forall>x. u0 = Some x \<longrightarrow> x \<le> 7) \<Longrightarrow> \<forall>x. u = Some x \<longrightarrow> x \<le> 7"
proof (induction parts arbitrary: u0 i0 a0)
  case (Cons part parts)
  show ?case
  proof (cases "parse_rfc9218_member (trim part)")
    case None
    then show ?thesis using Cons.prems Cons.IH [of u0 i0 a0] by simp
  next
    case (Some m)
    show ?thesis
    proof (cases m)
      case (MemberUrgency x)
      then have "x \<le> 7" using Some parse_member_urgency by blast
      then show ?thesis using Cons.prems(1) Cons.IH [of "Some x" i0 True] Some MemberUrgency by simp
    next
      case (MemberIncremental b)
      then show ?thesis using Cons.prems Cons.IH [of u0 b True] Some by simp
    qed
  qed
qed simp

lemma parse_priority_valid: "parse_rfc9218_priority s = Some p \<Longrightarrow> sp_urgency p \<le> 7"
  using parse_members_urgency [of "split_on CHR '','' (trim s)" None False False]
  by (auto simp: parse_rfc9218_priority_def Let_def split: if_splits prod.splits option.splits)

lemma stream_priority_new_valid [simp]: "sp_urgency (stream_priority_new u i) \<le> 7"
  by (simp add: stream_priority_new_def)

lemma heuristic_valid: "sp_urgency (heuristic_stream_priority path ct) \<le> 7"
proof -
  have "sp_urgency (heuristic_by_path path) \<le> 7"
    by (simp add: heuristic_by_path_def heuristic_media_path_def stream_priority_default_def Let_def)
  moreover have "sp_urgency p \<le> 7" if "heuristic_by_content_type c = Some p" for c p
    using that by (auto simp: heuristic_by_content_type_def split: if_splits)
  ultimately show ?thesis by (auto simp: heuristic_stream_priority_def split: option.splits)
qed

lemma parse_print_urgency:
  assumes "u \<le> 7"
  shows "parse_rfc9218_priority (to_header_value \<lparr>sp_urgency = u, sp_incremental = i\<rparr>) =
    Some \<lparr>sp_urgency = u, sp_incremental = i\<rparr>"
proof -
  have "\<forall>u \<in> set [0..<8]. \<forall>i \<in> set [True, False].
      parse_rfc9218_priority (to_header_value \<lparr>sp_urgency = u, sp_incremental = i\<rparr>) = Some \<lparr>sp_urgency = u, sp_incremental = i\<rparr>"
    by code_simp
  moreover have "u \<in> set [0..<8]" using assms by simp
  ultimately show ?thesis by (metis (full_types) list.set_intros(1,2))
qed

text \<open>
  C40: Every stream priority is valid and survives the way to the upstream server.  Whatever the client, the
  rules and the heuristics say, the resolved urgency lies between 0 and 7, the scheduling weight is the power of
  two that belongs to it, and the header that is sent parses back to exactly this priority.
\<close>

theorem resolved_priority_is_valid:
  "sp_urgency (resolve_stream_priority client path ct config) \<le> 7 \<and>
   stream_weight (resolve_stream_priority client path ct config) =
     2 ^ (8 - sp_urgency (resolve_stream_priority client path ct config)) \<and>
   parse_rfc9218_priority (to_header_value (resolve_stream_priority client path ct config)) =
     Some (resolve_stream_priority client path ct config)"
proof -
  let ?p = "resolve_stream_priority client path ct config"
  have u: "sp_urgency ?p \<le> 7"
    by (auto simp: resolve_stream_priority_def Let_def heuristic_valid split: option.splits dest: parse_priority_valid)
  then have "sp_urgency ?p \<in> {0, 1, 2, 3, 4, 5, 6, 7}" by auto
  then have "stream_weight ?p = 2 ^ (8 - sp_urgency ?p)" by (elim insertE) (simp_all add: stream_weight_def)
  moreover have "?p = \<lparr>sp_urgency = sp_urgency ?p, sp_incremental = sp_incremental ?p\<rparr>" by simp
  ultimately show ?thesis using u parse_print_urgency by metis
qed

section \<open>Streams in flight\<close>

text \<open>
  The requests of all connections share one controller.  The check and the permit of a background stream are
  two operations, between which other requests run: \<open>sr_pending\<close> counts the streams between the two.  A
  permit carries whether its stream is a background one, and whether it passed the check.  No more than \<open>k\<close>
  streams are between the two operations at once, and no machine holds \<open>2 ^ 64\<close> permits.
\<close>

record stream_run =
  sr_ctl :: stream_controller
  sr_pending :: nat
  sr_permits :: "(bool \<times> bool) multiset"

definition stream_run_start :: stream_run where
  "stream_run_start = \<lparr>sr_ctl = stream_controller_new, sr_pending = 0, sr_permits = {#}\<rparr>"

inductive stream_step :: "nat \<Rightarrow> stream_run \<Rightarrow> stream_run \<Rightarrow> bool" for k where
  Pass: "is_background p \<Longrightarrow> sr_pending r < k \<Longrightarrow>
     should_throttle_background (record_stream_request (sr_ctl r) p) DEFAULT_MAX_BACKGROUND_CONCURRENCY = (False, c) \<Longrightarrow>
     stream_step k r (r\<lparr>sr_ctl := c, sr_pending := sr_pending r + 1\<rparr>)"
| Throttle: "is_background p \<Longrightarrow>
     should_throttle_background (record_stream_request (sr_ctl r) p) DEFAULT_MAX_BACKGROUND_CONCURRENCY = (True, c) \<Longrightarrow>
     stream_step k r (r\<lparr>sr_ctl := c\<rparr>)"
| Direct: "size (sr_permits r) + 1 < 2 ^ 64 \<Longrightarrow> acquire_permit (record_stream_request (sr_ctl r) p) p = (b, c) \<Longrightarrow>
     stream_step k r (r\<lparr>sr_ctl := c, sr_permits := add_mset (b, False) (sr_permits r)\<rparr>)"
| Acquire: "0 < sr_pending r \<Longrightarrow> is_background p \<Longrightarrow> size (sr_permits r) + 1 < 2 ^ 64 \<Longrightarrow>
     acquire_permit (sr_ctl r) p = (b, c) \<Longrightarrow>
     stream_step k r (r\<lparr>sr_ctl := c, sr_pending := sr_pending r - 1, sr_permits := add_mset (b, True) (sr_permits r)\<rparr>)"
| Drop: "(b, a) \<in># sr_permits r \<Longrightarrow>
     stream_step k r (r\<lparr>sr_ctl := stream_permit_drop b (sr_ctl r), sr_permits := sr_permits r - {#(b, a)#}\<rparr>)"

inductive stream_reach :: "nat \<Rightarrow> stream_run \<Rightarrow> bool" for k where
  start: "stream_reach k stream_run_start"
| step: "stream_reach k r \<Longrightarrow> stream_step k r r' \<Longrightarrow> stream_reach k r'"

definition background_permits :: "stream_run \<Rightarrow> nat" where
  "background_permits r = size (filter_mset fst (sr_permits r))"

definition checked_permits :: "stream_run \<Rightarrow> nat" where
  "checked_permits r = size (filter_mset (\<lambda>p. fst p \<and> snd p) (sr_permits r))"

definition stream_inv :: "nat \<Rightarrow> stream_run \<Rightarrow> bool" where
  "stream_inv k r \<longleftrightarrow>
     size (sr_permits r) < 2 ^ 64 \<and>
     sc_active (sr_ctl r) = of_nat (size (sr_permits r)) \<and>
     sc_active_background (sr_ctl r) = of_nat (background_permits r) \<and>
     sc_total (sr_ctl r) = sc_critical (sr_ctl r) + sc_normal (sr_ctl r) + sc_background (sr_ctl r) \<and>
     sr_pending r \<le> k \<and> checked_permits r + sr_pending r \<le> 31 + k"

lemma record_stream_request_sel [simp]:
  "sc_active (record_stream_request c p) = sc_active c"
  "sc_active_background (record_stream_request c p) = sc_active_background c"
  by (simp_all add: record_stream_request_def Let_def)

lemma record_stream_request_total:
  "sc_total c = sc_critical c + sc_normal c + sc_background c \<Longrightarrow>
   sc_total (record_stream_request c p) =
     sc_critical (record_stream_request c p) + sc_normal (record_stream_request c p) + sc_background (record_stream_request c p)"
  by (simp add: record_stream_request_def Let_def)

lemma background_permits_le: "background_permits r \<le> size (sr_permits r)"
  by (simp add: background_permits_def size_filter_mset_lesseq)

lemma checked_permits_le: "checked_permits r \<le> background_permits r"
proof -
  have "size (filter_mset (\<lambda>p. fst p \<and> snd p) M) \<le> size (filter_mset fst M)" for M :: "(bool \<times> bool) multiset"
    by (induction M) auto
  then show ?thesis by (simp add: background_permits_def checked_permits_def)
qed

lemma background_below_limit:
  assumes "stream_inv k r" and "should_throttle_background (record_stream_request (sr_ctl r) p) DEFAULT_MAX_BACKGROUND_CONCURRENCY = (False, c)"
  shows "checked_permits r \<le> 31" and "c = record_stream_request (sr_ctl r) p"
proof -
  have "(of_nat (background_permits r) :: usize) < 32"
    using assms by (auto simp: should_throttle_background_def DEFAULT_MAX_BACKGROUND_CONCURRENCY_def stream_inv_def
        not_le [symmetric] split: if_splits)
  moreover have "background_permits r < 2 ^ 64"
    using assms(1) background_permits_le [of r] by (simp add: stream_inv_def)
  ultimately have "background_permits r < 32" by (simp add: word_less_nat_alt unat_of_nat)
  then show "checked_permits r \<le> 31" using checked_permits_le [of r] by simp
  show "c = record_stream_request (sr_ctl r) p"
    using assms(2) by (auto simp: should_throttle_background_def split: if_splits)
qed

lemma size_remove_filter:
  "x \<in># M \<Longrightarrow> size (filter_mset P (M - {#x#})) = size (filter_mset P M) - (if P x then 1 else 0)"
  by (simp add: size_Diff_singleton)

lemma filter_member_pos: "x \<in># M \<Longrightarrow> P x \<Longrightarrow> 0 < size (filter_mset P M)"
proof -
  assume "x \<in># M" "P x"
  then obtain B where "filter_mset P M = add_mset x B" by (metis filter_mset_add_mset insert_DiffM)
  then show ?thesis by simp
qed

lemma stream_step_inv: "stream_step k r r' \<Longrightarrow> stream_inv k r \<Longrightarrow> stream_inv k r'"
proof (induction rule: stream_step.induct)
  case (Pass p r c)
  then show ?case using background_below_limit [OF Pass.prems Pass.hyps(3)]
    by (simp add: stream_inv_def background_permits_def checked_permits_def record_stream_request_total)
next
  case (Throttle p r c)
  then have "c = (record_stream_request (sr_ctl r) p)\<lparr>sc_throttled := sc_throttled (record_stream_request (sr_ctl r) p) + 1\<rparr>"
    by (auto simp: should_throttle_background_def split: if_splits)
  then show ?case using Throttle.prems record_stream_request_total [of "sr_ctl r" p]
    by (simp add: stream_inv_def background_permits_def checked_permits_def)
next
  case (Direct r p b c)
  then show ?case using record_stream_request_total [of "sr_ctl r" p]
    by (auto simp: stream_inv_def background_permits_def checked_permits_def acquire_permit_def Let_def)
next
  case (Acquire r p b c)
  then show ?case
    by (auto simp: stream_inv_def background_permits_def checked_permits_def acquire_permit_def Let_def)
next
  case (Drop b a r)
  let ?M = "sr_permits r"
  have pos: "0 < size ?M" "b \<Longrightarrow> 0 < size (filter_mset fst ?M)"
    using Drop.hyps filter_member_pos [of "(b, a)" ?M fst] by (auto simp: nonempty_has_size [symmetric])
  have s: "size (?M - {#(b, a)#}) = size ?M - 1" using Drop.hyps by (simp add: size_Diff_singleton)
  show ?case using Drop.prems pos
    unfolding stream_inv_def background_permits_def checked_permits_def
    by (auto simp: stream_permit_drop_def Let_def s size_remove_filter [OF Drop.hyps] of_nat_diff simp del: filter_diff_mset)
qed

lemma stream_reach_inv: "stream_reach k r \<Longrightarrow> stream_inv k r"
proof (induction rule: stream_reach.induct)
  case start
  show ?case by (simp add: stream_inv_def stream_run_start_def stream_controller_new_def background_permits_def checked_permits_def)
next
  case (step r r')
  then show ?case by (blast intro: stream_step_inv)
qed

text \<open>
  The controller counts streams exactly and its limit holds up to the requests in between.  In every
  interleaving the counters of active streams equal the permits that are out, the requests of the three classes
  add up to the total, and the background streams that passed the check are at most the documented limit of 32
  when one request at a time is between check and permit; each further request in between can exceed it by one.
\<close>

theorem stream_permits_are_counted_and_bounded:
  assumes "stream_reach k r"
  shows "sc_active (sr_ctl r) = of_nat (size (sr_permits r)) \<and>
    sc_active_background (sr_ctl r) = of_nat (background_permits r) \<and>
    sc_total (sr_ctl r) = sc_critical (sr_ctl r) + sc_normal (sr_ctl r) + sc_background (sr_ctl r) \<and>
    checked_permits r \<le> 31 + k"
  using stream_reach_inv [OF assms] by (simp add: stream_inv_def)

definition sample_stream_run :: stream_run where
  "sample_stream_run =
     (let p = stream_priority_new 7 True; c = record_stream_request stream_controller_new p
      in \<lparr>sr_ctl = snd (acquire_permit c p), sr_pending = 0, sr_permits = {#(True, True)#}\<rparr>)"

end
