(* ===== verification/Grpc_Web.thy ===== *)
theory Grpc_Web
  imports Vhost Http_Headers "HOL-Library.Code_Target_Nat"
begin

text \<open>
  gRPC-Web: \<open>proxy/http/grpc_web.rs\<close>.  The headers of a browser request become those of native gRPC, and the
  trailers of the answer become a last frame of its body.

  The URL parser of the \<open>url\<close> crate is the parameter \<open>ow_url\<close>: the scheme and the host of a URL.  A body
  is the sequence of the results of its polls.
\<close>

record http_response =
  re_status :: nat
  re_headers :: headers
  re_body :: string

record origin_env =
  ow_http :: http_env
  ow_host :: host_env
  ow_url :: "string \<Rightarrow> (string \<times> string option) option"

section \<open>Requests\<close>

definition get_str :: "http_env \<Rightarrow> headers \<Rightarrow> string \<Rightarrow> string option" where
  "get_str h hs name = (case get hs name of None \<Rightarrow> None | Some v \<Rightarrow> to_str h v)"

definition is_grpc_web_request :: "http_env \<Rightarrow> headers \<Rightarrow> bool" where
  "is_grpc_web_request h hs \<longleftrightarrow>
     (case get_str h hs ''content-type'' of None \<Rightarrow> False | Some s \<Rightarrow> starts_with ''application/grpc-web'' s) \<or>
     contains_key hs ''x-grpc-web''"

definition is_grpc_web_preflight :: "http_env \<Rightarrow> string \<Rightarrow> headers \<Rightarrow> bool" where
  "is_grpc_web_preflight h method hs =
     (if method \<noteq> ''OPTIONS'' then False
      else if contains_key hs ''x-grpc-web'' then True
      else case get_str h hs ''access-control-request-headers'' of
          None \<Rightarrow> False
        | Some s \<Rightarrow> sublist ''grpc-web'' s \<or> sublist ''x-grpc-web'' s)"

definition is_local_host :: "string \<Rightarrow> bool" where
  "is_local_host host \<longleftrightarrow> host = ''localhost'' \<or> host = ''127.0.0.1'' \<or> host = ''::1''"

definition matches_vhosts :: "host_env \<Rightarrow> string \<Rightarrow> virtual_host list \<Rightarrow> bool" where
  "matches_vhosts e origin_clean vhosts =
     (if vhosts = [] then False
      else if list_ex (\<lambda>vhost. vhost_test e vhost origin_clean) vhosts then True
      else is_local_host origin_clean \<and>
        list_ex (\<lambda>v. vhost_test e v ''localhost'' \<or> vhost_test e v ''127.0.0.1'' \<or> vhost_test e v ''::1'') vhosts)"

text \<open>\<open>split(':').next()\<close> and the removal of brackets.\<close>

definition trim_brackets :: "string \<Rightarrow> string" where
  "trim_brackets host = trim_end_matches (\<lambda>c. c = CHR '']'') (trim_start_matches (\<lambda>c. c = CHR ''['') host)"

definition host_clean :: "string \<Rightarrow> string" where
  "host_clean host = trim_brackets (hd (split_on CHR '':'' host))"

definition matches_request_host :: "string \<Rightarrow> string \<Rightarrow> bool" where
  "matches_request_host origin_clean req_host =
     (let req_clean = host_clean req_host in
      if eq_ignore_ascii_case origin_clean req_clean then True
      else is_local_host origin_clean \<and> is_local_host req_clean)"

definition parse_origin_host :: "origin_env \<Rightarrow> string \<Rightarrow> string option" where
  "parse_origin_host e origin_str =
     (if origin_str = ''null'' \<or> trim origin_str = [] then None
      else case ow_url e origin_str of
          None \<Rightarrow> None
        | Some (scheme, host) \<Rightarrow>
            if scheme \<noteq> ''http'' \<and> scheme \<noteq> ''https'' then None
            else map_option (\<lambda>host. to_ascii_lowercase (trim_brackets host)) host)"

definition is_allowed_origin :: "origin_env \<Rightarrow> string \<Rightarrow> virtual_host list \<Rightarrow> string option \<Rightarrow> bool" where
  "is_allowed_origin e origin_str vhosts req_host =
     (case parse_origin_host e origin_str of
        None \<Rightarrow> False
      | Some origin_clean \<Rightarrow>
          matches_vhosts (ow_host e) origin_clean vhosts \<or>
          (case req_host of None \<Rightarrow> False | Some h \<Rightarrow> matches_request_host origin_clean h))"

definition forbidden_response :: http_response where
  "forbidden_response = \<lparr>re_status = 403, re_headers = [], re_body = []\<rparr>"

definition cors_preflight_response ::
    "origin_env \<Rightarrow> headers \<Rightarrow> virtual_host list \<Rightarrow> string option \<Rightarrow> http_response" where
  "cors_preflight_response e hs vhosts req_host =
     (case get_str (ow_http e) hs ''origin'' of
        None \<Rightarrow> forbidden_response
      | Some origin \<Rightarrow>
          if \<not> is_allowed_origin e origin vhosts req_host then forbidden_response
          else case header_from_str (ow_http e) origin of
              None \<Rightarrow> forbidden_response
            | Some origin_val \<Rightarrow>
                \<lparr>re_status = 204,
                 re_headers = foldl (\<lambda>hs (n, v). hinsert hs n v) []
                   [(''access-control-allow-origin'', origin_val),
                    (''access-control-allow-methods'', ''POST, OPTIONS''),
                    (''access-control-allow-headers'', ''content-type,x-grpc-web,x-user-agent''),
                    (''access-control-expose-headers'', ''grpc-status,grpc-message''),
                    (''access-control-max-age'', ''86400''),
                    (''content-length'', ''0'')],
                 re_body = []\<rparr>)"

text \<open>\<open>get_mut\<close> gives the first value of a header; \<open>replace_first\<close> writes through it.\<close>

fun replace_first :: "headers \<Rightarrow> string \<Rightarrow> string \<Rightarrow> headers" where
  "replace_first [] name v = []"
| "replace_first ((n, x) # hs) name v = (if n = name then (n, v) # hs else (n, x) # replace_first hs name v)"

definition prepare_grpc_request :: "http_env \<Rightarrow> headers \<Rightarrow> headers" where
  "prepare_grpc_request h hs =
     (let hs1 = (case get_str h hs ''content-type'' of
            None \<Rightarrow> hs
          | Some ct \<Rightarrow> if starts_with ''application/grpc-web'' ct then replace_first hs ''content-type'' ''application/grpc'' else hs)
      in if contains_key hs1 ''te'' then hs1 else hinsert hs1 ''te'' ''trailers'')"

section \<open>Responses\<close>

definition apply_grpc_web_response_headers :: "http_env \<Rightarrow> headers \<Rightarrow> string option \<Rightarrow> headers" where
  "apply_grpc_web_response_headers h hs origin =
     (let hs1 = hremove hs ''content-length'';
          hs2 = (case get_str h hs1 ''content-type'' of
            None \<Rightarrow> hs1
          | Some ct \<Rightarrow> if starts_with ''application/grpc'' ct
              then replace_first hs1 ''content-type'' ''application/grpc-web+proto'' else hs1)
      in case origin of
           None \<Rightarrow> hs2
         | Some o' \<Rightarrow> (case header_from_str h o' of
               None \<Rightarrow> hs2
             | Some v \<Rightarrow> hinsert (hinsert hs2 ''access-control-allow-origin'' v)
                 ''access-control-expose-headers'' ''grpc-status,grpc-message''))"

definition be32 :: "nat \<Rightarrow> string" where
  "be32 n = map (\<lambda>k. char_of (n div 256 ^ k mod 256)) [3, 2, 1, 0]"

definition is_grpc_trailer :: "string \<times> string \<Rightarrow> bool" where
  "is_grpc_trailer t \<longleftrightarrow> starts_with ''grpc-'' (fst t) \<or> fst t = ''content-type''"

definition trailer_line :: "string \<times> string \<Rightarrow> string" where
  "trailer_line t = fst t @ '': '' @ snd t @ [CHR 0x0d, CHR 0x0a]"

definition encode_trailers_frame :: "headers \<Rightarrow> string" where
  "encode_trailers_frame trailers =
     (let payload = concat (map trailer_line (filter is_grpc_trailer trailers))
      in [CHR 0x80] @ be32 (length payload mod 2 ^ 32) @ payload)"

datatype body_frame = DataBytes string | Trailers headers

datatype body_poll = PollPending | PollEnd | PollFrame body_frame | PollError string

record grpc_web_body =
  gw_trailers_frame :: "body_frame option"
  gw_done :: bool

text \<open>A frame is data or trailers, so the last branch of \<open>handle_frame\<close> does not occur.\<close>

definition handle_frame :: "grpc_web_body \<Rightarrow> body_frame \<Rightarrow> body_poll \<times> grpc_web_body" where
  "handle_frame b frame =
     (case frame of
        DataBytes d \<Rightarrow> (PollFrame (DataBytes d), b)
      | Trailers t \<Rightarrow> (PollFrame (DataBytes (encode_trailers_frame t)), b\<lparr>gw_done := True\<rparr>))"

text \<open>One poll, with the answer that the inner body gives if it is asked.\<close>

definition grpc_poll_frame :: "grpc_web_body \<Rightarrow> body_poll \<Rightarrow> body_poll \<times> grpc_web_body" where
  "grpc_poll_frame b inner =
     (if gw_done b then (PollEnd, b)
      else case inner of
          PollFrame f \<Rightarrow> handle_frame b f
        | PollError err \<Rightarrow> (PollError err, b)
        | PollEnd \<Rightarrow>
            (case gw_trailers_frame b of
               Some f \<Rightarrow> (PollFrame f, b\<lparr>gw_trailers_frame := None\<rparr>)
             | None \<Rightarrow> (PollEnd, b\<lparr>gw_done := True\<rparr>))
        | PollPending \<Rightarrow> (PollPending, b))"

definition grpc_is_end_stream :: "grpc_web_body \<Rightarrow> bool" where
  "grpc_is_end_stream b \<longleftrightarrow> gw_done b \<and> gw_trailers_frame b = None"

definition transform_response :: "http_env \<Rightarrow> headers \<Rightarrow> string option \<Rightarrow> headers \<times> grpc_web_body" where
  "transform_response h hs origin =
     (apply_grpc_web_response_headers h hs origin,
      \<lparr>gw_trailers_frame = (if contains_key hs ''grpc-status'' then Some (DataBytes (encode_trailers_frame hs)) else None),
       gw_done = False\<rparr>)"

text \<open>The polls of a client.\<close>

fun grpc_polls :: "grpc_web_body \<Rightarrow> body_poll list \<Rightarrow> body_poll list" where
  "grpc_polls b [] = []"
| "grpc_polls b (p # ps) = (let (r, b') = grpc_poll_frame b p in r # grpc_polls b' ps)"

section \<open>The trailers reach the client\<close>

text \<open>How a gRPC-Web client reads the trailers frame: the flag, the length, and one line per trailer.\<close>

definition read_trailer_line :: "string \<Rightarrow> string \<times> string" where
  "read_trailer_line l = (takeWhile (\<lambda>c. c \<noteq> CHR '':'') l, butlast (drop 2 (dropWhile (\<lambda>c. c \<noteq> CHR '':'') l)))"

definition decode_trailers_frame :: "string \<Rightarrow> headers option" where
  "decode_trailers_frame f =
     (case f of
        flag # a # b # c # d # payload \<Rightarrow>
          if flag = CHR 0x80 \<and> be32 (length payload) = [a, b, c, d]
          then Some (map read_trailer_line (butlast (split_on CHR 0x0a payload))) else None
      | _ \<Rightarrow> None)"

definition trailer_ok :: "string \<times> string \<Rightarrow> bool" where
  "trailer_ok t \<longleftrightarrow> CHR '':'' \<notin> set (fst t) \<and> CHR 0x0a \<notin> set (fst t) \<and> CHR 0x0a \<notin> set (snd t)"

lemma split_trailer_lines:
  "list_all trailer_ok ts \<Longrightarrow>
   split_on CHR 0x0a (concat (map trailer_line ts)) = map (\<lambda>t. fst t @ '': '' @ snd t @ [CHR 0x0d]) ts @ [[]]"
proof (induction ts)
  case (Cons t ts)
  let ?l = "fst t @ '': '' @ snd t @ [CHR 0x0d]"
  have "CHR 0x0a \<notin> set ?l" using Cons.prems by (auto simp: trailer_ok_def)
  from split_on_append_delim [OF this, of "concat (map trailer_line ts)"]
  have "split_on CHR 0x0a (trailer_line t @ concat (map trailer_line ts)) = ?l # split_on CHR 0x0a (concat (map trailer_line ts))"
    by (simp add: trailer_line_def [of t])
  then show ?case using Cons by simp
qed simp

lemma read_trailer_line_line:
  assumes "trailer_ok t"
  shows "read_trailer_line (fst t @ '': '' @ snd t @ [CHR 0x0d]) = t"
proof -
  let ?r = "'': '' @ snd t @ [CHR 0x0d]"
  have "\<forall>c \<in> set (fst t). c \<noteq> CHR '':''" using assms by (auto simp: trailer_ok_def)
  then have "takeWhile (\<lambda>c. c \<noteq> CHR '':'') (fst t @ ?r) = fst t" "dropWhile (\<lambda>c. c \<noteq> CHR '':'') (fst t @ ?r) = ?r"
    by (simp_all add: takeWhile_append2 dropWhile_append2)
  then show ?thesis unfolding read_trailer_line_def by (cases t) (simp add: butlast_append)
qed

lemma decode_encode_trailers:
  assumes "list_all trailer_ok trailers" and "length (encode_trailers_frame trailers) < 2 ^ 32"
  shows "decode_trailers_frame (encode_trailers_frame trailers) = Some (filter is_grpc_trailer trailers)"
proof -
  let ?ts = "filter is_grpc_trailer trailers"
  let ?p = "concat (map trailer_line ?ts)"
  have ok: "list_all trailer_ok ?ts" using assms(1) by (auto simp: list_all_iff)
  have "length ?p < 2 ^ 32" using assms(2) by (simp add: encode_trailers_frame_def Let_def)
  moreover have "map read_trailer_line (butlast (split_on CHR 0x0a ?p)) = ?ts"
    unfolding split_trailer_lines [OF ok] map_map butlast_snoc
    by (rule map_idI) (use ok in \<open>simp only: o_apply list_all_iff read_trailer_line_line\<close>)
  ultimately show ?thesis
    by (simp add: decode_trailers_frame_def encode_trailers_frame_def Let_def be32_def)
qed

definition passes_through :: "body_poll \<Rightarrow> bool" where
  "passes_through p \<longleftrightarrow> p = PollPending \<or> (\<exists>d. p = PollFrame (DataBytes d))"

lemma grpc_polls_data:
  "\<not> gw_done b \<Longrightarrow> list_all passes_through pre \<Longrightarrow> grpc_polls b (pre @ ps) = pre @ grpc_polls b ps"
  by (induction pre) (auto simp: passes_through_def grpc_poll_frame_def handle_frame_def)

lemma grpc_polls_done: "gw_done b \<Longrightarrow> grpc_polls b ps = replicate (length ps) PollEnd"
  by (induction ps) (auto simp: grpc_poll_frame_def)

lemma grpc_polls_ended:
  "gw_trailers_frame b = None \<Longrightarrow> \<not> gw_done b \<Longrightarrow> grpc_polls b (replicate n PollEnd) = replicate n PollEnd"
  by (cases n) (auto simp: grpc_poll_frame_def grpc_polls_done)

text \<open>
  C38: The status of a gRPC call reaches a browser exactly once.  The data of the answer passes unchanged, the
  trailers that end it arrive as one last frame and then the body ends; an answer whose headers already hold the
  status gets this frame at its end.  A client that decodes the frame reads exactly the gRPC trailers, in order.
\<close>

theorem grpc_status_reaches_the_browser:
  assumes "list_all trailer_ok trailers" and "length (encode_trailers_frame trailers) < 2 ^ 32"
    and "list_all passes_through pre"
  shows "decode_trailers_frame (encode_trailers_frame trailers) = Some (filter is_grpc_trailer trailers) \<and>
    grpc_polls (snd (transform_response h hs origin)) (pre @ PollFrame (Trailers trailers) # post) =
      pre @ PollFrame (DataBytes (encode_trailers_frame trailers)) # replicate (length post) PollEnd \<and>
    grpc_polls (snd (transform_response h hs origin)) (pre @ replicate (Suc n) PollEnd) =
      pre @ (if contains_key hs ''grpc-status'' then PollFrame (DataBytes (encode_trailers_frame hs)) else PollEnd) #
        replicate n PollEnd"
proof -
  let ?b = "snd (transform_response h hs origin)"
  have b: "\<not> gw_done ?b" by (simp add: transform_response_def)
  have "grpc_polls ?b (PollFrame (Trailers trailers) # post) =
      PollFrame (DataBytes (encode_trailers_frame trailers)) # replicate (length post) PollEnd"
    using b by (simp add: grpc_poll_frame_def handle_frame_def grpc_polls_done)
  moreover have "grpc_polls ?b (replicate (Suc n) PollEnd) =
      (if contains_key hs ''grpc-status'' then PollFrame (DataBytes (encode_trailers_frame hs)) else PollEnd) # replicate n PollEnd"
    by (simp add: grpc_poll_frame_def transform_response_def grpc_polls_done grpc_polls_ended)
  ultimately show ?thesis
    using decode_encode_trailers [OF assms(1,2)] grpc_polls_data [OF b assms(3)] by simp
qed

theorem grpc_status_reaches_the_browser_witness:
  "decode_trailers_frame (encode_trailers_frame [(''grpc-status'', ''5''), (''date'', ''x''), (''grpc-message'', ''a: b'')]) =
     Some [(''grpc-status'', ''5''), (''grpc-message'', ''a: b'')]"
proof -
  let ?t = "[(''grpc-status'', ''5''), (''date'', ''x''), (''grpc-message'', ''a: b'')]"
  have "list_all trailer_ok ?t" "length (encode_trailers_frame ?t) < 2 ^ 32"
    by code_simp+
  moreover have "filter is_grpc_trailer ?t = [(''grpc-status'', ''5''), (''grpc-message'', ''a: b'')]" by code_simp
  ultimately show ?thesis using grpc_status_reaches_the_browser [of ?t "[]"] by simp
qed

end
