(* ===== verification/Request_Checks.thy ===== *)
theory Request_Checks
  imports Router Rewriter Cache Early_Data Stream_Priority Grpc_Web Rewrite Pool
begin

text \<open>
  The parts of the request pipeline of \<open>proxy/http/mod.rs\<close> that look at one request: the bot blocker
  (\<open>bot.rs\<close>), the host of a request, redirects to HTTPS, early data, and the answers that the proxy gives
  itself (maintenance, dictionaries, purges).

  A \<open>Request\<close> is the record \<open>request\<close>; the parts of its URI that the \<open>http\<close> crate parses are fields of it.
\<close>

section \<open>Bots\<close>

definition BOT_SIGNATURES :: "string list" where
  "BOT_SIGNATURES = [''gptbot'', ''chatgpt-user'', ''oai-searchbot'', ''claudebot'', ''claude-web'', ''anthropic-ai'',
     ''bytespider'', ''ccbot'', ''perplexitybot'', ''cohere-ai'', ''diffbot'', ''facebookbot'', ''meta-externalagent'',
     ''google-extended'', ''mistralbot'', ''amazonbot'', ''omgilibot'', ''imagesiftbot'', ''scrapy'', ''timpibot'',
     ''velenpublicwebcrawler'']"

text \<open>\<open>slice::windows\<close>.\<close>

definition windows :: "nat \<Rightarrow> 'a list \<Rightarrow> 'a list list" where
  "windows n s = map (\<lambda>i. take n (drop i s)) [0..<length s + 1 - n]"

definition contains_ignore_case :: "string \<Rightarrow> string \<Rightarrow> bool" where
  "contains_ignore_case haystack needle =
     (if needle = [] then True
      else list_ex (\<lambda>window. eq_ignore_ascii_case window needle) (windows (length needle) haystack))"

definition is_bot_or_ai_scraper :: "string \<Rightarrow> bool" where
  "is_bot_or_ai_scraper user_agent \<longleftrightarrow> list_ex (contains_ignore_case user_agent) BOT_SIGNATURES"

definition is_bot_request :: "http_env \<Rightarrow> headers \<Rightarrow> bool" where
  "is_bot_request h hs = (case get_str h hs ''user-agent'' of None \<Rightarrow> False | Some ua \<Rightarrow> is_bot_or_ai_scraper ua)"

section \<open>Requests and their hosts\<close>

record request =
  rq_method :: string
  rq_uri :: uri
  rq_uri_host :: "string option"
  rq_path :: string
  rq_query :: "string option"
  rq_path_and_query :: "string option"
  rq_headers :: headers
  rq_body_size :: "nat option"

record client_cert_info =
  ci_subject :: string
  ci_fingerprint :: string

record request_info =
  ri_remote :: ip_addr
  ri_peer :: ip_addr
  ri_sni :: "string option"
  ri_proto :: string
  ri_client_cert :: "client_cert_info option"
  ri_early_data :: bool

definition split_host_port :: "string \<Rightarrow> string option" where
  "split_host_port host =
     (if host = [] then None
      else if starts_with ''['' host
      then if CHR '']'' \<in> set host then Some (takeWhile (\<lambda>c. c \<noteq> CHR '']'') host @ '']'') else None
      else Some (hd (split_on CHR '':'' host)))"

definition header_host :: "http_env \<Rightarrow> headers \<Rightarrow> string option" where
  "header_host h hs = (case get_str h hs ''host'' of None \<Rightarrow> None | Some host \<Rightarrow> split_host_port host)"

definition is_domain_fronting :: "http_env \<Rightarrow> headers \<Rightarrow> string option \<Rightarrow> bool" where
  "is_domain_fronting h hs sni =
     (case (sni, header_host h hs) of
        (Some sni, Some header) \<Rightarrow> \<not> eq_ignore_ascii_case sni header
      | _ \<Rightarrow> False)"

definition request_host :: "request \<Rightarrow> string option \<Rightarrow> string option \<Rightarrow> string option" where
  "request_host rq hdr sni =
     (case hdr of Some h \<Rightarrow> Some h | None \<Rightarrow> (case rq_uri_host rq of Some h \<Rightarrow> Some h | None \<Rightarrow> sni))"

definition is_local_or_ip :: "string \<Rightarrow> bool" where
  "is_local_or_ip host \<longleftrightarrow>
     host = ''localhost'' \<or> host = ''127.0.0.1'' \<or> host = ''::1'' \<or> parse_ip host \<noteq> None"

definition is_valid_secure_redirect_host ::
    "host_env \<Rightarrow> 'a filtered_route_scheme list \<Rightarrow> string \<Rightarrow> ip_addr \<Rightarrow> bool" where
  "is_valid_secure_redirect_host e routes clean local =
     (if clean = [] then False
      else if is_local_or_ip clean \<or> clean = fmt_ip local then True
      else has_matching_vhost e routes clean)"

text \<open>The authority of the URI, and the URI that the \<open>http\<close> crate builds for it, are \<open>authority\<close> and
  \<open>https_uri\<close>.\<close>

definition get_secure_uri ::
    "host_env \<Rightarrow> http_env \<Rightarrow> (request \<Rightarrow> string \<Rightarrow> string option) \<Rightarrow> 'a filtered_route_scheme list \<Rightarrow> ip_addr \<Rightarrow>
     request \<Rightarrow> string option" where
  "get_secure_uri e h https_uri routes local rq =
     (let host_str = (case get_str h (rq_headers rq) ''host'' of
            Some host \<Rightarrow> host
          | None \<Rightarrow> (case uri_authority (rq_uri rq) of Some a \<Rightarrow> a | None \<Rightarrow> []))
      in if \<not> is_valid_secure_redirect_host e routes (host_clean host_str) local then None
         else https_uri rq host_str)"

text \<open>\<open>redirect\<close>: the answer to a plain request on a port that requires TLS.\<close>

definition tls_redirect ::
    "host_env \<Rightarrow> http_env \<Rightarrow> (request \<Rightarrow> string \<Rightarrow> string option) \<Rightarrow> 'a filtered_route_scheme list \<Rightarrow> ip_addr \<Rightarrow>
     request \<Rightarrow> http_response" where
  "tls_redirect e h https_uri routes local rq =
     (case get_secure_uri e h https_uri routes local rq of
        Some u \<Rightarrow> \<lparr>re_status = 308, re_headers = [(''location'', u)], re_body = []\<rparr>
      | None \<Rightarrow> \<lparr>re_status = 400, re_headers = [], re_body = ''TLS required'' @ [CHR 0x0d, CHR 0x0a]\<rparr>)"

definition normalize_request_path :: "(uri \<Rightarrow> string \<Rightarrow> uri option) \<Rightarrow> request \<Rightarrow> request" where
  "normalize_request_path set_path rq =
     (let normalized = normalize_path (rq_path rq) in
      if normalized = rq_path rq then rq
      else let pq = (case rq_query rq of Some query \<Rightarrow> normalized @ ''?'' @ query | None \<Rightarrow> normalized) in
        case set_path (rq_uri rq) pq of
          None \<Rightarrow> rq
        | Some u \<Rightarrow> rq\<lparr>rq_uri := u, rq_path := normalized, rq_path_and_query := Some pq\<rparr>)"

definition is_authorized_request_headers :: "headers \<Rightarrow> bool \<Rightarrow> bool" where
  "is_authorized_request_headers hs has_auth \<longleftrightarrow> contains_key hs ''authorization'' \<or> contains_key hs ''cookie'' \<or> has_auth"

section \<open>Early data\<close>

definition too_early_response :: "string \<Rightarrow> http_response" where
  "too_early_response body = \<lparr>re_status = 425, re_headers = [(''retry-after'', ''0'')], re_body = body\<rparr>"

definition validate_early_data ::
    "http_env \<Rightarrow> anti_replay \<Rightarrow> request \<Rightarrow> request_info \<Rightarrow> instant \<Rightarrow> http_response option \<times> request \<times> anti_replay" where
  "validate_early_data h ar rq info now =
     (if \<not> ri_early_data info then (None, rq\<lparr>rq_headers := hremove (rq_headers rq) EARLY_DATA_HEADER\<rparr>, ar)
      else
        let path_and_query = (case rq_path_and_query rq of None \<Rightarrow> [] | Some pq \<Rightarrow> pq);
            (fresh, ar') = check_and_record ar (ri_remote info) (rq_method rq) path_and_query now
        in if \<not> fresh then (Some (too_early_response (''425 Too Early (Replay Detected)'' @ [CHR 0x0a])), rq, ar')
           else if \<not> is_safe_http_method (rq_method rq)
           then (Some (too_early_response (''425 Too Early (Unsafe Method in Early Data)'' @ [CHR 0x0a])), rq, ar')
           else (None, rq\<lparr>rq_headers := insert_str h (rq_headers rq) EARLY_DATA_HEADER EARLY_DATA_VALUE\<rparr>, ar'))"

section \<open>Answers of the proxy itself\<close>

record maintenance_config =
  mc_enabled :: bool
  mc_status :: nat
  mc_body :: string
  mc_retry_after :: "nat option"

definition is_html_body :: "string \<Rightarrow> string \<Rightarrow> bool" where
  "is_html_body body body_str \<longleftrightarrow>
     starts_with ''<!DOCTYPE'' body \<or> starts_with ''<html'' body \<or> sublist ''</html>'' body_str"

definition DEFAULT_MAINTENANCE_BODY :: string where
  "DEFAULT_MAINTENANCE_BODY = concat (map (\<lambda>l. l @ [CHR 0x0a])
     [''<!DOCTYPE html>'',
      ''<html lang='' @ [CHR 0x22] @ ''en'' @ [CHR 0x22] @ ''>'',
      ''<head>'',
      ''  <meta charset='' @ [CHR 0x22] @ ''utf-8'' @ [CHR 0x22] @ ''>'',
      ''  <meta name='' @ [CHR 0x22] @ ''viewport'' @ [CHR 0x22] @ '' content='' @ [CHR 0x22] @ ''width=device-width, initial-scale=1'' @ [CHR 0x22] @ ''>'',
      ''  <title>Under Maintenance</title>'',
      ''  <style>'',
      ''    body { font-family: -apple-system, BlinkMacSystemFont, '' @ [CHR 0x22] @ ''Segoe UI'' @ [CHR 0x22] @ '', Roboto, sans-serif; background: #0f172a; color: #f8fafc; display: flex; align-items: center; justify-content: center; height: 100vh; margin: 0; padding: 1rem; box-sizing: border-box; }'',
      ''    .card { background: #1e293b; border: 1px solid #334155; border-radius: 0.75rem; padding: 2.5rem; max-width: 32rem; text-align: center; box-shadow: 0 10px 25px rgba(0,0,0,0.5); }'',
      ''    h1 { font-size: 1.5rem; margin-top: 0; margin-bottom: 0.75rem; color: #f1f5f9; }'',
      ''    p { font-size: 0.95rem; line-height: 1.5; color: #94a3b8; margin: 0; }'',
      ''  </style>'',
      ''</head>'',
      ''<body>'',
      ''  <div class='' @ [CHR 0x22] @ ''card'' @ [CHR 0x22] @ ''>'',
      ''    <h1>Under Maintenance</h1>'',
      ''    <p>This service is temporarily undergoing scheduled maintenance. Please check back shortly.</p>'',
      ''  </div>'',
      ''</body>'',
      ''</html>''])"

definition maintenance_response :: "http_env \<Rightarrow> maintenance_config \<Rightarrow> http_response" where
  "maintenance_response h m =
     (let status = (if 100 \<le> mc_status m \<and> mc_status m \<le> 999 then mc_status m else 503);
          body = (if mc_body m = [] then DEFAULT_MAINTENANCE_BODY else mc_body m);
          content_type = (if is_html_body body (mc_body m) then ''text/html; charset=utf-8'' else ''text/plain; charset=utf-8'');
          hs = hinsert [] ''content-type'' content_type
      in \<lparr>re_status = status,
          re_headers = (case mc_retry_after m of None \<Rightarrow> hs | Some n \<Rightarrow> insert_str h hs ''retry-after'' (to_radix 10 n)),
          re_body = body\<rparr>)"

record compression_dictionary =
  cd_id :: string
  cd_match_pattern :: string
  cd_path :: string
  cd_raw_data :: string
  cd_sha256_sf :: string

definition dictionary_response :: "http_env \<Rightarrow> compression_dictionary \<Rightarrow> string \<Rightarrow> http_response" where
  "dictionary_response h d method =
     (let hs1 = hinsert (hinsert (hinsert [] ''content-type'' ''application/octet-stream'')
              ''cache-control'' ''public, max-age=31536000, immutable'')
              ''content-length'' (to_radix 10 (length (cd_raw_data d)));
          hs2 = insert_str h hs1 ''use-as-dictionary''
              (''match='' @ [CHR 0x22] @ cd_match_pattern d @ [CHR 0x22] @ '', id='' @ [CHR 0x22] @ cd_id d @ [CHR 0x22]);
          clean_hash = trim_end_matches (\<lambda>c. c = CHR '':'') (trim_start_matches (\<lambda>c. c = CHR '':'') (cd_sha256_sf d));
          hs3 = insert_str h hs2 ''etag'' ([CHR 0x22] @ clean_hash @ [CHR 0x22])
      in \<lparr>re_status = 200, re_headers = hs3, re_body = (if method = ''HEAD'' then [] else cd_raw_data d)\<rparr>)"

definition check_dictionary_request ::
    "http_env \<Rightarrow> compression_dictionary list option \<Rightarrow> request \<Rightarrow> http_response option" where
  "check_dictionary_request h compression rq =
     (case compression of
        None \<Rightarrow> None
      | Some dictionaries \<Rightarrow>
          if rq_method rq \<noteq> ''GET'' \<and> rq_method rq \<noteq> ''HEAD'' then None
          else case List.find (\<lambda>d. cd_path d = rq_path rq) dictionaries of
              None \<Rightarrow> None
            | Some d \<Rightarrow> Some (dictionary_response h d (rq_method rq)))"

definition is_loopback :: "ip_addr \<Rightarrow> bool" where
  "is_loopback ip = (case ip of V4 a \<Rightarrow> drop_bit 24 a = 127 | V6 a \<Rightarrow> a = 1)"

definition is_purge_authorized :: "bool \<Rightarrow> client_addr \<Rightarrow> bool" where
  "is_purge_authorized has_auth client \<longleftrightarrow>
     is_loopback (ca_peer client) \<or> is_loopback (ca_ip client) \<or> ca_trusted_peer client \<or> has_auth"

text \<open>The keys that the iterator of the cache yields are \<open>keys\<close>.\<close>

definition handle_purge_request ::
    "(http_cache \<Rightarrow> string list) \<Rightarrow> bool \<Rightarrow> http_cache option \<Rightarrow> request \<Rightarrow> client_addr \<Rightarrow>
     (nat \<times> string) \<times> http_cache option" where
  "handle_purge_request keys has_auth cache rq client =
     (if \<not> is_purge_authorized has_auth client
      then ((403, ''Forbidden: cache purge requires authentication or trusted client IP'' @ [CHR 0x0a]), cache)
      else case cache of
          Some c \<Rightarrow>
            let path = (case rq_path_and_query rq of None \<Rightarrow> ''/'' | Some p \<Rightarrow> p);
                count = length (filter (purge_matches (str_trim path)) (keys c))
            in ((200, ''Purged '' @ to_radix 10 count @ '' entries matching '' @ uri_text (rq_uri rq) @ [CHR 0x0a]),
                Some (cache_purge_path c path))
        | None \<Rightarrow> ((400, ''Cache is not enabled for this proxy'' @ [CHR 0x0a]), None))"

definition build_purge_response :: "nat \<Rightarrow> string \<Rightarrow> http_response" where
  "build_purge_response status msg =
     \<lparr>re_status = status, re_headers = [(''content-type'', ''text/plain; charset=utf-8'')], re_body = msg\<rparr>"

section \<open>The scan of the bot blocker\<close>

lemma lower_window: "to_ascii_lowercase (take n (drop i s)) = take n (drop i (to_ascii_lowercase s))"
  by (simp add: to_ascii_lowercase_def take_map drop_map)

lemma contains_ignore_case_sublist:
  "contains_ignore_case haystack needle \<longleftrightarrow> sublist (to_ascii_lowercase needle) (to_ascii_lowercase haystack)"
proof (cases "needle = []")
  case True
  then show ?thesis by (simp add: contains_ignore_case_def to_ascii_lowercase_def)
next
  case False
  let ?n = "to_ascii_lowercase needle" and ?h = "to_ascii_lowercase haystack"
  have "contains_ignore_case haystack needle \<longleftrightarrow>
      (\<exists>i < length haystack + 1 - length needle. take (length needle) (drop i ?h) = ?n)"
    using False by (auto simp: contains_ignore_case_def windows_def eq_ignore_ascii_case_def lower_window list_ex_iff)
  also have "\<dots> \<longleftrightarrow> sublist ?n ?h"
  proof
    assume "\<exists>i < length haystack + 1 - length needle. take (length needle) (drop i ?h) = ?n"
    then obtain i where "take (length needle) (drop i ?h) = ?n" by blast
    then have "?h = take i ?h @ ?n @ drop (length needle) (drop i ?h)" by (metis append_take_drop_id)
    then show "sublist ?n ?h" by (metis sublist_appendI)
  next
    assume "sublist ?n ?h"
    then obtain ps ss where h: "?h = ps @ ?n @ ss" by (auto simp: sublist_def)
    then have "length haystack = length ps + length needle + length ss"
      by (metis add.assoc length_append length_to_ascii_lowercase)
    moreover have "take (length needle) (drop (length ps) ?h) = ?n"
      using length_to_ascii_lowercase [of needle] by (simp add: h del: length_to_ascii_lowercase)
    ultimately show "\<exists>i < length haystack + 1 - length needle. take (length needle) (drop i ?h) = ?n"
      by (intro exI [of _ "length ps"]) simp
  qed
  finally show ?thesis .
qed

text \<open>
  The scan of the bot blocker, which compares windows of the user agent without copying it, finds exactly
  the user agents whose lower-case form holds one of the signatures; a signature shorter or longer than the
  user agent, at its very start or end, in any letter case, makes no difference.
\<close>

theorem bot_scan_is_substring_search:
  "is_bot_or_ai_scraper user_agent \<longleftrightarrow> list_ex (\<lambda>sig. sublist sig (to_ascii_lowercase user_agent)) BOT_SIGNATURES"
proof -
  have "\<forall>sig \<in> set BOT_SIGNATURES. to_ascii_lowercase sig = sig" unfolding BOT_SIGNATURES_def by code_simp
  then show ?thesis by (auto simp: is_bot_or_ai_scraper_def list_ex_iff contains_ignore_case_sublist)
qed

end
