(* ===== verification/Pipeline.thy ===== *)
theory Pipeline
  imports Request_Checks Rate Request_Limits
begin

text \<open>
  The request pipeline of an HTTP port: \<open>route_request\<close> of \<open>proxy/http/mod.rs\<close> and the functions that it calls.
  A request is matched to a route, checked against the policies of the route in a fixed order, and prepared for
  the upstream server; every check can end it with an answer or an error.

  The record of a route extends the one of the router.  What a route shares with other requests (rate and
  concurrency limiters, upstream groups, caches) lives in the \<open>world\<close>, under the number that the route holds;
  the requests that run while a request waits for its authentication are \<open>px_meanwhile\<close>.  The authenticators
  (\<open>auth/\<close>), the parts of URIs that the \<open>http\<close> crate parses, clocks and random numbers are fields of
  \<open>pipe_env\<close>.  Log messages are left out.
\<close>

section \<open>Routes and the world\<close>

record route_upstream =
  ru_upstream :: upstream
  ru_max_body_size :: nat
  ru_group :: nat

record compiled_header_rules =
  ch_request :: "compiled_rule list"
  ch_response :: "compiled_rule list"

record ('n, 'a) http_route = filtered_route +
  hr_resource_id :: string
  hr_metric_key :: "string option"
  hr_route_path :: string
  hr_https_port :: "nat option"
  hr_quic_port :: "nat option"
  hr_upgrade_insecure :: bool
  hr_redirects :: "redirect_rule list"
  hr_client_ip :: "'n client_ip_resolver"
  hr_ip_filter :: "'n ip_filter"
  hr_rate_limiter :: "nat option"
  hr_concurrency :: "(concurrency_limit \<times> nat) option"
  hr_auth :: "'a option"
  hr_header_rules :: compiled_header_rules
  hr_compression :: "compression_dictionary list option"
  hr_cache :: "nat option"
  hr_h2c :: bool
  hr_upstream :: "route_upstream option"
  hr_response :: "fixed_response option"
  hr_maintenance :: maintenance_config
  hr_require_client_cert :: bool
  hr_geoip :: "ip_addr \<Rightarrow> string option"
  hr_bot_blocker :: bool
  hr_grpc_web :: bool
  hr_stream_priority :: stream_priority_config

record 'g world =
  pw_replay :: anti_replay
  pw_share :: rate_share
  pw_limiters :: "nat \<Rightarrow> 'g client_rate_limiter"
  pw_conc :: "nat \<Rightarrow> active_map"
  pw_groups :: "nat \<Rightarrow> upstream_state"
  pw_streams :: stream_controller
  pw_caches :: "nat \<Rightarrow> http_cache"
  pw_counted :: "string list"
  pw_bypassed :: nat

record auth_context =
  ac_client :: ip_addr
  ac_peer :: ip_addr
  ac_host :: "string option"
  ac_proto :: string
  ac_base_path :: string
  ac_path_segments :: "string list"
  ac_vhosts :: "virtual_host list"

datatype auth_rejection = RejectError proxy_error | RejectResponse http_response

record ('q, 'g, 'n, 'a) pipe_env =
  px_pool :: pool_env
  px_host :: host_env
  px_net :: "'n net_env"
  px_cdn :: "'n cdn_table"
  px_governor :: "('q, 'g) governor_env"
  px_url :: "string \<Rightarrow> (string \<times> string option) option"
  px_set_path :: "uri \<Rightarrow> string \<Rightarrow> uri option"
  px_path_and_query :: "uri \<Rightarrow> string option"
  px_https_uri :: "string \<Rightarrow> nat \<Rightarrow> string option \<Rightarrow> string option"
  px_serve :: "'a \<Rightarrow> request \<Rightarrow> auth_context \<Rightarrow> http_response + request"
  px_authorize :: "'a \<Rightarrow> request \<Rightarrow> auth_context \<Rightarrow> auth_rejection + request"
  px_meanwhile :: "'g world \<Rightarrow> 'g world"
  px_cache_keys :: "http_cache \<Rightarrow> string list"
  px_replay_now :: instant
  px_rate_now :: instant
  px_rate_ms :: nat
  px_select_now :: instant
  px_trace_random :: nat
  px_span_random :: nat
  px_set_via :: "string option"

abbreviation px_http :: "('q, 'g, 'n, 'a, 'z) pipe_env_scheme \<Rightarrow> http_env" where
  "px_http e \<equiv> pl_http (px_pool e)"

abbreviation px_origin :: "('q, 'g, 'n, 'a, 'z) pipe_env_scheme \<Rightarrow> origin_env" where
  "px_origin e \<equiv> \<lparr>ow_http = px_http e, ow_host = px_host e, ow_url = px_url e\<rparr>"

section \<open>What a request becomes\<close>

record upstream_call =
  uc_req :: up_request
  uc_target :: "upstream_target option"
  uc_h2c :: bool
  uc_cache_request :: "cache_request option"
  uc_guard :: "string option"
  uc_stream_permit :: "bool option"

datatype proxied_request = ProxiedOk upstream_call | ProxiedErr proxy_error | ProxiedRespond http_response

text \<open>The settings of the response rewriter; its language, theme and compression are left out.\<close>

record response_rewriter =
  rb_https_port :: "nat option"
  rb_quic_port :: "nat option"
  rb_header_rules :: "(compiled_rule list \<times> header_variables) option"
  rb_error_pages :: "custom_error_page list"
  rb_hide_branding :: bool
  rb_grpc_web :: "string option option"
  rb_variables :: "header_variables option"

definition rewriter_builder :: response_rewriter where
  "rewriter_builder = \<lparr>rb_https_port = None, rb_quic_port = None, rb_header_rules = None, rb_error_pages = [],
     rb_hide_branding = False, rb_grpc_web = None, rb_variables = None\<rparr>"

record route_outcome =
  ro_proxied :: proxied_request
  ro_rewriter :: response_rewriter
  ro_resource_id :: "string option"
  ro_route_path :: "string option"
  ro_client :: ip_addr

definition configure_response_rewriter :: "response_rewriter \<Rightarrow> ('n, 'a, 'z) http_route_scheme \<Rightarrow> response_rewriter" where
  "configure_response_rewriter b route =
     b\<lparr>rb_https_port := hr_https_port route, rb_quic_port := hr_quic_port route,
       rb_error_pages := fr_error_pages route, rb_hide_branding := fr_hide_branding route\<rparr>"

section \<open>Policies\<close>

text \<open>A limiter that refuses gives the time to wait.\<close>

definition check_rate ::
    "('q, 'g, 'n, 'a) pipe_env \<Rightarrow> 'g world \<Rightarrow> ('n, 'a) http_route \<Rightarrow> ip_addr \<Rightarrow> duration option \<times> 'g world" where
  "check_rate e w route client =
     (case hr_rate_limiter route of
        None \<Rightarrow> (None, w)
      | Some i \<Rightarrow>
          let (r, l) = rate_check (px_governor e) (pw_share w) (pw_limiters w i) client (px_rate_now e) (px_rate_ms e)
          in (r, w\<lparr>pw_limiters := (pw_limiters w)(i := l)\<rparr>))"

definition check_policies ::
    "('q, 'g, 'n, 'a) pipe_env \<Rightarrow> 'g world \<Rightarrow> ('n, 'a) http_route \<Rightarrow> ip_addr \<Rightarrow> client_cert_info option \<Rightarrow>
     (proxy_error + route_upstream) \<times> 'g world" where
  "check_policies e w route client cert =
     (let f = hr_ip_filter route;
          country = (if if_allow_countries f \<noteq> [] \<or> if_deny_countries f \<noteq> [] then hr_geoip route client else None)
      in if \<not> allows_with_country (px_net e) f client country then (Inl IpNotAllowed, w)
         else if hr_require_client_cert route \<and> cert = None then (Inl ClientCertRequired, w)
         else case check_rate e w route client of
             (Some retry_after, w') \<Rightarrow> (Inl (TooManyRequests retry_after), w')
           | (None, w') \<Rightarrow>
               (case hr_upstream route of
                  None \<Rightarrow> (Inl UpstreamClientCertInvalid, w')
                | Some up \<Rightarrow> (Inr up, w')))"

definition is_valid_vhost_target :: "host_env \<Rightarrow> string \<Rightarrow> virtual_host list \<Rightarrow> bool" where
  "is_valid_vhost_target e host_str vhosts =
     (let clean = host_clean host_str in
      if clean = [] then False
      else if vhosts \<noteq> [] then list_ex (\<lambda>vhost. vhost_test e vhost clean) vhosts
      else is_local_or_ip clean)"

definition upgrade_redirect ::
    "('q, 'g, 'n, 'a) pipe_env \<Rightarrow> ('n, 'a) http_route \<Rightarrow> request \<Rightarrow> string option \<Rightarrow> string \<Rightarrow> http_response option" where
  "upgrade_redirect e route rq hdr proto =
     (if proto \<noteq> ''http'' \<or> \<not> hr_upgrade_insecure route then None
      else case hdr of
          None \<Rightarrow> None
        | Some host_str \<Rightarrow>
            if \<not> is_valid_vhost_target (px_host e) host_str (rf_vhosts (fr_filter route)) then None
            else case hr_https_port route of
                None \<Rightarrow> None
              | Some port \<Rightarrow>
                  map_option (\<lambda>u. \<lparr>re_status = 301, re_headers = [(''location'', u)], re_body = []\<rparr>)
                    (px_https_uri e host_str port (rq_path_and_query rq)))"

definition redirect_of ::
    "('q, 'g, 'n, 'a) pipe_env \<Rightarrow> ('n, 'a) http_route \<Rightarrow> request \<Rightarrow> string option \<Rightarrow> string option \<Rightarrow> string \<Rightarrow>
     http_response option" where
  "redirect_of e route rq hdr host proto =
     (case upgrade_redirect e route rq hdr proto of
        Some r \<Rightarrow> Some r
      | None \<Rightarrow>
          map_option (\<lambda>(status, location). \<lparr>re_status = status, re_headers = [(''location'', location)], re_body = []\<rparr>)
            (redirect_response_of (pl_regex (px_pool e)) (hr_redirects route) host (rq_path_and_query rq)))"

datatype early_exit = ExitRespond http_response | ExitErr proxy_error

definition check_route_access ::
    "('q, 'g, 'n, 'a) pipe_env \<Rightarrow> 'g world \<Rightarrow> ('n, 'a) http_route \<Rightarrow> request \<Rightarrow> client_addr \<Rightarrow> request_info \<Rightarrow>
     string option \<Rightarrow> string option \<Rightarrow> (early_exit + route_upstream) \<times> 'g world" where
  "check_route_access e w route rq client info hdr host =
     (if mc_enabled (hr_maintenance route)
      then (Inl (ExitRespond (maintenance_response (px_http e) (hr_maintenance route))), w)
      else case check_dictionary_request (px_http e) (hr_compression route) rq of
          Some response \<Rightarrow> (Inl (ExitRespond response), w)
        | None \<Rightarrow>
            if hr_bot_blocker route \<and> is_bot_request (px_http e) (rq_headers rq) then (Inl (ExitErr BotBlocked), w)
            else case check_policies e w route (ca_ip client) (ri_client_cert info) of
                (Inl err, w') \<Rightarrow> (Inl (ExitErr err), w')
              | (Inr up, w') \<Rightarrow>
                  (case redirect_of e route rq hdr host (ri_proto info) of
                     Some redirect \<Rightarrow> (Inl (ExitRespond redirect), w')
                   | None \<Rightarrow>
                       if declared_too_large (px_http e) (rq_headers rq) (ru_max_body_size up)
                       then (Inl (ExitErr PayloadTooLarge), w')
                       else (Inr up, w')))"

definition acquire_concurrency ::
    "http_env \<Rightarrow> 'g world \<Rightarrow> ('n, 'a) http_route \<Rightarrow> headers \<Rightarrow> ip_addr \<Rightarrow>
     (proxy_error + string option) \<times> 'g world" where
  "acquire_concurrency h w route hs client =
     (case hr_concurrency route of
        None \<Rightarrow> (Inr None, w)
      | Some (limit, i) \<Rightarrow>
          (case conc_acquire h limit (pw_conc w i) hs client of
             (Inl err, m) \<Rightarrow> (Inl err, w\<lparr>pw_conc := (pw_conc w)(i := m)\<rparr>)
           | (Inr key, m) \<Rightarrow> (Inr (Some key), w\<lparr>pw_conc := (pw_conc w)(i := m)\<rparr>)))"

text \<open>The guard of a request that ends before it is sent is dropped.\<close>

definition drop_guard :: "'g world \<Rightarrow> ('n, 'a) http_route \<Rightarrow> string option \<Rightarrow> 'g world" where
  "drop_guard w route guard =
     (case (hr_concurrency route, guard) of
        (Some (_, i), Some key) \<Rightarrow> w\<lparr>pw_conc := (pw_conc w)(i := conc_drop key (pw_conc w i))\<rparr>
      | _ \<Rightarrow> w)"

section \<open>Authentication\<close>

datatype authenticated = AuthPass request | AuthRespond http_response | AuthRejected auth_rejection

definition authenticate ::
    "('q, 'g, 'n, 'a) pipe_env \<Rightarrow> ('n, 'a) http_route \<Rightarrow> request \<Rightarrow> auth_context \<Rightarrow> authenticated" where
  "authenticate e route rq ctx =
     (case hr_auth route of
        None \<Rightarrow> AuthPass rq
      | Some auth \<Rightarrow>
          (case px_serve e auth rq ctx of
             Inl response \<Rightarrow> AuthRespond response
           | Inr rq' \<Rightarrow>
               (case px_authorize e auth rq' ctx of
                  Inl rejection \<Rightarrow> AuthRejected rejection
                | Inr rq'' \<Rightarrow> AuthPass rq'')))"

definition rejected :: "auth_rejection \<Rightarrow> proxied_request" where
  "rejected r = (case r of RejectError err \<Rightarrow> ProxiedErr err | RejectResponse res \<Rightarrow> ProxiedRespond res)"

definition authenticate_request ::
    "('q, 'g, 'n, 'a) pipe_env \<Rightarrow> ('n, 'a) http_route \<Rightarrow> request \<Rightarrow> auth_context \<Rightarrow> proxied_request + request" where
  "authenticate_request e route rq ctx =
     (case authenticate e route rq ctx of
        AuthPass rq' \<Rightarrow> Inr rq'
      | AuthRespond response \<Rightarrow> Inl (ProxiedRespond response)
      | AuthRejected rejection \<Rightarrow> Inl (rejected rejection))"

section \<open>Answers after the authentication\<close>

definition answer_response :: "fixed_answer \<Rightarrow> http_response" where
  "answer_response a =
     \<lparr>re_status = fa_status a,
      re_headers = (case fa_location a of None \<Rightarrow> [] | Some l \<Rightarrow> [(''location'', l)]) @
        (case fa_content_type a of None \<Rightarrow> [] | Some c \<Rightarrow> [(''content-type'', c)]),
      re_body = fa_body a\<rparr>"

definition handle_purge_or_fixed ::
    "('q, 'g, 'n, 'a) pipe_env \<Rightarrow> 'g world \<Rightarrow> ('n, 'a) http_route \<Rightarrow> request \<Rightarrow> client_addr \<Rightarrow>
     http_response option \<times> 'g world" where
  "handle_purge_or_fixed e w route rq client =
     (case hr_cache route of
        Some i \<Rightarrow>
          if rq_method rq = ''PURGE''
          then let ((status, msg), c) =
                 handle_purge_request (px_cache_keys e) (hr_auth route \<noteq> None) (Some (pw_caches w i)) rq client
            in (Some (build_purge_response status msg), w\<lparr>pw_caches := (pw_caches w)(i := the c)\<rparr>)
          else (map_option (\<lambda>r. answer_response (fixed_respond (pl_regex (px_pool e)) r (rq_path_and_query rq))) (hr_response route), w)
      | None \<Rightarrow>
          (map_option (\<lambda>r. answer_response (fixed_respond (pl_regex (px_pool e)) r (rq_path_and_query rq))) (hr_response route), w))"

definition check_post_auth_early_response ::
    "('q, 'g, 'n, 'a) pipe_env \<Rightarrow> 'g world \<Rightarrow> ('n, 'a) http_route \<Rightarrow> request \<Rightarrow> string option \<Rightarrow> client_addr \<Rightarrow>
     http_response option \<times> 'g world" where
  "check_post_auth_early_response e w route rq host client =
     (if hr_grpc_web route \<and> is_grpc_web_preflight (px_http e) (rq_method rq) (rq_headers rq)
      then (Some (cors_preflight_response (px_origin e) (rq_headers rq) (rf_vhosts (fr_filter route)) host), w)
      else handle_purge_or_fixed e w route rq client)"

section \<open>The request for the upstream server\<close>

definition oidc_cookie :: string where "oidc_cookie = ''r3v3rs3_oidc''"
definition oidc_state_cookie :: string where "oidc_state_cookie = ''r3v3rs3_oidc_state''"
definition session_cookie :: string where "session_cookie = ''r3v3rs3_session''"

definition remove_oidc_cookie :: "http_env \<Rightarrow> headers \<Rightarrow> headers" where
  "remove_oidc_cookie h hs = remove_cookie h (remove_cookie h hs oidc_cookie) oidc_state_cookie"

definition remove_session_cookie :: "http_env \<Rightarrow> headers \<Rightarrow> headers" where
  "remove_session_cookie h hs = remove_cookie h hs session_cookie"

definition remove_auth_cookies :: "http_env \<Rightarrow> headers \<Rightarrow> headers" where
  "remove_auth_cookies h hs = remove_session_cookie h (remove_oidc_cookie h hs)"

definition apply_stream_priority ::
    "('q, 'g, 'n, 'a) pipe_env \<Rightarrow> 'g world \<Rightarrow> ('n, 'a) http_route \<Rightarrow> up_request \<Rightarrow>
     (proxy_error + bool option) \<times> up_request \<times> 'g world" where
  "apply_stream_priority e w route req =
     (let config = hr_stream_priority route in
      if \<not> sq_enabled config then (Inr None, req, w)
      else
        let h = px_http e;
            path_and_query = (case px_path_and_query e (uq_uri req) of None \<Rightarrow> ''/'' | Some p \<Rightarrow> p);
            prio = resolve_stream_priority (get_str h (uq_headers req) ''priority'') path_and_query
              (get_str h (uq_headers req) ''content-type'') config;
            c1 = record_stream_request (pw_streams w) prio;
            (throttled, c2) = (if sq_adaptive_concurrency config \<and> is_background prio
              then should_throttle_background c1 DEFAULT_MAX_BACKGROUND_CONCURRENCY else (False, c1))
        in if throttled then (Inl TooManyConcurrentRequests, req, w\<lparr>pw_streams := c2\<rparr>)
           else
             let req' = (if sq_inject_header config
                   then req\<lparr>uq_headers := insert_str h (uq_headers req) ''priority'' (to_header_value prio)\<rparr> else req);
                 (permit, c3) = acquire_permit c2 prio
             in (Inr (Some permit), req', w\<lparr>pw_streams := c3\<rparr>))"

definition header_variables_of ::
    "ip_addr \<Rightarrow> string option \<Rightarrow> request_info \<Rightarrow> string \<Rightarrow> string \<Rightarrow> header_variables" where
  "header_variables_of client host info request_id route =
     (let cert = (case ri_client_cert info of None \<Rightarrow> \<lparr>ci_subject = [], ci_fingerprint = []\<rparr> | Some c \<Rightarrow> c)
      in \<lparr>hv_client_ip = client, hv_host = (case host of None \<Rightarrow> [] | Some h \<Rightarrow> h),
          hv_scheme = (if ri_proto info = ''http'' then ''http'' else ''https''), hv_request_id = request_id,
          hv_route = route, hv_client_cert_subject = ci_subject cert, hv_client_cert_fingerprint = ci_fingerprint cert\<rparr>)"

definition apply_header_rules ::
    "('q, 'g, 'n, 'a) pipe_env \<Rightarrow> ('n, 'a) http_route \<Rightarrow> headers \<Rightarrow> ip_addr \<Rightarrow> string option \<Rightarrow> request_info \<Rightarrow>
     response_rewriter \<Rightarrow> headers \<times> response_rewriter" where
  "apply_header_rules e route hs client host info rw =
     (let (request_id, hs1) = extract_and_propagate_trace_context (px_http e) hs (px_trace_random e) (px_span_random e);
          variables = header_variables_of client host info request_id
            (if fr_base_path route = [] then ''/'' else fr_base_path route);
          rules = hr_header_rules route
      in if ch_request rules = [] \<and> ch_response rules = []
         then (hs1, rw\<lparr>rb_variables := Some variables\<rparr>)
         else (apply_rules (px_http e) (ch_request rules) hs1 variables,
               rw\<lparr>rb_header_rules := Some (ch_response rules, variables), rb_variables := Some variables\<rparr>))"

text \<open>The headers that go upstream, from those of the selected request.\<close>

definition upstream_headers ::
    "('q, 'g, 'n, 'a) pipe_env \<Rightarrow> string \<Rightarrow> headers \<Rightarrow> client_addr \<Rightarrow> string option \<Rightarrow> string \<Rightarrow> headers" where
  "upstream_headers e method hs client host proto =
     post_process (px_set_via e)
       (pre_process (px_http e) (remove_hop_by_hop_headers (px_http e) (remove_auth_cookies (px_http e) hs) method)
          client host proto)"

record prepared_request =
  pr_segments :: "string list"
  pr_client :: client_addr
  pr_host :: "string option"
  pr_cache_key :: string
  pr_authorized :: bool
  pr_guard :: "string option"

definition to_up_request :: "request \<Rightarrow> up_request" where
  "to_up_request rq = \<lparr>uq_method = rq_method rq, uq_uri = rq_uri rq, uq_query = rq_query rq,
     uq_headers = rq_headers rq, uq_body_size = rq_body_size rq\<rparr>"

text \<open>The headers of a gRPC-Web request, and the origin that its answer allows.\<close>

definition translate_grpc_web ::
    "('q, 'g, 'n, 'a) pipe_env \<Rightarrow> ('n, 'a) http_route \<Rightarrow> up_request \<Rightarrow> string option \<Rightarrow> response_rewriter \<Rightarrow>
     up_request \<times> response_rewriter" where
  "translate_grpc_web e route req host rw =
     (if hr_grpc_web route \<and> is_grpc_web_request (px_http e) (uq_headers req)
      then let origin = (case get_str (px_http e) (uq_headers req) ''origin'' of
                 None \<Rightarrow> None
               | Some o' \<Rightarrow> if is_allowed_origin (px_origin e) o' (rf_vhosts (fr_filter route)) host then Some o' else None)
        in (req\<lparr>uq_headers := prepare_grpc_request (px_http e) (uq_headers req)\<rparr>, rw\<lparr>rb_grpc_web := Some origin\<rparr>)
      else (req, rw))"

definition prepare_upstream_request ::
    "('q, 'g, 'n, 'a) pipe_env \<Rightarrow> 'g world \<Rightarrow> ('n, 'a) http_route \<Rightarrow> request \<Rightarrow> route_upstream \<Rightarrow> request_info \<Rightarrow>
     prepared_request \<Rightarrow> response_rewriter \<Rightarrow> proxied_request \<times> response_rewriter \<times> 'g world" where
  "prepare_upstream_request e w route rq up info p rw =
     (let secure = ri_proto info \<noteq> ''http'';
          (selected, us) = select (px_pool e) (ru_upstream up) (pw_groups w (ru_group up)) (to_up_request rq)
            (pr_segments p) (ca_ip (pr_client p)) secure (px_select_now e);
          w1 = w\<lparr>pw_groups := (pw_groups w)(ru_group up := us)\<rparr>
      in case selected of
           Inl err \<Rightarrow> (ProxiedErr err, rw, drop_guard w1 route (pr_guard p))
         | Inr (tgt, req1) \<Rightarrow>
             let (req2, rw1) = translate_grpc_web e route req1 (pr_host p) rw
             in case apply_stream_priority e w1 route req2 of
                  (Inl err, _, w2) \<Rightarrow> (ProxiedErr err, rw1, drop_guard w2 route (pr_guard p))
                | (Inr permit, req3, w2) \<Rightarrow>
                    let hs1 = upstream_headers e (uq_method req3) (uq_headers req3) (pr_client p) (pr_host p) (ri_proto info);
                        (hs2, rw2) = apply_header_rules e route hs1 (ca_ip (pr_client p)) (pr_host p) info rw1;
                        cached = (case hr_cache route of
                            None \<Rightarrow> None
                          | Some _ \<Rightarrow> cache_request_new (px_http e) (uq_method req3) hs2 (pr_cache_key p) (pr_authorized p));
                        hs3 = (case cached of None \<Rightarrow> hs2 | Some (_, hs) \<Rightarrow> hs);
                        bypass = (hr_cache route \<noteq> None \<and> (case cached of None \<Rightarrow> True | Some (q, _) \<Rightarrow> cq_unsafe q));
                        w3 = (if bypass then w2\<lparr>pw_bypassed := pw_bypassed w2 + 1\<rparr> else w2)
                    in (ProxiedOk \<lparr>uc_req = req3\<lparr>uq_headers := hs3\<rparr>, uc_target = tgt,
                          uc_h2c = (hr_h2c route \<or> hr_grpc_web route), uc_cache_request = map_option fst cached,
                          uc_guard = pr_guard p, uc_stream_permit = permit\<rparr>, rw2, w3))"

section \<open>Routing a request\<close>

definition no_route_fallback ::
    "('q, 'g, 'n, 'a) pipe_env \<Rightarrow> ('n, 'a) http_route list \<Rightarrow> request_info \<Rightarrow> string option \<Rightarrow> headers \<Rightarrow> route_outcome" where
  "no_route_fallback e routes info host hs =
     \<lparr>ro_proxied = ProxiedErr NoRouteFound,
      ro_rewriter = rewriter_builder\<lparr>rb_error_pages := find_error_pages (px_host e) routes host,
        rb_hide_branding := is_branding_hidden (px_host e) routes host,
        rb_variables := Some (header_variables_of (ri_remote info) host info
          (resolve_request_id (px_http e) hs (px_trace_random e)) [])\<rparr>,
      ro_resource_id = None, ro_route_path = None, ro_client = ri_remote info\<rparr>"

definition cache_key_of :: "request_info \<Rightarrow> string option \<Rightarrow> request \<Rightarrow> string" where
  "cache_key_of info host rq =
     ri_proto info @ '' '' @ (case host of None \<Rightarrow> [] | Some h \<Rightarrow> h) @ '' '' @
     (case rq_path_and_query rq of None \<Rightarrow> ''/'' | Some p \<Rightarrow> p)"

text \<open>The part of \<open>route_request\<close> after the access checks: the authentication, the answers after it, the
  concurrency limit and the upstream server.\<close>

definition forward_request ::
    "('q, 'g, 'n, 'a) pipe_env \<Rightarrow> 'g world \<Rightarrow> ('n, 'a) http_route \<Rightarrow> request \<Rightarrow> route_upstream \<Rightarrow> request_info \<Rightarrow>
     client_addr \<Rightarrow> string list \<Rightarrow> string option \<Rightarrow> response_rewriter \<Rightarrow>
     proxied_request \<times> response_rewriter \<times> 'g world" where
  "forward_request e w route rq up info client segments host rw =
     (let authorized = is_authorized_request_headers (rq_headers rq) (hr_auth route \<noteq> None);
          ctx = \<lparr>ac_client = ca_ip client, ac_peer = ca_peer client, ac_host = host, ac_proto = ri_proto info,
                 ac_base_path = fr_base_path route, ac_path_segments = segments, ac_vhosts = rf_vhosts (fr_filter route)\<rparr>
      in case authenticate_request e route rq ctx of
           Inl proxied \<Rightarrow> (proxied, rw, px_meanwhile e w)
         | Inr rq1 \<Rightarrow>
             (case check_post_auth_early_response e (px_meanwhile e w) route rq1 host client of
                (Some response, w1) \<Rightarrow> (ProxiedRespond response, rw, w1)
              | (None, w1) \<Rightarrow>
                  if up_servers (ru_upstream up) = [] then (ProxiedErr NoUpstreamServers, rw, w1)
                  else case acquire_concurrency (px_http e) w1 route (rq_headers rq1) (ca_ip client) of
                      (Inl err, w2) \<Rightarrow> (ProxiedErr err, rw, w2)
                    | (Inr guard, w2) \<Rightarrow>
                        prepare_upstream_request e w2 route rq1 up info
                          \<lparr>pr_segments = segments, pr_client = client, pr_host = host,
                           pr_cache_key = cache_key_of info host rq, pr_authorized = authorized, pr_guard = guard\<rparr> rw))"

definition route_request ::
    "('q, 'g, 'n, 'a) pipe_env \<Rightarrow> 'g world \<Rightarrow> ('n, 'a) http_route list \<Rightarrow> request \<Rightarrow> request_info \<Rightarrow>
     route_outcome \<times> 'g world" where
  "route_request e w routes rq0 info =
     (case validate_early_data (px_http e) (pw_replay w) (normalize_request_path (px_set_path e) rq0) info (px_replay_now e) of
        (Some response, _, ar) \<Rightarrow>
          (\<lparr>ro_proxied = ProxiedRespond response, ro_rewriter = rewriter_builder, ro_resource_id = None,
            ro_route_path = None, ro_client = ri_remote info\<rparr>, w\<lparr>pw_replay := ar\<rparr>)
      | (None, rq, ar) \<Rightarrow>
          let w0 = w\<lparr>pw_replay := ar\<rparr>;
              hdr = header_host (px_http e) (rq_headers rq);
              host = request_host rq hdr (ri_sni info)
          in case get_route (px_host e) routes (rq_path rq) host of
               None \<Rightarrow> (no_route_fallback e routes info host (rq_headers rq), w0)
             | Some (segments, route) \<Rightarrow>
                 let rw = configure_response_rewriter rewriter_builder route;
                     w1 = (case hr_metric_key route of None \<Rightarrow> w0 | Some k \<Rightarrow> w0\<lparr>pw_counted := k # pw_counted w0\<rparr>);
                     client = resolve (px_net e) (px_http e) (hr_client_ip route) (ri_remote info) (rq_headers rq) (px_cdn e);
                     (proxied, rw', w') =
                       (case check_route_access e w1 route rq client info hdr host of
                          (Inl (ExitErr err), w2) \<Rightarrow> (ProxiedErr err, rw, w2)
                        | (Inl (ExitRespond response), w2) \<Rightarrow> (ProxiedRespond response, rw, w2)
                        | (Inr up, w2) \<Rightarrow> forward_request e w2 route rq up info client segments host rw)
                 in (\<lparr>ro_proxied = proxied, ro_rewriter = rw', ro_resource_id = Some (hr_resource_id route),
                      ro_route_path = Some (hr_route_path route), ro_client = ca_ip client\<rparr>, w'))"

end
