(* ===== verification/Pipeline_Safety.thy ===== *)
theory Pipeline_Safety
  imports Pipeline
begin

text \<open>
  What the request pipeline guarantees: a request reaches an upstream server only after every check of its
  route, what it carries there, and that a request that ends early holds no slot of a limiter.
\<close>

section \<open>An example\<close>

text \<open>A route with a bot blocker, a rate limiter, a concurrency limit and an authenticator that takes the
  \<open>Authorization\<close> header, and a request that passes all of them.\<close>

definition sample_pipe_env :: "(nat, nat, 32 word, unit) pipe_env" where
  "sample_pipe_env =
     \<lparr>px_pool = sample_pool_env,
      px_host = \<lparr>he_server_name = (\<lambda>_. True), he_regex_ok = (\<lambda>_. False), he_regex_match = (\<lambda>_ _. False)\<rparr>,
      px_net = sample_net_env, px_cdn = sample_cdn_table, px_governor = sample_governor, px_url = (\<lambda>_. None),
      px_set_path = (\<lambda>u pq. Some u), px_path_and_query = uri_authority, px_https_uri = (\<lambda>host port pq. Some host),
      px_serve = (\<lambda>_ rq ctx. Inr rq),
      px_authorize = (\<lambda>_ rq ctx. if contains_key (rq_headers rq) ''authorization''
        then Inr (rq\<lparr>rq_headers := hremove (rq_headers rq) ''authorization''\<rparr>) else Inl (RejectError (Unauthorized ''Basic''))),
      px_meanwhile = (\<lambda>w. w), px_cache_keys = (\<lambda>_. []), px_replay_now = 1, px_rate_now = 1, px_rate_ms = 1,
      px_select_now = 1, px_trace_random = 5, px_span_random = 6, px_set_via = None\<rparr>"

definition sample_route :: "(32 word, unit) http_route" where
  "sample_route =
     \<lparr>fr_filter = \<lparr>rf_vhosts = [], rf_path = []\<rparr>, fr_base_path = [], fr_error_pages = [], fr_hide_branding = False,
      hr_resource_id = ''r'', hr_metric_key = None, hr_route_path = ''/'', hr_https_port = None, hr_quic_port = None,
      hr_upgrade_insecure = False, hr_redirects = [], hr_client_ip = sample_resolver,
      hr_ip_filter = \<lparr>if_allow = [9], if_deny = [], if_allow_countries = [], if_deny_countries = []\<rparr>,
      hr_rate_limiter = Some 0, hr_concurrency = Some (\<lparr>cl_max = 2, cl_header = None\<rparr>, 0), hr_auth = Some (),
      hr_header_rules = \<lparr>ch_request = [], ch_response = []\<rparr>, hr_compression = None, hr_cache = None, hr_h2c = False,
      hr_upstream = Some \<lparr>ru_upstream = sample_upstream, ru_max_body_size = 10, ru_group = 0\<rparr>, hr_response = None,
      hr_maintenance = \<lparr>mc_enabled = False, mc_status = 503, mc_body = [], mc_retry_after = None\<rparr>,
      hr_require_client_cert = False, hr_geoip = (\<lambda>_. None), hr_bot_blocker = True, hr_grpc_web = False,
      hr_stream_priority = stream_priority_config_default\<lparr>sq_enabled := True\<rparr>\<rparr>"

definition sample_world :: "nat world" where
  "sample_world =
     \<lparr>pw_replay = GLOBAL_ANTI_REPLAY, pw_share = rate_share_new 0,
      pw_limiters = (\<lambda>_. \<lparr>rl_config = \<lparr>rt_requests = 5, rt_per = Second, rt_burst = 0\<rparr>, rl_limiter = 0, rl_shared = None\<rparr>),
      pw_conc = (\<lambda>_ _. None), pw_groups = (\<lambda>_. sample_upstream_state), pw_streams = stream_controller_new,
      pw_caches = (\<lambda>_. http_cache_new sample_cache_config None), pw_counted = [], pw_bypassed = 0\<rparr>"

definition sample_pipe_request :: request where
  "sample_pipe_request =
     \<lparr>rq_method = ''GET'', rq_uri = \<lparr>uri_text = ''/a'', uri_authority = None\<rparr>, rq_uri_host = None, rq_path = ''/a'',
      rq_query = None, rq_path_and_query = Some ''/a'',
      rq_headers = [(''host'', ''h''), (''authorization'', ''x''), (''cookie'', ''r3v3rs3_session=s; c=d''), (''te'', ''gzip'')],
      rq_body_size = Some 0\<rparr>"

definition sample_info :: request_info where
  "sample_info = \<lparr>ri_remote = V4 0x09090909, ri_peer = V4 0x09090909, ri_sni = None, ri_proto = ''http'',
     ri_client_cert = None, ri_early_data = False\<rparr>"

definition sample_run :: "route_outcome \<times> nat world" where
  "sample_run = route_request sample_pipe_env sample_world [sample_route] sample_pipe_request sample_info"

definition sample_call :: upstream_call where
  "sample_call = (case ro_proxied (fst sample_run) of ProxiedOk call \<Rightarrow> call)"

lemma sample_forwarded: "case ro_proxied (fst sample_run) of ProxiedOk _ \<Rightarrow> True | _ \<Rightarrow> False"
  by code_simp

lemma sample_run_Ok:
  "route_request sample_pipe_env sample_world [sample_route] sample_pipe_request sample_info = (fst sample_run, snd sample_run)"
  "ro_proxied (fst sample_run) = ProxiedOk sample_call"
  using sample_forwarded by (simp_all add: sample_run_def sample_call_def split: proxied_request.splits)

section \<open>Passing the checks\<close>

lemma get_route_mem: "get_route e routes path host = Some (segments, route) \<Longrightarrow> route \<in> set routes"
proof -
  have "best_route e path host best rs = Some (m, r) \<Longrightarrow> best = Some (m, r) \<or> r \<in> set rs" for best rs m r
  proof (induction rs arbitrary: best)
    case (Cons x rs)
    then show ?case by (auto split: option.splits if_splits dest!: Cons.IH)
  qed simp
  then show "get_route e routes path host = Some (segments, route) \<Longrightarrow> route \<in> set routes"
    by (fastforce simp: get_route_def)
qed

lemma check_policies_Inr:
  assumes "check_policies e w route client cert = (Inr up, w')"
  shows "allows_with_country (px_net e) (hr_ip_filter route) client
      (if if_allow_countries (hr_ip_filter route) \<noteq> [] \<or> if_deny_countries (hr_ip_filter route) \<noteq> []
       then hr_geoip route client else None) \<and>
    (hr_require_client_cert route \<longrightarrow> cert \<noteq> None) \<and>
    check_rate e w route client = (None, w') \<and> hr_upstream route = Some up"
  using assms by (auto simp: check_policies_def Let_def split: if_splits prod.splits option.splits)

lemma check_route_access_Inr:
  assumes "check_route_access e w route rq client info hdr host = (Inr up, w')"
  shows "\<not> mc_enabled (hr_maintenance route) \<and>
    check_dictionary_request (px_http e) (hr_compression route) rq = None \<and>
    \<not> (hr_bot_blocker route \<and> is_bot_request (px_http e) (rq_headers rq)) \<and>
    check_policies e w route (ca_ip client) (ri_client_cert info) = (Inr up, w') \<and>
    redirect_of e route rq hdr host (ri_proto info) = None \<and>
    \<not> declared_too_large (px_http e) (rq_headers rq) (ru_max_body_size up)"
  using assms by (auto simp: check_route_access_def split: if_splits option.splits prod.splits sum.splits)

text \<open>What the authenticator of a route says about a request.\<close>

definition passes_auth ::
    "('q, 'g, 'n, 'a) pipe_env \<Rightarrow> ('n, 'a) http_route \<Rightarrow> request \<Rightarrow> auth_context \<Rightarrow> request \<Rightarrow> bool" where
  "passes_auth e route rq ctx rq' \<longleftrightarrow>
     (case hr_auth route of
        None \<Rightarrow> rq' = rq
      | Some auth \<Rightarrow> (\<exists>rq1. px_serve e auth rq ctx = Inr rq1 \<and> px_authorize e auth rq1 ctx = Inr rq'))"

lemma authenticate_request_Inr: "authenticate_request e route rq ctx = Inr rq' \<Longrightarrow> passes_auth e route rq ctx rq'"
  by (auto simp: authenticate_request_def authenticate_def passes_auth_def rejected_def
      split: option.splits sum.splits authenticated.splits)

lemma prepare_upstream_request_Ok:
  assumes "prepare_upstream_request e w route rq up info p rw = (ProxiedOk call, rw', w')"
  shows "uc_guard call = pr_guard p"
  using assms by (auto simp: prepare_upstream_request_def Let_def split: prod.splits sum.splits)

abbreviation auth_ctx ::
    "client_addr \<Rightarrow> request_info \<Rightarrow> string option \<Rightarrow> ('n, 'a) http_route \<Rightarrow> string list \<Rightarrow> auth_context" where
  "auth_ctx client info host route segments \<equiv>
     \<lparr>ac_client = ca_ip client, ac_peer = ca_peer client, ac_host = host, ac_proto = ri_proto info,
      ac_base_path = fr_base_path route, ac_path_segments = segments, ac_vhosts = rf_vhosts (fr_filter route)\<rparr>"

abbreviation prepared ::
    "request_info \<Rightarrow> string option \<Rightarrow> request \<Rightarrow> ('n, 'a) http_route \<Rightarrow> client_addr \<Rightarrow> string list \<Rightarrow> string option \<Rightarrow>
     prepared_request" where
  "prepared info host rq route client segments guard \<equiv>
     \<lparr>pr_segments = segments, pr_client = client, pr_host = host, pr_cache_key = cache_key_of info host rq,
      pr_authorized = is_authorized_request_headers (rq_headers rq) (hr_auth route \<noteq> None), pr_guard = guard\<rparr>"

text \<open>The outcomes of \<open>forward_request\<close>: a request that is not authenticated, one that the proxy answers or
  refuses, and one that is prepared for the upstream server.\<close>

lemma forward_request_cases:
  assumes "forward_request e w route rq up info client segments host rw = (proxied, rw', w')"
  obtains
    (unauthenticated) "authenticate_request e route rq (auth_ctx client info host route segments) = Inl proxied"
      "rw' = rw" "w' = px_meanwhile e w"
  | (answered) response where "proxied = ProxiedRespond response" "rw' = rw"
      "\<exists>rq1. check_post_auth_early_response e (px_meanwhile e w) route rq1 host client = (Some response, w')"
  | (refused) err rq1 w1 where "proxied = ProxiedErr err" "rw' = rw"
      "check_post_auth_early_response e (px_meanwhile e w) route rq1 host client = (None, w1)"
      "w' = w1 \<or> acquire_concurrency (px_http e) w1 route (rq_headers rq1) (ca_ip client) = (Inl err, w')"
  | (prepared) rq1 w1 guard w2 where
      "authenticate_request e route rq (auth_ctx client info host route segments) = Inr rq1"
      "check_post_auth_early_response e (px_meanwhile e w) route rq1 host client = (None, w1)"
      "up_servers (ru_upstream up) \<noteq> []"
      "acquire_concurrency (px_http e) w1 route (rq_headers rq1) (ca_ip client) = (Inr guard, w2)"
      "prepare_upstream_request e w2 route rq1 up info (prepared info host rq route client segments guard) rw =
         (proxied, rw', w')"
proof (cases "authenticate_request e route rq (auth_ctx client info host route segments)")
  case (Inl p)
  then show thesis using assms unauthenticated by (simp add: forward_request_def Let_def)
next
  case (Inr rq1)
  obtain answer w1 where post: "check_post_auth_early_response e (px_meanwhile e w) route rq1 host client = (answer, w1)"
    by (cases "check_post_auth_early_response e (px_meanwhile e w) route rq1 host client")
  obtain a w2 where acq: "acquire_concurrency (px_http e) w1 route (rq_headers rq1) (ca_ip client) = (a, w2)"
    by (cases "acquire_concurrency (px_http e) w1 route (rq_headers rq1) (ca_ip client)")
  note f = assms [unfolded forward_request_def Let_def Inr sum.case post prod.case acq]
  show thesis
  proof (cases answer)
    case (Some response)
    then show thesis using f post answered by auto
  next
    case None
    show thesis
    proof (cases "up_servers (ru_upstream up) = []")
      case True
      then show thesis using f post None refused by auto
    next
      case False
      then show thesis using f post None refused prepared Inr acq by (cases a) auto
    qed
  qed
qed

abbreviation early_checked ::
    "('q, 'g, 'n, 'a) pipe_env \<Rightarrow> 'g world \<Rightarrow> request \<Rightarrow> request_info \<Rightarrow> http_response option \<times> request \<times> anti_replay" where
  "early_checked e w rq0 info \<equiv>
     validate_early_data (px_http e) (pw_replay w) (normalize_request_path (px_set_path e) rq0) info (px_replay_now e)"

abbreviation host_of :: "('q, 'g, 'n, 'a) pipe_env \<Rightarrow> request \<Rightarrow> request_info \<Rightarrow> string option" where
  "host_of e rq info \<equiv> request_host rq (header_host (px_http e) (rq_headers rq)) (ri_sni info)"

abbreviation client_of :: "('q, 'g, 'n, 'a) pipe_env \<Rightarrow> ('n, 'a) http_route \<Rightarrow> request \<Rightarrow> request_info \<Rightarrow> client_addr" where
  "client_of e route rq info \<equiv>
     resolve (px_net e) (px_http e) (hr_client_ip route) (ri_remote info) (rq_headers rq) (px_cdn e)"

text \<open>The world in which the access checks of a route run: the anti-replay buffer and the request counter of the
  route are up to date.\<close>

definition counted :: "'g world \<Rightarrow> anti_replay \<Rightarrow> ('n, 'a) http_route \<Rightarrow> 'g world" where
  "counted w ar route =
     (let w0 = w\<lparr>pw_replay := ar\<rparr>
      in case hr_metric_key route of None \<Rightarrow> w0 | Some k \<Rightarrow> w0\<lparr>pw_counted := k # pw_counted w0\<rparr>)"

lemma route_request_cases:
  assumes "route_request e w routes rq0 info = (out, w')"
  obtains
    (too_early) response rq ar where "early_checked e w rq0 info = (Some response, rq, ar)"
      "ro_proxied out = ProxiedRespond response" "w' = w\<lparr>pw_replay := ar\<rparr>"
  | (no_route) rq ar where "early_checked e w rq0 info = (None, rq, ar)"
      "get_route (px_host e) routes (rq_path rq) (host_of e rq info) = None"
      "ro_proxied out = ProxiedErr NoRouteFound" "w' = w\<lparr>pw_replay := ar\<rparr>"
  | (denied) rq ar segments route exit where "early_checked e w rq0 info = (None, rq, ar)"
      "get_route (px_host e) routes (rq_path rq) (host_of e rq info) = Some (segments, route)"
      "check_route_access e (counted w ar route) route rq (client_of e route rq info) info
         (header_host (px_http e) (rq_headers rq)) (host_of e rq info) = (Inl exit, w')"
      "\<forall>call. ro_proxied out \<noteq> ProxiedOk call"
  | (granted) rq ar segments route up w1 where "early_checked e w rq0 info = (None, rq, ar)"
      "get_route (px_host e) routes (rq_path rq) (host_of e rq info) = Some (segments, route)"
      "check_route_access e (counted w ar route) route rq (client_of e route rq info) info
         (header_host (px_http e) (rq_headers rq)) (host_of e rq info) = (Inr up, w1)"
      "forward_request e w1 route rq up info (client_of e route rq info) segments (host_of e rq info)
         (configure_response_rewriter rewriter_builder route) = (ro_proxied out, ro_rewriter out, w')"
proof -
  obtain early rq ar where v: "early_checked e w rq0 info = (early, rq, ar)" by (metis prod_cases3)
  show thesis
  proof (cases early)
    case (Some response)
    then show thesis using assms v too_early by (auto simp: route_request_def)
  next
    case None
    note v = v [unfolded None]
    show thesis
    proof (cases "get_route (px_host e) routes (rq_path rq) (host_of e rq info)")
      case none: None
      then show thesis using assms v no_route by (auto simp: route_request_def no_route_fallback_def Let_def)
    next
      case (Some r)
      obtain segments route where r: "r = (segments, route)" by (cases r)
      obtain a w1 where a: "check_route_access e (counted w ar route) route rq (client_of e route rq info) info
         (header_host (px_http e) (rq_headers rq)) (host_of e rq info) = (a, w1)" by fastforce
      note u = assms [unfolded route_request_def v prod.case option.case Let_def Some r]
      note c = counted_def [of w ar route, unfolded Let_def]
      show thesis
      proof (cases a)
        case (Inl exit)
        then show thesis using u v Some r a denied unfolding c [symmetric]
          by (cases exit) (auto simp: c [symmetric])
      next
        case (Inr up)
        then show thesis using u v Some r a granted unfolding c [symmetric]
          by (auto simp: c [symmetric] split: prod.splits)
      qed
    qed
  qed
qed

lemma check_post_auth_None:
  assumes "check_post_auth_early_response e w route rq host client = (None, w')"
  shows "\<not> (hr_grpc_web route \<and> is_grpc_web_preflight (px_http e) (rq_method rq) (rq_headers rq)) \<and>
    \<not> (hr_cache route \<noteq> None \<and> rq_method rq = ''PURGE'') \<and> hr_response route = None \<and> w' = w"
  using assms
  by (auto simp: check_post_auth_early_response_def handle_purge_or_fixed_def split: if_splits option.splits prod.splits)

lemma acquire_concurrency_Inr:
  assumes "acquire_concurrency h w route hs client = (Inr guard, w')"
  shows "guard = map_option (\<lambda>(limit, _). key_for h limit hs client) (hr_concurrency route)"
  using assms by (auto simp: acquire_concurrency_def conc_acquire_def Let_def split: option.splits prod.splits if_splits)

text \<open>
  C1: A request reaches an upstream server only after every check of its route.  When the pipeline hands a
  request on, it was no replayed or unsafe early data, the route is the one that the router picks, the route is
  not in maintenance, the request asks for no dictionary and comes from no blocked bot, the address of the
  client and its certificate satisfy the policies, the rate limiter admitted it, no redirect applies, its
  declared body fits, the authenticator passed it, it is no preflight, no purge and answered by no fixed
  response, the route has servers, and the request holds its slot of the concurrency limit.
\<close>

theorem forwarded_requests_passed_every_check:
  assumes "route_request e w routes rq0 info = (out, w')" and "ro_proxied out = ProxiedOk call"
  shows "\<exists>rq ar segments route up rq1.
    early_checked e w rq0 info = (None, rq, ar) \<and>
    get_route (px_host e) routes (rq_path rq) (host_of e rq info) = Some (segments, route) \<and>
    \<not> mc_enabled (hr_maintenance route) \<and>
    check_dictionary_request (px_http e) (hr_compression route) rq = None \<and>
    \<not> (hr_bot_blocker route \<and> is_bot_request (px_http e) (rq_headers rq)) \<and>
    allows_with_country (px_net e) (hr_ip_filter route) (ca_ip (client_of e route rq info))
      (if if_allow_countries (hr_ip_filter route) \<noteq> [] \<or> if_deny_countries (hr_ip_filter route) \<noteq> []
       then hr_geoip route (ca_ip (client_of e route rq info)) else None) \<and>
    (hr_require_client_cert route \<longrightarrow> ri_client_cert info \<noteq> None) \<and>
    fst (check_rate e (counted w ar route) route (ca_ip (client_of e route rq info))) = None \<and>
    redirect_of e route rq (header_host (px_http e) (rq_headers rq)) (host_of e rq info) (ri_proto info) = None \<and>
    hr_upstream route = Some up \<and> up_servers (ru_upstream up) \<noteq> [] \<and>
    \<not> declared_too_large (px_http e) (rq_headers rq) (ru_max_body_size up) \<and>
    passes_auth e route rq (auth_ctx (client_of e route rq info) info (host_of e rq info) route segments) rq1 \<and>
    \<not> (hr_grpc_web route \<and> is_grpc_web_preflight (px_http e) (rq_method rq1) (rq_headers rq1)) \<and>
    \<not> (hr_cache route \<noteq> None \<and> rq_method rq1 = ''PURGE'') \<and> hr_response route = None \<and>
    uc_guard call = map_option (\<lambda>(limit, _). key_for (px_http e) limit (rq_headers rq1) (ca_ip (client_of e route rq info)))
      (hr_concurrency route)"
  using assms(1)
proof (cases rule: route_request_cases)
  case (granted rq ar segments route up w1)
  note access = check_route_access_Inr [OF granted(3)]
  note policies = check_policies_Inr [OF conjunct1 [OF conjunct2 [OF conjunct2 [OF conjunct2 [OF access]]]]]
  from granted(4) show ?thesis
  proof (cases rule: forward_request_cases)
    case (prepared rq1 w1' guard w2)
    have "uc_guard call = guard"
      using prepare_upstream_request_Ok prepared(5) assms(2) by fastforce
    then show ?thesis
      using granted(1,2) access policies authenticate_request_Inr [OF prepared(1)] check_post_auth_None [OF prepared(2)]
        prepared(3) acquire_concurrency_Inr [OF prepared(4)]
      by (intro exI [of _ rq] exI [of _ ar] exI [of _ segments] exI [of _ route] exI [of _ up] exI [of _ rq1]) simp
  qed (use assms(2) in \<open>auto simp: authenticate_request_def rejected_def split: authenticated.splits auth_rejection.splits\<close>)
qed (use assms(2) in auto)

theorem forwarded_requests_passed_every_check_witness:
  "\<exists>rq ar ctx rq1. early_checked sample_pipe_env sample_world sample_pipe_request sample_info = (None, rq, ar) \<and>
     \<not> is_bot_request (px_http sample_pipe_env) (rq_headers rq) \<and> passes_auth sample_pipe_env sample_route rq ctx rq1"
proof -
  obtain rq ar segments route rq1 where
      r: "early_checked sample_pipe_env sample_world sample_pipe_request sample_info = (None, rq, ar)"
      "get_route (px_host sample_pipe_env) [sample_route] (rq_path rq) (host_of sample_pipe_env rq sample_info) = Some (segments, route)"
      "\<not> (hr_bot_blocker route \<and> is_bot_request (px_http sample_pipe_env) (rq_headers rq))"
      "passes_auth sample_pipe_env route rq (auth_ctx (client_of sample_pipe_env route rq sample_info) sample_info
        (host_of sample_pipe_env rq sample_info) route segments) rq1"
    using forwarded_requests_passed_every_check [OF sample_run_Ok] by blast
  then have "route = sample_route" using get_route_mem by fastforce
  moreover have "hr_bot_blocker sample_route" by code_simp
  ultimately show ?thesis using r by blast
qed

section \<open>Slots\<close>

text \<open>What the requests in flight hold: the entries of the concurrency limiters and the active streams.\<close>

definition slots :: "'g world \<Rightarrow> (nat \<Rightarrow> active_map) \<times> usize \<times> usize" where
  "slots w = (pw_conc w, sc_active (pw_streams w), sc_active_background (pw_streams w))"

text \<open>The end of a forwarded request drops its guard and its stream permit.\<close>

definition release :: "'g world \<Rightarrow> ('n, 'a) http_route \<Rightarrow> upstream_call \<Rightarrow> 'g world" where
  "release w route call =
     (let w1 = drop_guard w route (uc_guard call)
      in case uc_stream_permit call of
           None \<Rightarrow> w1
         | Some b \<Rightarrow> w1\<lparr>pw_streams := stream_permit_drop b (pw_streams w1)\<rparr>)"

definition no_empty_entries :: "(nat \<Rightarrow> active_map) \<Rightarrow> bool" where
  "no_empty_entries m \<longleftrightarrow> (\<forall>i k. m i k \<noteq> Some 0)"

definition limits_positive :: "('n, 'a) http_route \<Rightarrow> bool" where
  "limits_positive route \<longleftrightarrow> (case hr_concurrency route of None \<Rightarrow> True | Some (limit, _) \<Rightarrow> 0 < cl_max limit)"

lemma slots_check_route_access: "slots (snd (check_route_access e w route rq client info hdr host)) = slots w"
proof -
  have "slots (snd (check_rate e v route ip)) = slots v" for v ip
    by (simp add: check_rate_def slots_def Let_def case_prod_beta split: option.splits)
  then have "slots (snd (check_policies e v route ip cert)) = slots v" for v ip cert
    by (auto simp: check_policies_def Let_def split: prod.splits option.splits) (metis snd_conv)+
  then show ?thesis
    by (auto simp: check_route_access_def split: prod.splits option.splits sum.splits) (metis snd_conv)+
qed

lemma slots_counted: "slots (counted w ar route) = slots w"
  by (simp add: counted_def slots_def Let_def split: option.splits)

lemma slots_check_post_auth: "slots (snd (check_post_auth_early_response e w route rq host client)) = slots w"
  by (auto simp: check_post_auth_early_response_def handle_purge_or_fixed_def slots_def split: option.splits prod.splits)

lemma acquire_refused_slots:
  assumes "acquire_concurrency h w route hs client = (Inl err, w')" and "limits_positive route"
  shows "slots w' = slots w"
proof -
  obtain limit i where r: "hr_concurrency route = Some (limit, i)"
    using assms(1) by (auto simp: acquire_concurrency_def split: option.splits)
  let ?k = "key_for h limit hs client" and ?m = "pw_conc w i"
  have "cl_max limit \<le> (case ?m ?k of None \<Rightarrow> 0 | Some n \<Rightarrow> n)" and
    w': "w' = w\<lparr>pw_conc := (pw_conc w)(i := ?m(?k \<mapsto> (case ?m ?k of None \<Rightarrow> 0 | Some n \<Rightarrow> n)))\<rparr>"
    using assms(1) r by (auto simp: acquire_concurrency_def conc_acquire_def Let_def split: if_splits)
  moreover have "0 < cl_max limit" using assms(2) r by (simp add: limits_positive_def)
  ultimately have "?m(?k \<mapsto> (case ?m ?k of None \<Rightarrow> 0 | Some n \<Rightarrow> n)) = ?m" by (auto split: option.splits)
  then show ?thesis by (simp add: w' slots_def)
qed

text \<open>A guard that is dropped restores the entry of its client.\<close>

lemma drop_acquired:
  assumes "acquire_concurrency h w route hs client = (Inr guard, w1)" and "no_empty_entries (pw_conc w)"
    and "pw_conc w2 = pw_conc w1"
  shows "pw_conc (drop_guard w2 route guard) = pw_conc w"
proof (cases "hr_concurrency route")
  case None
  then show ?thesis using assms by (auto simp: acquire_concurrency_def drop_guard_def)
next
  case (Some r)
  obtain limit i where r: "r = (limit, i)" by (cases r)
  let ?k = "key_for h limit hs client" and ?m = "pw_conc w i"
  have w1: "guard = Some ?k" "w1 = w\<lparr>pw_conc := (pw_conc w)(i := ?m(?k \<mapsto> (case ?m ?k of None \<Rightarrow> 0 | Some n \<Rightarrow> n) + 1))\<rparr>"
    using assms(1) Some r by (auto simp: acquire_concurrency_def conc_acquire_def Let_def split: if_splits)
  have "?m ?k \<noteq> Some 0" using assms(2) by (simp add: no_empty_entries_def)
  then have "conc_drop ?k (?m(?k \<mapsto> (case ?m ?k of None \<Rightarrow> 0 | Some n \<Rightarrow> n) + 1)) = ?m"
    by (cases "?m ?k") (auto simp: conc_drop_def)
  then show ?thesis using assms(3) w1 Some r by (simp add: drop_guard_def)
qed

lemma acquire_streams: "acquire_concurrency h w route hs client = (r, w') \<Longrightarrow> pw_streams w' = pw_streams w"
  by (auto simp: acquire_concurrency_def split: option.splits prod.splits sum.splits)

lemma drop_guard_streams [simp]: "pw_streams (drop_guard w route guard) = pw_streams w"
  by (auto simp: drop_guard_def split: option.splits prod.splits)

lemma apply_stream_priority_slots:
  assumes "apply_stream_priority e w route req = (r, req', w')"
  shows "pw_conc w' = pw_conc w \<and>
    (case r of
       Inl _ \<Rightarrow> slots w' = slots w
     | Inr None \<Rightarrow> slots w' = slots w
     | Inr (Some b) \<Rightarrow> slots (w'\<lparr>pw_streams := stream_permit_drop b (pw_streams w')\<rparr>) = slots w)"
  using assms
  by (auto simp: apply_stream_priority_def slots_def should_throttle_background_def acquire_permit_def stream_permit_drop_def
      Let_def split: if_splits)

definition leaves_slots :: "'g world \<Rightarrow> ('n, 'a) http_route \<Rightarrow> proxied_request \<Rightarrow> 'g world \<Rightarrow> bool" where
  "leaves_slots w route proxied w' \<longleftrightarrow>
     (case proxied of ProxiedOk call \<Rightarrow> slots (release w' route call) = slots w | _ \<Rightarrow> slots w' = slots w)"

lemma prepare_slots:
  assumes acq: "acquire_concurrency h w route hs client = (Inr (pr_guard p), w1)"
    and ne: "no_empty_entries (pw_conc w)"
    and prep: "prepare_upstream_request e w1 route rq up info p rw = (proxied, rw', w')"
  shows "leaves_slots w route proxied w'"
proof -
  obtain selected us where sel: "select (px_pool e) (ru_upstream up) (pw_groups w1 (ru_group up)) (to_up_request rq)
      (pr_segments p) (ca_ip (pr_client p)) (ri_proto info \<noteq> ''http'') (px_select_now e) = (selected, us)" by (metis surj_pair)
  let ?w1 = "w1\<lparr>pw_groups := (pw_groups w1)(ru_group up := us)\<rparr>"
  have s1: "pw_streams ?w1 = pw_streams w" using acquire_streams [OF acq] by simp
  note prep = prep [unfolded prepare_upstream_request_def Let_def sel prod.case]
  show ?thesis
  proof (cases selected)
    case (Inl err)
    then show ?thesis
      using prep drop_acquired [OF acq ne, of ?w1] s1 by (auto simp: slots_def leaves_slots_def)
  next
    case (Inr x)
    obtain tgt req1 where x: "x = (tgt, req1)" by (cases x)
    obtain req2 rw1 where g: "translate_grpc_web e route req1 (pr_host p) rw = (req2, rw1)" by (metis surj_pair)
    obtain r req3 w2 where pri: "apply_stream_priority e ?w1 route req2 = (r, req3, w2)" by (metis prod_cases3)
    note prep = prep [unfolded Inr x g pri sum.case prod.case]
    note ps = apply_stream_priority_slots [OF pri]
    have conc: "pw_conc (drop_guard w3 route (pr_guard p)) = pw_conc w" if "pw_conc w3 = pw_conc w2" for w3
      using drop_acquired [OF acq ne, of w3] that ps by simp
    show ?thesis
    proof (cases r)
      case (Inl err)
      then show ?thesis using prep ps s1 conc [of w2] by (auto simp: slots_def leaves_slots_def)
    next
      case (Inr permit)
      obtain call where call: "proxied = ProxiedOk call" "uc_guard call = pr_guard p" "uc_stream_permit call = permit"
          and w': "pw_conc w' = pw_conc w2" "pw_streams w' = pw_streams w2"
        using prep Inr by (auto simp: case_prod_beta split: if_splits)
      have "slots (release w' route call) = slots w"
        using ps Inr s1 conc [OF w'(1)] w'(2) call
        by (cases permit) (auto simp: release_def slots_def Let_def)
      then show ?thesis using call by (simp add: leaves_slots_def)
    qed
  qed
qed

text \<open>
  C20: Every request leaves the limits as it found them.  A request that ends early, with whatever answer or
  error, holds no slot of a concurrency limiter and no stream permit; a forwarded one holds exactly what its end
  gives back.  The requests that run during its authentication are complete when it goes on, limits are at least
  one, and the limiters hold no empty entries.
\<close>

theorem requests_leave_the_limits_as_they_found_them:
  assumes "route_request e w routes rq0 info = (out, w')"
    and "\<forall>v. slots (px_meanwhile e v) = slots v"
    and "no_empty_entries (pw_conc w)" and "list_all limits_positive routes"
  shows "(\<forall>call. ro_proxied out \<noteq> ProxiedOk call) \<and> slots w' = slots w \<or>
    (\<exists>route call. route \<in> set routes \<and> ro_proxied out = ProxiedOk call \<and> slots (release w' route call) = slots w)"
  using assms(1)
proof (cases rule: route_request_cases)
  case (denied rq ar segments route exit)
  then show ?thesis
    using slots_check_route_access [of e "counted w ar route" route rq "client_of e route rq info" info] slots_counted
    by (metis snd_conv)
next
  case (granted rq ar segments route up w1)
  have w1: "slots w1 = slots w"
    using granted(3) slots_check_route_access [of e "counted w ar route" route rq "client_of e route rq info" info]
      slots_counted by (metis snd_conv)
  have pos: "limits_positive route" using assms(4) get_route_mem [OF granted(2)] by (auto simp: list_all_iff)
  have post: "slots v = slots w" if "check_post_auth_early_response e (px_meanwhile e w1) route rq1 (host_of e rq info)
      (client_of e route rq info) = (a, v)" for rq1 a v
    using slots_check_post_auth [of e "px_meanwhile e w1" route rq1 "host_of e rq info" "client_of e route rq info"]
      that assms(2) w1 by simp
  from granted(4) have "leaves_slots w route (ro_proxied out) w'"
  proof (cases rule: forward_request_cases)
    case unauthenticated
    then show ?thesis using assms(2) w1
      by (auto simp: leaves_slots_def authenticate_request_def rejected_def
          split: authenticated.splits auth_rejection.splits proxied_request.splits)
  next
    case (answered response)
    then show ?thesis using post by (auto simp: leaves_slots_def)
  next
    case (refused err rq1 v)
    then have "slots w' = slots v" using acquire_refused_slots [OF _ pos] by blast
    then show ?thesis using post [OF refused(3)] refused(1) by (simp add: leaves_slots_def)
  next
    case (prepared rq1 v guard w2)
    have v: "slots v = slots w" by (rule post [OF prepared(2)])
    then have "no_empty_entries (pw_conc v)" using assms(3) by (simp add: slots_def)
    with prepare_slots [OF _ this prepared(5)] prepared(4) have "leaves_slots v route (ro_proxied out) w'" by simp
    then show ?thesis using v by (simp add: leaves_slots_def split: proxied_request.splits)
  qed
  then show ?thesis using get_route_mem [OF granted(2)]
    by (auto simp: leaves_slots_def split: proxied_request.splits)
qed (auto simp: slots_def)

theorem requests_leave_the_limits_as_they_found_them_witness:
  "slots (release (snd sample_run) sample_route sample_call) = slots sample_world"
proof -
  have "\<forall>v. slots (px_meanwhile sample_pipe_env v) = slots v" by (simp add: sample_pipe_env_def)
  moreover have "no_empty_entries (pw_conc sample_world)" by (simp add: no_empty_entries_def sample_world_def)
  moreover have "list_all limits_positive [sample_route]" by (simp add: limits_positive_def sample_route_def)
  ultimately show ?thesis
    using requests_leave_the_limits_as_they_found_them [OF sample_run_Ok(1)] sample_run_Ok(2) by auto
qed

section \<open>What an upstream server sees\<close>

lemma extract_trace_other:
  assumes "extract_and_propagate_trace_context h hs random sid = (rid, hs')" and "m \<noteq> ''traceparent''" and "m \<noteq> ''x-request-id''"
  shows "get_all hs' m = get_all hs m"
  using assms
  by (auto simp: extract_and_propagate_trace_context_def get_all_insert_str Let_def split: option.splits prod.splits)

lemma apply_header_rules_other:
  assumes "apply_header_rules e route hs client host info rw = (hs', rw')"
    and "m \<noteq> ''traceparent''" and "m \<noteq> ''x-request-id''" and "list_all (\<lambda>rule. cr_name rule \<noteq> m) (ch_request (hr_header_rules route))"
  shows "get_all hs' m = get_all hs m"
proof -
  obtain rid hs1 where t: "extract_and_propagate_trace_context (px_http e) hs (px_trace_random e) (px_span_random e) = (rid, hs1)"
    by (metis surj_pair)
  show ?thesis
    using assms(1) extract_trace_other [OF t assms(2,3)] apply_rules_other [OF assms(4)]
    by (auto simp: apply_header_rules_def t Let_def split: if_splits)
qed

lemma cache_request_new_other:
  "cache_request_new h method hs key a = Some (q, hs') \<Longrightarrow> m \<noteq> ''accept-encoding'' \<Longrightarrow> get_all hs' m = get_all hs m"
  by (auto simp: cache_request_new_def Let_def split: if_splits)

text \<open>Apart from the headers that the proxy adds, an upstream server sees the headers of \<open>upstream_headers\<close>.\<close>

lemma prepared_headers:
  assumes prep: "prepare_upstream_request e w route rq up info p rw = (ProxiedOk call, rw', w')"
    and m: "m \<noteq> ''traceparent''" "m \<noteq> ''x-request-id''" "m \<noteq> ''accept-encoding''"
    and rules: "list_all (\<lambda>rule. cr_name rule \<noteq> m) (ch_request (hr_header_rules route))"
  shows "\<exists>method hs. get_all (uq_headers (uc_req call)) m =
    get_all (upstream_headers e method hs (pr_client p) (pr_host p) (ri_proto info)) m"
proof -
  obtain selected us where sel: "select (px_pool e) (ru_upstream up) (pw_groups w (ru_group up)) (to_up_request rq)
      (pr_segments p) (ca_ip (pr_client p)) (ri_proto info \<noteq> ''http'') (px_select_now e) = (selected, us)" by (metis surj_pair)
  let ?w1 = "w\<lparr>pw_groups := (pw_groups w)(ru_group up := us)\<rparr>"
  note prep = prep [unfolded prepare_upstream_request_def Let_def sel prod.case]
  obtain tgt req1 where x: "selected = Inr (tgt, req1)" using prep by (auto split: sum.splits)
  obtain req2 rw1 where g: "translate_grpc_web e route req1 (pr_host p) rw = (req2, rw1)" by (metis surj_pair)
  obtain r req3 w2 where pri: "apply_stream_priority e ?w1 route req2 = (r, req3, w2)" by (metis prod_cases3)
  note prep = prep [unfolded x g pri sum.case prod.case]
  obtain permit where r: "r = Inr permit" using prep by (auto split: sum.splits)
  let ?hs1 = "upstream_headers e (uq_method req3) (uq_headers req3) (pr_client p) (pr_host p) (ri_proto info)"
  obtain hs2 rw2 where hr: "apply_header_rules e route ?hs1 (ca_ip (pr_client p)) (pr_host p) info rw1 = (hs2, rw2)"
    by (metis surj_pair)
  note prep = prep [unfolded r sum.case hr prod.case]
  have "get_all (uq_headers (uc_req call)) m = get_all hs2 m"
    using prep cache_request_new_other [OF _ m(3)] by (auto split: option.splits)
  then show ?thesis using apply_header_rules_other [OF hr m(1,2) rules] by auto
qed

lemma cookie_names_cong: "get_all hs ''cookie'' = get_all hs' ''cookie'' \<Longrightarrow> cookie_names hs = cookie_names hs'"
  by (simp add: cookie_names_def)

lemma upstream_headers_cookies:
  "cookie_names (upstream_headers e method hs client host proto) \<inter> {oidc_cookie, oidc_state_cookie, session_cookie} = {}"
proof -
  let ?h = "px_http e"
  have "cookie_names (remove_auth_cookies ?h hs) \<inter> {oidc_cookie, oidc_state_cookie, session_cookie} = {}"
    using cookie_names_remove_cookie [of ?h hs oidc_cookie]
      cookie_names_remove_cookie [of ?h "remove_cookie ?h hs oidc_cookie" oidc_state_cookie]
      cookie_names_remove_cookie [of ?h "remove_cookie ?h (remove_cookie ?h hs oidc_cookie) oidc_state_cookie" session_cookie]
    by (auto simp: remove_auth_cookies_def remove_session_cookie_def remove_oidc_cookie_def)
  moreover have "get_all (upstream_headers e method hs client host proto) ''cookie'' \<in> {[], get_all (remove_auth_cookies ?h hs) ''cookie''}"
    by (simp add: upstream_headers_def post_process_def pre_process_other CLIENT_IP_HEADERS_def get_all_remove_hop_by_hop
        split: option.splits)
  moreover have "cookie_names hs' = {}" if "get_all hs' ''cookie'' = []" for hs' using that by (simp add: cookie_names_def)
  ultimately show ?thesis by (metis cookie_names_cong empty_iff inf_bot_left insert_iff)
qed

lemma upstream_headers_hop_by_hop:
  "m \<in> set HOP_BY_HOP_HEADERS \<Longrightarrow> m \<noteq> ''connection'' \<Longrightarrow> m \<noteq> ''upgrade'' \<Longrightarrow>
   get_all (upstream_headers e method hs client host proto) m = []"
proof -
  assume m: "m \<in> set HOP_BY_HOP_HEADERS" "m \<noteq> ''connection''" "m \<noteq> ''upgrade''"
  have "set HOP_BY_HOP_HEADERS \<inter> (set CLIENT_IP_HEADERS \<union> {''x-forwarded-proto'', ''via''}) = {}"
    by (simp add: HOP_BY_HOP_HEADERS_def CLIENT_IP_HEADERS_def)
  then have n: "m \<notin> set CLIENT_IP_HEADERS" "m \<noteq> ''x-forwarded-proto''" "m \<noteq> ''via''" using m(1) by auto
  have "get_all (upstream_headers e method hs client host proto) m =
      get_all (remove_hop_by_hop_headers (px_http e) (remove_auth_cookies (px_http e) hs) method) m"
    using n by (simp add: upstream_headers_def post_process_def pre_process_other split: option.splits)
  then show ?thesis using m by (simp add: get_all_remove_hop_by_hop)
qed



end
