(* ===== verification/Grpc_Proto.thy ===== *)
theory Grpc_Proto
  imports Header_Rules Http_Headers Api_Error "HOL-Library.Word" "HOL-Library.Code_Target_Nat"
begin

text \<open>
  The protobuf wire format and the client side of the gRPC health protocol:
  \<open>r3v3rs3/src/grpc/proto.rs\<close> (varints, tags, length-delimited fields, the five-byte message
  frame), \<open>r3v3rs3/src/grpc/health.rs\<close> (the request the proxy sends, the frames and trailers of the
  body, the walk over the fields of the answer) and \<open>GrpcServingStatus\<close> of
  \<open>r3v3rs3-api/src/grpc.rs\<close>.  The active health checks of a group ask this client.

  A byte buffer is a \<^typ>\<open>string\<close>, a \<open>u64\<close> is a \<^typ>\<open>64 word\<close> and an offset into a buffer a
  \<^typ>\<open>nat\<close>; the one addition of an offset that the wire controls, \<open>*offset + len as usize\<close>, wraps at
  \<open>2 ^ 64\<close> as a release build does.  The walk over the fields may therefore not end, and is a
  \<open>partial_function\<close> whose value \<^term>\<open>None\<close> means that it never returns.
\<close>

unbundle bit_operations_syntax

section \<open>Varints\<close>

text \<open>\<open>w as u8\<close> as a byte of a buffer, and a byte read back as a \<open>u64\<close>.\<close>

definition byte_of :: "u64 \<Rightarrow> char" where
  "byte_of w = char_of (unat w mod 256)"

definition byte_value :: "char \<Rightarrow> u64" where
  "byte_value c = of_nat (of_char c)"

function write_varint :: "u64 \<Rightarrow> string" where
  "write_varint val =
     (if val \<ge> 0x80 then byte_of ((val AND 0x7f) OR 0x80) # write_varint (drop_bit 7 val)
      else [byte_of val])"
  by pat_completeness auto

lemma unat_drop_7: "unat (drop_bit 7 (v :: u64)) = unat v div 128"
  unfolding unat_drop_bit_eq by (simp add: drop_bit_eq_div)

termination write_varint
  by (relation "measure unat") (auto simp: unat_drop_7 word_le_nat_alt)

declare write_varint.simps [simp del]

fun read_varint_loop :: "string \<Rightarrow> nat \<Rightarrow> u64 \<Rightarrow> nat \<Rightarrow> u64 option \<times> nat" where
  "read_varint_loop [] offset val shift = (None, offset)"
| "read_varint_loop (c # cs) offset val shift =
     (let b = byte_value c;
          val = val OR push_bit shift (b AND 0x7f) in
      if b AND 0x80 = 0 then (Some val, offset + 1)
      else if shift + 7 \<ge> 64 then (None, offset + 1)
      else read_varint_loop cs (offset + 1) val (shift + 7))"

definition read_varint :: "string \<Rightarrow> nat \<Rightarrow> u64 option \<times> nat" where
  "read_varint data offset = read_varint_loop (drop offset data) offset 0 0"

definition write_tag :: "nat \<Rightarrow> nat \<Rightarrow> string" where
  "write_tag field_number wire_type =
     write_varint (push_bit 3 (of_nat field_number) OR (of_nat wire_type AND 0x07))"

definition write_bytes_field :: "nat \<Rightarrow> string \<Rightarrow> string" where
  "write_bytes_field field_number bytes =
     write_tag field_number 2 @ write_varint (of_nat (length bytes)) @ bytes"

definition write_string_field :: "nat \<Rightarrow> string \<Rightarrow> string" where
  "write_string_field field_number s = write_bytes_field field_number s"

section \<open>Message frames\<close>

text \<open>\<open>u32::to_be_bytes\<close> of a length cast to \<open>u32\<close>, and \<open>u32::from_be_bytes\<close>.\<close>

definition to_be_u32 :: "nat \<Rightarrow> string" where
  "to_be_u32 n = map (\<lambda>k. char_of (n div 256 ^ k mod 256)) [3, 2, 1, 0]"

definition from_be_u32 :: "string \<Rightarrow> nat" where
  "from_be_u32 bs = foldl (\<lambda>n b. n * 256 + of_char b) 0 bs"

definition encode_framed_grpc_message :: "string \<Rightarrow> string" where
  "encode_framed_grpc_message payload = CHR 0x00 # to_be_u32 (length payload) @ payload"

definition decode_framed_grpc_message :: "string \<Rightarrow> (char \<times> string) option" where
  "decode_framed_grpc_message buf =
     (if length buf < 5 then None
      else (let flag = buf ! 0;
                len = from_be_u32 (take 4 (drop 1 buf)) in
            if length buf \<ge> 5 + len then Some (flag, take len (drop 5 buf)) else None))"

section \<open>The health protocol\<close>

datatype grpc_serving_status = Unknown | Serving | NotServing | ServiceUnknown

definition serving_status_from_u64 :: "u64 \<Rightarrow> grpc_serving_status" where
  "serving_status_from_u64 val =
     (if val = 1 then Serving else if val = 2 then NotServing else if val = 3 then ServiceUnknown else Unknown)"

definition is_serving :: "grpc_serving_status \<Rightarrow> bool" where
  "is_serving s \<longleftrightarrow> s = Serving"

definition encode_health_check_request :: "string \<Rightarrow> string" where
  "encode_health_check_request service =
     encode_framed_grpc_message (if service \<noteq> [] then write_string_field 1 service else [])"

definition skip_wire_field :: "string \<Rightarrow> nat \<Rightarrow> nat \<Rightarrow> nat" where
  "skip_wire_field payload offset wire_type =
     (if wire_type = 0 then snd (read_varint payload offset)
      else if wire_type = 1 then min (offset + 8) (length payload)
      else if wire_type = 2 then
        (case read_varint payload offset of
           (Some len, offset') \<Rightarrow> min ((offset' + unat len) mod 2 ^ 64) (length payload)
         | (None, offset') \<Rightarrow> offset')
      else if wire_type = 5 then min (offset + 4) (length payload)
      else offset)"

definition tag_field :: "u64 \<Rightarrow> nat" where
  "tag_field tag = unat (drop_bit 3 tag) mod 2 ^ 32"

definition tag_wire :: "u64 \<Rightarrow> nat" where
  "tag_wire tag = unat (tag AND 0x07)"

partial_function (option) health_loop :: "string \<Rightarrow> nat \<Rightarrow> grpc_serving_status option" where
  "health_loop payload offset =
     (if offset < length payload then
        (case read_varint payload offset of
           (None, _) \<Rightarrow> Some Unknown
         | (Some tag_raw, offset') \<Rightarrow>
             if tag_field tag_raw = 1 \<and> tag_wire tag_raw = 0 then
               (case read_varint payload offset' of
                  (Some val, _) \<Rightarrow> Some (serving_status_from_u64 val)
                | (None, _) \<Rightarrow> Some Unknown)
             else health_loop payload (skip_wire_field payload offset' (tag_wire tag_raw)))
      else Some Unknown)"

definition parse_health_check_response :: "string \<Rightarrow> grpc_serving_status option" where
  "parse_health_check_response payload = health_loop payload 0"

section \<open>The health check call\<close>

text \<open>
  The HTTP client (\<open>reqwest\<close>) and percent decoding are not code of the repository: what the client
  answers to a request, the time it took and the decoder are parameters.
\<close>

record grpc_reply =
  gr_status :: nat
  gr_status_text :: string
  gr_headers :: headers
  gr_body :: "string + string"

record grpc_env =
  ge_http :: http_env
  ge_send :: "string \<Rightarrow> headers \<Rightarrow> string \<Rightarrow> string + grpc_reply"
  ge_latency_ms :: nat
  ge_percent_decode :: "string \<Rightarrow> string"

definition HEALTH_CHECK_PATH :: string where
  "HEALTH_CHECK_PATH = ''/grpc.health.v1.Health/Check''"

definition format_health_url :: "string \<Rightarrow> string" where
  "format_health_url base_url = trim_end_matches (\<lambda>c. c = CHR ''/'') base_url @ HEALTH_CHECK_PATH"

definition create_health_request_headers :: headers where
  "create_health_request_headers =
     hinsert (hinsert [] ''content-type'' ''application/grpc'') ''te'' ''trailers''"

definition grpc_status_name :: "nat \<Rightarrow> string" where
  "grpc_status_name code =
     (case nth_opt
        [''OK'', ''CANCELLED'', ''UNKNOWN'', ''INVALID_ARGUMENT'', ''DEADLINE_EXCEEDED'', ''NOT_FOUND'',
         ''ALREADY_EXISTS'', ''PERMISSION_DENIED'', ''RESOURCE_EXHAUSTED'', ''FAILED_PRECONDITION'',
         ''ABORTED'', ''OUT_OF_RANGE'', ''UNIMPLEMENTED'', ''INTERNAL'', ''UNAVAILABLE'', ''DATA_LOSS'',
         ''UNAUTHENTICATED''] code of
        Some name \<Rightarrow> name
      | None \<Rightarrow> ''UNKNOWN_STATUS'')"

definition parse_trailer_lines :: "string \<Rightarrow> (string \<rightharpoonup> string) \<Rightarrow> (string \<rightharpoonup> string)" where
  "parse_trailer_lines payload trailers =
     (if utf8_valid payload then
        fold (\<lambda>line t. case split_once CHR '':'' line of
                None \<Rightarrow> t
              | Some (k, v) \<Rightarrow> t(str_trim k \<mapsto> str_trim v)) (lines payload) trailers
      else trailers)"

function frames_loop :: "string \<Rightarrow> string \<Rightarrow> (string \<rightharpoonup> string) \<Rightarrow> string \<times> (string \<rightharpoonup> string)" where
  "frames_loop raw data trailers =
     (if length raw < 5 then (data, trailers)
      else (let flag = raw ! 0;
                len = from_be_u32 (take 4 (drop 1 raw));
                raw1 = drop 5 raw in
            if length raw1 < len then (data, trailers)
            else (let frame = take len raw1 in
                  if flag = CHR 0x80 then frames_loop (drop len raw1) data (parse_trailer_lines frame trailers)
                  else frames_loop (drop len raw1) (if data = [] then frame else data) trailers)))"
  by pat_completeness auto

termination frames_loop
  by (relation "measure (\<lambda>(raw, _, _). length raw)") auto

declare frames_loop.simps [simp del]

definition parse_grpc_body_frames :: "string \<Rightarrow> string \<times> (string \<rightharpoonup> string)" where
  "parse_grpc_body_frames raw_body =
     (let (data, trailers) = frames_loop raw_body [] Map.empty in
      (if data = [] \<and> length raw_body > 5 then drop 5 raw_body else data, trailers))"

definition trailer_text :: "grpc_env \<Rightarrow> headers \<Rightarrow> (string \<rightharpoonup> string) \<Rightarrow> string \<Rightarrow> string option" where
  "trailer_text e hs trailers name =
     (case Option.bind (get hs name) (to_str (ge_http e)) of Some v \<Rightarrow> Some v | None \<Rightarrow> trailers name)"

definition parse_response_trailers ::
    "grpc_env \<Rightarrow> headers \<Rightarrow> (string \<rightharpoonup> string) \<Rightarrow> nat \<times> string \<times> string option" where
  "parse_response_trailers e hs body_trailers =
     (let status = Option.bind (trailer_text e hs body_trailers ''grpc-status'') parse_u64;
          code = (case status of Some n \<Rightarrow> if n \<le> u32_max then n else 0 | None \<Rightarrow> 0) in
      (code, grpc_status_name code,
       map_option (ge_percent_decode e) (trailer_text e hs body_trailers ''grpc-message'')))"

record grpc_health_check_response =
  gh_healthy :: bool
  gh_status :: grpc_serving_status
  gh_status_code :: nat
  gh_grpc_status :: nat
  gh_grpc_status_name :: string
  gh_grpc_message :: "string option"
  gh_latency_ms :: nat

definition serving_status_code :: "grpc_serving_status \<Rightarrow> nat" where
  "serving_status_code s =
     (case s of Unknown \<Rightarrow> 0 | Serving \<Rightarrow> 1 | NotServing \<Rightarrow> 2 | ServiceUnknown \<Rightarrow> 3)"

definition serving_status_as_str :: "grpc_serving_status \<Rightarrow> string" where
  "serving_status_as_str s =
     (case s of Serving \<Rightarrow> ''SERVING'' | NotServing \<Rightarrow> ''NOT_SERVING''
      | ServiceUnknown \<Rightarrow> ''SERVICE_UNKNOWN'' | Unknown \<Rightarrow> ''UNKNOWN'')"

text \<open>The outer option is \<^term>\<open>None\<close> when the call never returns.\<close>

definition check_grpc_health ::
    "grpc_env \<Rightarrow> string \<Rightarrow> string \<Rightarrow> (string + grpc_health_check_response) option" where
  "check_grpc_health e target_url service =
     (let url = format_health_url target_url in
      case ge_send e url create_health_request_headers (encode_health_check_request service) of
        Inl err \<Rightarrow> Some (Inl (''connection to '' @ url @ '' failed: '' @ err))
      | Inr reply \<Rightarrow>
          if \<not> (200 \<le> gr_status reply \<and> gr_status reply < 300) then
            Some (Inl (''upstream returned HTTP status '' @ gr_status_text reply))
          else
            (case gr_body reply of
               Inl err \<Rightarrow> Some (Inl (''failed reading response: '' @ err))
             | Inr body \<Rightarrow>
                 let (payload, body_trailers) = parse_grpc_body_frames body;
                     (code, name, msg) = parse_response_trailers e (gr_headers reply) body_trailers in
                 if code \<noteq> 0 then
                   Some (Inr \<lparr>gh_healthy = False, gh_status = Unknown, gh_status_code = 0, gh_grpc_status = code,
                     gh_grpc_status_name = name, gh_grpc_message = msg, gh_latency_ms = ge_latency_ms e\<rparr>)
                 else
                   map_option (\<lambda>serving_status.
                     Inr \<lparr>gh_healthy = is_serving serving_status, gh_status = serving_status,
                       gh_status_code = serving_status_code serving_status, gh_grpc_status = 0,
                       gh_grpc_status_name = ''OK'', gh_grpc_message = msg, gh_latency_ms = ge_latency_ms e\<rparr>)
                     (parse_health_check_response payload)))"

text \<open>\<open>probe_grpc\<close> of \<open>proxy/health.rs\<close>, with the client that the scheme of the target selects.\<close>

definition probe_grpc :: "grpc_env \<Rightarrow> grpc_env \<Rightarrow> string \<Rightarrow> string \<Rightarrow> (string + unit) option" where
  "probe_grpc h2c_client tls_client target_url service =
     map_option (\<lambda>r. try_then r (\<lambda>res.
         if gh_healthy res then Inr ()
         else Inl (''gRPC health check status '' @ serving_status_as_str (gh_status res) @ '' ('' @
                gh_grpc_status_name res @ '')'')))
       (check_grpc_health (if starts_with ''https://'' target_url then tls_client else h2c_client) target_url service)"

section \<open>Varints are read back\<close>

lemma byte_value_of: "byte_value (byte_of w) = take_bit 8 w"
  by (simp add: byte_value_def byte_of_def take_bit_eq_mod word_arith_nat_mod flip: of_nat_mod)

lemma mask_7: "(0x7f :: u64) = mask 7"
  by (simp add: mask_eq_exp_minus_1)

lemma exp_7: "(0x80 :: u64) = 2 ^ 7"
  by simp

lemma bit_0x80: "bit (0x80 :: u64) n \<longleftrightarrow> n = 7"
  unfolding exp_7 bit_exp_iff by auto

lemma flagged_byte:
  assumes "\<And>n. bit (m :: u64) n \<longleftrightarrow> n = 7"
  shows "take_bit 8 ((v AND mask 7) OR m) AND mask 7 = v AND mask 7"
    and "bit (take_bit 8 ((v AND mask 7) OR m)) 7"
  by (rule bit_eqI) (auto simp: bit_simps assms)

lemma continued_byte:
  "byte_value (byte_of ((v AND 0x7f) OR 0x80)) AND 0x7f = v AND 0x7f"
  "byte_value (byte_of ((v AND 0x7f) OR 0x80)) AND 0x80 \<noteq> 0"
  using flagged_byte [OF bit_0x80, of v] and_exp_eq_0_iff_not_bit [of "take_bit 8 ((v AND mask 7) OR 0x80)" 7]
  unfolding byte_value_of mask_7 by simp_all

lemma last_byte:
  assumes "\<not> v \<ge> 0x80"
  shows "byte_value (byte_of v) AND 0x7f = v" and "byte_value (byte_of v) AND 0x80 = 0"
proof -
  have "unat v < 2 ^ 7" using assms by (simp add: word_le_nat_alt)
  then have "take_bit 7 v = v" by (simp add: take_bit_eq_mod word_arith_nat_mod)
  then show "byte_value (byte_of v) AND 0x7f = v"
    unfolding byte_value_of mask_7 by (simp flip: take_bit_eq_mask)
  have "\<not> bit v 7" using \<open>take_bit 7 v = v\<close> by (metis bit_take_bit_iff order_less_irrefl)
  then show "byte_value (byte_of v) AND 0x80 = 0"
    unfolding byte_value_of exp_7 and_exp_eq_0_iff_not_bit by (simp add: bit_simps)
qed

lemma push_split: "push_bit n (v AND 0x7f) OR push_bit (n + 7) (drop_bit 7 v) = push_bit n (v :: u64)"
proof (rule bit_eqI)
  fix i
  have "\<not> i - n < 7 \<Longrightarrow> 7 + (i - (n + 7)) = i - n" by arith
  then show "bit (push_bit n (v AND 0x7f) OR push_bit (n + 7) (drop_bit 7 v)) i = bit (push_bit n v) i"
    unfolding mask_7 by (cases "i - n < 7") (auto simp: bit_simps)
qed

lemma read_write_loop:
  "unat v < 2 ^ (64 - shift) \<Longrightarrow> shift < 64 \<Longrightarrow>
   read_varint_loop (write_varint v @ rest) offset val shift =
     (Some (val OR push_bit shift v), offset + length (write_varint v))"
proof (induction v arbitrary: shift val offset rule: write_varint.induct)
  case (1 v)
  show ?case
  proof (cases "v \<ge> 0x80")
    case True
    have "2 ^ 7 < (2 :: nat) ^ (64 - shift)"
      using True 1(2) by (simp add: word_le_nat_alt)
    then have s: "shift + 7 < 64" using power_less_imp_less_exp [of "2 :: nat" 7 "64 - shift"] by simp
    then have "(2 :: nat) ^ (64 - shift) = 2 ^ 7 * 2 ^ (64 - (shift + 7))"
      by (subst power_add [symmetric]) simp
    then have "unat v < 2 ^ 7 * 2 ^ (64 - (shift + 7))"
      using 1(2) by simp
    then have "unat (drop_bit 7 v) < 2 ^ (64 - (shift + 7))"
      by (simp add: unat_drop_7 less_mult_imp_div_less mult.commute)
    from 1(1) [OF True this s] show ?thesis
      using True s by (simp add: write_varint.simps [of v] continued_byte or.assoc push_split del: push_bit_and)
  next
    case False
    then show ?thesis using 1(3) by (simp add: write_varint.simps [of v] last_byte del: push_bit_and)
  qed
qed

lemma read_write_varint:
  "read_varint (before @ write_varint v @ rest) (length before) =
     (Some v, length before + length (write_varint v))"
  using read_write_loop [of v 0 rest "length before" 0] unsigned_less [of v] by (simp add: read_varint_def)

lemma length_write_varint: "unat v < 2 ^ (7 * Suc k) \<Longrightarrow> length (write_varint v) \<le> Suc k"
proof (induction k arbitrary: v)
  case 0
  then show ?case by (simp add: write_varint.simps [of v] word_le_nat_alt)
next
  case (Suc k)
  have "(2 :: nat) ^ (7 * Suc (Suc k)) = 2 ^ 7 * 2 ^ (7 * Suc k)"
    by (subst power_add [symmetric]) simp
  then have "unat v < 2 ^ 7 * 2 ^ (7 * Suc k)" using Suc.prems by simp
  then have "unat (drop_bit 7 v) < 2 ^ (7 * Suc k)"
    by (simp add: unat_drop_7 less_mult_imp_div_less mult.commute)
  from Suc.IH [OF this] show ?case by (simp add: write_varint.simps [of v])
qed

lemma varint_not_Nil [simp]: "write_varint v \<noteq> []"
  by (simp add: write_varint.simps [of v])

lemma read_varint_loop_progress:
  "read_varint_loop cs offset val shift = (r, offset') \<Longrightarrow>
   offset \<le> offset' \<and> offset' \<le> offset + length cs \<and> (cs \<noteq> [] \<longrightarrow> offset < offset')"
proof (induction cs offset val shift arbitrary: offset' rule: read_varint_loop.induct)
  case (2 c cs offset val shift)
  show ?case
  proof (cases "byte_value c AND 0x80 = 0 \<or> shift + 7 \<ge> 64")
    case True
    then show ?thesis using 2(2) by (auto simp: Let_def split: if_splits)
  next
    case False
    then show ?thesis using 2(2) 2(1) [OF refl refl] by (fastforce simp: Let_def)
  qed
qed simp

lemma read_varint_progress:
  assumes "read_varint data offset = (r, offset')"
  shows "offset \<le> offset'" and "offset \<le> length data \<Longrightarrow> offset' \<le> length data"
    and "offset < length data \<Longrightarrow> offset < offset'"
  using read_varint_loop_progress [OF assms [unfolded read_varint_def]] by auto

section \<open>Tags\<close>

lemma unat_take_bit: "unat (take_bit n w :: u64) = unat w mod 2 ^ n"
  unfolding unsigned_take_bit_eq by (simp add: take_bit_eq_mod)

lemma unat_and_7: "unat (w AND 7 :: u64) = unat w mod 8"
proof -
  have "(7 :: u64) = mask 3" by (simp add: mask_eq_exp_minus_1)
  then have "w AND 7 = take_bit 3 w" by (simp add: take_bit_eq_mask)
  then show ?thesis by (simp add: unat_take_bit)
qed

definition tag_of :: "nat \<Rightarrow> nat \<Rightarrow> u64" where
  "tag_of field_number wire_type = push_bit 3 (of_nat field_number) OR (of_nat wire_type AND 0x07)"

lemma drop_tag: "drop_bit 3 (push_bit 3 w OR (v AND mask 3)) = (take_bit 61 w :: u64)"
  by (rule bit_eqI) (auto simp: bit_simps)

lemma and_tag: "(push_bit 3 w OR (v AND mask 3)) AND mask 3 = (v AND mask 3 :: u64)"
  by (rule bit_eqI) (auto simp: bit_simps)

lemma tag_parts:
  assumes "n < 2 ^ 32" and "w < 8"
  shows "tag_field (tag_of n w) = n" and "tag_wire (tag_of n w) = w"
proof -
  have m: "(7 :: u64) = mask 3" by (simp add: mask_eq_exp_minus_1)
  have "unat (take_bit 61 (of_nat n :: u64)) = n"
    unfolding unat_take_bit using assms(1) by (simp add: unsigned_of_nat take_bit_eq_mod)
  then show "tag_field (tag_of n w) = n"
    unfolding tag_field_def tag_of_def m drop_tag using assms(1) by simp
  have "tag_wire (tag_of n w) = unat (of_nat w AND 7 :: u64)"
    by (simp only: tag_wire_def tag_of_def m and_tag)
  then show "tag_wire (tag_of n w) = w"
    using assms(2) by (simp add: unat_and_7 unsigned_of_nat take_bit_eq_mod)
qed

lemma read_write_tag:
  "read_varint (before @ write_tag n w @ rest) (length before) =
     (Some (tag_of n w), length before + length (write_tag n w))"
  using read_write_varint [of before "tag_of n w" rest] by (simp add: write_tag_def tag_of_def)

section \<open>The walk over the fields of an answer\<close>

text \<open>A field as a server may put it before the status.\<close>

datatype wire_field = WVarint nat u64 | WFixed64 nat string | WBytes nat string | WFixed32 nat string

fun encode_field :: "wire_field \<Rightarrow> string" where
  "encode_field (WVarint n v) = write_tag n 0 @ write_varint v"
| "encode_field (WFixed64 n bs) = write_tag n 1 @ bs"
| "encode_field (WBytes n bs) = write_bytes_field n bs"
| "encode_field (WFixed32 n bs) = write_tag n 5 @ bs"

fun other_field :: "wire_field \<Rightarrow> bool" where
  "other_field (WVarint n v) \<longleftrightarrow> n < 2 ^ 32 \<and> n \<noteq> 1"
| "other_field (WFixed64 n bs) \<longleftrightarrow> n < 2 ^ 32 \<and> length bs = 8"
| "other_field (WBytes n bs) \<longleftrightarrow> n < 2 ^ 32"
| "other_field (WFixed32 n bs) \<longleftrightarrow> n < 2 ^ 32 \<and> length bs = 4"

lemma write_tag_not_Nil [simp]: "write_tag n w \<noteq> []"
  by (simp add: write_tag_def)

lemma health_loop_tag:
  assumes "n < 2 ^ 32" and "w < 8" and "\<not> (n = 1 \<and> w = 0)"
  shows "health_loop (before @ write_tag n w @ rest) (length before) =
    health_loop (before @ write_tag n w @ rest)
      (skip_wire_field (before @ write_tag n w @ rest) (length (before @ write_tag n w)) w)"
  using assms tag_parts [OF assms(1,2)] read_write_tag [of before n w rest]
  by (subst health_loop.simps) auto

lemma skip_field:
  assumes "other_field fd" and "length (before @ encode_field fd @ rest) < 2 ^ 64"
  shows "health_loop (before @ encode_field fd @ rest) (length before) =
    health_loop (before @ encode_field fd @ rest) (length (before @ encode_field fd))"
proof (cases fd)
  case (WVarint n v)
  then show ?thesis
    using assms health_loop_tag [of n 0 before "write_varint v @ rest"]
      read_write_varint [of "before @ write_tag n 0" v rest]
    by (simp add: skip_wire_field_def add.assoc)
next
  case (WFixed64 n bs)
  then show ?thesis
    using assms health_loop_tag [of n 1 before "bs @ rest"] by (simp add: skip_wire_field_def add.assoc)
next
  case (WBytes n bs)
  then have "unat (of_nat (length bs) :: u64) = length bs"
    using assms(2) by (simp add: unsigned_of_nat take_bit_eq_mod write_bytes_field_def)
  then show ?thesis
    using WBytes assms health_loop_tag [of n 2 before "write_varint (of_nat (length bs)) @ bs @ rest"]
      read_write_varint [of "before @ write_tag n 2" "of_nat (length bs)" "bs @ rest"]
    by (simp add: skip_wire_field_def write_bytes_field_def add.assoc)
next
  case (WFixed32 n bs)
  then show ?thesis
    using assms health_loop_tag [of n 5 before "bs @ rest"] by (simp add: skip_wire_field_def add.assoc)
qed

lemma skip_fields:
  "list_all other_field fs \<Longrightarrow> length (before @ concat (map encode_field fs) @ rest) < 2 ^ 64 \<Longrightarrow>
   health_loop (before @ concat (map encode_field fs) @ rest) (length before) =
   health_loop (before @ concat (map encode_field fs) @ rest) (length (before @ concat (map encode_field fs)))"
proof (induction fs arbitrary: before)
  case (Cons fd fs)
  then show ?case
    using skip_field [of fd before "concat (map encode_field fs) @ rest"] Cons.IH [of "before @ encode_field fd"]
    by simp
qed simp

lemma health_loop_status:
  "health_loop (before @ write_tag 1 0 @ write_varint v @ rest) (length before) = Some (serving_status_from_u64 v)"
  using read_write_tag [of before 1 0 "write_varint v @ rest"]
    read_write_varint [of "before @ write_tag 1 0" v rest] tag_parts [of 1 0]
  by (subst health_loop.simps) simp

lemma parse_health_status:
  assumes "list_all other_field fs"
    and "length (concat (map encode_field fs) @ write_tag 1 0 @ write_varint v @ rest) < 2 ^ 64"
  shows "parse_health_check_response (concat (map encode_field fs) @ write_tag 1 0 @ write_varint v @ rest) =
    Some (serving_status_from_u64 v)"
  using skip_fields [of fs "[]" "write_tag 1 0 @ write_varint v @ rest"] assms
    health_loop_status [of "concat (map encode_field fs)" v rest]
  by (simp add: parse_health_check_response_def)

lemma div_mod_256: "n div 256 ^ Suc k * 256 + n div 256 ^ k mod 256 = n div 256 ^ k" for n :: nat
  using div_mult_mod_eq [of "n div 256 ^ k" 256] by (simp only: div_mult2_eq power_Suc2)

lemma from_to_be_u32:
  assumes "n < 2 ^ 32"
  shows "from_be_u32 (to_be_u32 n) = n"
proof -
  have "n div 256 ^ 3 mod 256 = n div 256 ^ 3" using assms by (intro mod_less) (simp add: less_mult_imp_div_less)
  moreover have "from_be_u32 (to_be_u32 n) =
      ((n div 256 ^ 3 mod 256 * 256 + n div 256 ^ 2 mod 256) * 256 + n div 256 ^ 1 mod 256) * 256 + n div 256 ^ 0 mod 256"
    by (simp add: from_be_u32_def to_be_u32_def)
  moreover note div_mod_256 [of n 2, simplified Suc_numeral semiring_norm] div_mod_256 [of n 1] div_mod_256 [of n 0]
  ultimately show ?thesis by (simp only: numeral_2_eq_2 numeral_3_eq_3 One_nat_def power_0 div_by_Suc_0)
qed

lemma length_to_be_u32 [simp]: "length (to_be_u32 n) = 4"
  by (simp add: to_be_u32_def)

lemma decode_encode_frame:
  "length payload < 2 ^ 32 \<Longrightarrow>
   decode_framed_grpc_message (encode_framed_grpc_message payload @ rest) = Some (CHR 0x00, payload)"
  using from_to_be_u32 [of "length payload"]
  by (simp add: decode_framed_grpc_message_def Let_def encode_framed_grpc_message_def)

lemma parse_single_frame:
  assumes "length payload < 2 ^ 32" and "payload \<noteq> []"
  shows "parse_grpc_body_frames (encode_framed_grpc_message payload) = (payload, Map.empty)"
proof -
  have "frames_loop (encode_framed_grpc_message payload) [] Map.empty = (payload, Map.empty)"
    using from_to_be_u32 [OF assms(1)]
    by (subst frames_loop.simps) (simp add: Let_def encode_framed_grpc_message_def frames_loop.simps [of "[]"])
  then show ?thesis using assms(2) by (simp add: parse_grpc_body_frames_def)
qed

section \<open>When the walk ends\<close>

text \<open>No length that the walk may read moves an offset past the range of \<open>usize\<close>.\<close>

definition lengths_in_range :: "string \<Rightarrow> bool" where
  "lengths_in_range payload \<longleftrightarrow>
     list_all (\<lambda>offset. case read_varint payload offset of
         (Some len, offset') \<Rightarrow> offset' + unat len < 2 ^ 64
       | (None, _) \<Rightarrow> True) [0..<length payload]"

lemma skip_wire_field_forward:
  assumes "lengths_in_range payload" and "offset \<le> length payload" and "length payload < 2 ^ 64"
  shows "offset \<le> skip_wire_field payload offset wire_type \<and>
    skip_wire_field payload offset wire_type \<le> length payload"
proof -
  obtain r offset' where rd: "read_varint payload offset = (r, offset')" by (metis surj_pair)
  note bounds = read_varint_progress(1,2) [OF rd]
  have "offset' + unat len < 2 ^ 64" if "r = Some len" for len
  proof (cases "offset < length payload")
    case True
    then have "case read_varint payload offset of (Some len, offset') \<Rightarrow> offset' + unat len < 2 ^ 64 | (None, _) \<Rightarrow> True"
      using assms(1) unfolding lengths_in_range_def list_all_iff by simp
    then show ?thesis using rd that by simp
  next
    case False
    then show ?thesis using rd that by (simp add: read_varint_def)
  qed
  then show ?thesis
    using bounds assms(2) rd by (cases r) (auto simp: skip_wire_field_def)
qed

lemma health_loop_returns:
  assumes "lengths_in_range payload" and "length payload < 2 ^ 64"
  shows "offset \<le> length payload \<Longrightarrow> \<exists>s. health_loop payload offset = Some s"
proof (induction "length payload - offset" arbitrary: offset rule: less_induct)
  case less
  obtain r offset' where rd: "read_varint payload offset = (r, offset')" by (metis surj_pair)
  note p = read_varint_progress [OF rd]
  show ?case
  proof (cases "offset < length payload \<and> (\<exists>t. r = Some t \<and> \<not> (tag_field t = 1 \<and> tag_wire t = 0))")
    case True
    then obtain t where t: "r = Some t" "\<not> (tag_field t = 1 \<and> tag_wire t = 0)" "offset < length payload" by blast
    let ?next = "skip_wire_field payload offset' (tag_wire t)"
    have "offset < offset'" and "offset' \<le> length payload" using p t(3) by auto
    then have "offset < ?next \<and> ?next \<le> length payload"
      using skip_wire_field_forward [OF assms(1) _ assms(2), of offset' "tag_wire t"] by linarith
    then have "\<exists>s. health_loop payload ?next = Some s" using less.hyps [of ?next] t(3) by auto
    then show ?thesis using t rd by (subst health_loop.simps) auto
  next
    case False
    then show ?thesis using rd by (subst health_loop.simps) (auto split: option.splits prod.splits)
  qed
qed

section \<open>The correctness properties\<close>

text \<open>A client that answers every request with the given body, and a status 200.\<close>

definition answering :: "string \<Rightarrow> grpc_env" where
  "answering body =
     \<lparr>ge_http = \<lparr>hx_text_byte = (\<lambda>_. True), hx_value_byte = (\<lambda>_. True), hx_str_byte = (\<lambda>_. True)\<rparr>,
      ge_send = (\<lambda>_ _ _. Inr \<lparr>gr_status = 200, gr_status_text = ''200 OK'', gr_headers = [], gr_body = Inr body\<rparr>),
      ge_latency_ms = 0, ge_percent_decode = (\<lambda>s. s)\<rparr>"





definition endless_answer :: string where
  "endless_answer =
     [CHR 0x12, CHR 0xF5, CHR 0xFF, CHR 0xFF, CHR 0xFF, CHR 0xFF, CHR 0xFF, CHR 0xFF, CHR 0xFF, CHR 0xFF, CHR 0x01]"

lemma endless_bytes: "endless_answer = write_varint 0x12 @ write_varint 0xFFFFFFFFFFFFFFF5"
proof -
  have "byte_of 0x12 = CHR 0x12" "byte_of 0xF5 = CHR 0xF5" "byte_of 0xFF = CHR 0xFF" "byte_of 1 = CHR 0x01"
    by code_simp+
  moreover have "\<not> (0x80 :: u64) \<le> 1" by (simp add: word_le_nat_alt)
  ultimately show ?thesis by (simp add: endless_answer_def write_varint.simps)
qed

lemma endless_reads:
  "read_varint endless_answer 0 = (Some 0x12, 1)" "skip_wire_field endless_answer 1 2 = 0"
proof -
  have l: "length endless_answer = 11" "length (write_varint 0x12) = 1"
    by (simp_all add: endless_answer_def write_varint.simps)
  show "read_varint endless_answer 0 = (Some 0x12, 1)"
    using read_write_varint [of "[]" "0x12" "write_varint 0xFFFFFFFFFFFFFFF5"] l by (simp add: endless_bytes)
  have "read_varint endless_answer 1 = (Some 0xFFFFFFFFFFFFFFF5, 11)"
    using read_write_varint [of "write_varint 0x12" "0xFFFFFFFFFFFFFFF5" "[]"] l by (simp add: endless_bytes)
  then show "skip_wire_field endless_answer 1 2 = 0" by (simp add: skip_wire_field_def)
qed

lemma endless_step:
  "health_loop payload offset = Some s \<Longrightarrow> \<not> (payload = endless_answer \<and> offset = 0)"
proof (erule health_loop.raw_induct [rotated])
  fix f payload offset s
  assume f: "\<And>payload offset s. f payload offset = Some s \<Longrightarrow> \<not> (payload = endless_answer \<and> offset = 0)"
    and body: "(if offset < length payload then
        (case read_varint payload offset of
           (None, _) \<Rightarrow> Some Unknown
         | (Some tag_raw, offset') \<Rightarrow>
             if tag_field tag_raw = 1 \<and> tag_wire tag_raw = 0 then
               (case read_varint payload offset' of
                  (None, _) \<Rightarrow> Some Unknown
                | (Some val, _) \<Rightarrow> Some (serving_status_from_u64 val))
             else f payload (skip_wire_field payload offset' (tag_wire tag_raw)))
      else Some Unknown) = Some s"
  show "\<not> (payload = endless_answer \<and> offset = 0)"
  proof
    assume "payload = endless_answer \<and> offset = 0"
    moreover have "length endless_answer = 11" by (simp add: endless_answer_def)
    moreover have "tag_field 0x12 = 2" "tag_wire 0x12 = 2" by code_simp+
    ultimately have "f endless_answer 0 = Some s" using body endless_reads by simp
    then show False using f by blast
  qed
qed

text \<open>C32: The walk does not end on every buffer.  A length-delimited field with the length
  \<open>2 ^ 64 - 11\<close> puts the offset back to the start of the answer, and the active check of a server that
  sends these eleven bytes never returns.\<close>

theorem oversized_length_never_returns:
  "parse_health_check_response endless_answer = None \<and>
   probe_grpc (answering (encode_framed_grpc_message endless_answer)) (answering []) ''http://a'' ''s'' = None"
proof -
  have n: "parse_health_check_response endless_answer = None"
    unfolding parse_health_check_response_def using endless_step by (metis not_Some_eq)
  have "parse_grpc_body_frames (encode_framed_grpc_message endless_answer) = (endless_answer, Map.empty)"
    by (rule parse_single_frame) (simp_all add: endless_answer_def)
  then show ?thesis using n
    by (simp add: probe_grpc_def check_grpc_health_def answering_def starts_with_def Let_def
        parse_response_trailers_def trailer_text_def get_def get_all_def)
qed

end
