(* ===== verification/Group_Liveness.thy ===== *)
theory Group_Liveness
  imports Group_Run
begin

text \<open>
  Recovery of an upstream server: whatever happened to a group, the circuit of each of its servers
  can close again.  A running trial ends with its permit, a half-open circuit admits the next
  request, and an open one admits a request once its deadline has passed; a trial that succeeds
  closes the circuit.
\<close>

lemma success_closes_trial:
  assumes "ledger s" and "p \<in># sy_permits s" and "pm_trial p" and "pm_index p = i"
    and "i < length (ug_breakers (sy_group s))"
  shows "\<exists>s'. group_step s s' \<and> group_circuit_state (sy_group s') i = StClosed"
proof -
  have ok: "permit_ok (sy_group s) p" using assms(1,2) by (simp add: ledger_def)
  have "p \<in># filter_mset (\<lambda>p. pm_index p = i \<and> pm_trial p) (sy_permits s)" using assms(2-4) by simp
  then have "trials i (sy_permits s) \<noteq> 0" unfolding trials_def by (metis size_eq_0_iff_empty empty_not_add_mset multi_member_split)
  then have half: "br_circuit (ug_breakers (sy_group s) ! i) = HalfOpen True"
    using assms(1,5) by (auto simp: ledger_def split: if_splits)
  let ?g = "record_circuit (report_success (sy_group s) i) i True None 0"
  obtain st1 where "permit_success p 0 (sy_group s, sy_store s) = (?g, st1)"
    using assms(3,4) by (simp add: permit_success_def permit_record_def permit_drop_def Let_def)
  then have "group_step s (s\<lparr>sy_group := ?g, sy_store := st1, sy_permits := sy_permits s - {#p#}\<rparr>)"
    using assms(2) by (rule group_step.success [rotated])
  moreover have "same_books (sy_group s) (report_success (sy_group s) i)" by (simp add: same_books_reports)
  then have "group_circuit_state ?g i = StClosed"
    using half ok assms(3-5)
    by (simp add: group_circuit_state_def breaker_at_def record_circuit_def same_books_def permit_ok_def
        record_result_def finish_trial_def circuit_state_of_def breaker_default_def)
  ultimately show ?thesis by (intro exI [of _ "s\<lparr>sy_group := ?g, sy_store := st1, sy_permits := sy_permits s - {#p#}\<rparr>"]) simp
qed

lemma acquire_trial:
  assumes "i < length (ug_breakers g)" and "cb_enabled (ug_circuit_breaker g)"
    and "\<not> blocks (ug_breakers g ! i) now" and "br_circuit (ug_breakers g ! i) \<noteq> Closed"
  obtains p g' st' where "acquire g st i now = (Some p, g', st')" and "pm_trial p" and "pm_index p = i"
  using assms by (simp add: acquire_def breaker_at_def admit_def Let_def)

lemma trial_closes:
  assumes "ledger s" and "i < length (ug_breakers (sy_group s))"
    and "acquire (sy_group s) (sy_store s) i now = (Some p, g', st')" and "pm_trial p" and "pm_index p = i"
  shows "\<exists>s'. group_reach s s' \<and> group_circuit_state (sy_group s') i = StClosed"
proof -
  let ?s1 = "s\<lparr>sy_group := g', sy_store := st', sy_permits := add_mset p (sy_permits s)\<rparr>"
  have step: "group_step s ?s1" using assms(3) by (rule group_step.acquire)
  moreover have "i < length (ug_breakers g')" using acquire_shape [OF assms(3)] assms(2) by (simp add: same_shape_def)
  ultimately obtain s' where "group_step ?s1 s'" "group_circuit_state (sy_group s') i = StClosed"
    using success_closes_trial [OF group_step_ledger, of s ?s1 p i] assms(1,4,5) by auto
  then show ?thesis using step group_reach.step group_reach.refl by blast
qed

lemma circuit_can_close:
  assumes "ledger s" and "i < length (ug_breakers (sy_group s))" and "cb_enabled (ug_circuit_breaker (sy_group s))"
  shows "\<exists>s'. group_reach s s' \<and> group_circuit_state (sy_group s') i = StClosed"
proof (cases "br_circuit (ug_breakers (sy_group s) ! i)")
  case Closed
  then have "group_circuit_state (sy_group s) i = StClosed"
    using assms(2) by (simp add: group_circuit_state_def breaker_at_def circuit_state_of_def)
  then show ?thesis using group_reach.refl by blast
next
  case (Open until)
  then have "\<not> blocks (ug_breakers (sy_group s) ! i) until" by (simp add: blocks_def)
  then obtain p g' st' where a: "acquire (sy_group s) (sy_store s) i until = (Some p, g', st')" "pm_trial p" "pm_index p = i"
    using acquire_trial [of i "sy_group s" until "sy_store s"] assms(2,3) Open by auto
  then show ?thesis using trial_closes [OF assms(1,2) a] by blast
next
  case (HalfOpen t)
  show ?thesis
  proof (cases t)
    case True
    then have "trials i (sy_permits s) = 1" using assms(1,2) HalfOpen by (simp add: ledger_def)
    then have "filter_mset (\<lambda>p. pm_index p = i \<and> pm_trial p) (sy_permits s) \<noteq> {#}"
      unfolding trials_def by (metis size_empty zero_neq_one)
    then obtain p where "p \<in># sy_permits s" "pm_trial p" "pm_index p = i"
      using multiset_nonemptyE by fastforce
    then show ?thesis
      using success_closes_trial [OF assms(1)] assms(2) group_reach.step [OF group_reach.refl] by blast
  next
    case False
    then have "\<not> blocks (ug_breakers (sy_group s) ! i) 0" using HalfOpen by (simp add: blocks_def)
    then obtain p g' st' where a: "acquire (sy_group s) (sy_store s) i 0 = (Some p, g', st')" "pm_trial p" "pm_index p = i"
      using acquire_trial [of i "sy_group s" 0 "sy_store s"] assms(2,3) HalfOpen by auto
    then show ?thesis using trial_closes [OF assms(1,2) a] by blast
  qed
qed

text \<open>A group whose one server tripped its circuit with its first request.\<close>

definition strict_breaker :: circuit_breaker where
  "strict_breaker = circuit_breaker_default\<lparr>cb_enabled := True, cb_min_requests := 1\<rparr>"

definition strict_start :: group_sys where
  "strict_start = group_start one_server First health_check_default strict_breaker sample_store"

definition strict_permit :: permit where
  "strict_permit = \<lparr>pm_index = 0, pm_trial = False, pm_reported = False, pm_active_conn = Some 100,
     pm_metrics = Some 100, pm_start = 7\<rparr>"

definition strict_acquired :: group_sys where
  "strict_acquired = (case acquire (sy_group strict_start) (sy_store strict_start) 0 7 of
     (_, g, st) \<Rightarrow> strict_start\<lparr>sy_group := g, sy_store := st, sy_permits := {#strict_permit#}\<rparr>)"

definition strict_tripped :: group_sys where
  "strict_tripped =
     (case permit_failure strict_permit ''refused'' 9 (sy_group strict_acquired, sy_store strict_acquired) of
        (g, st) \<Rightarrow> strict_acquired\<lparr>sy_group := g, sy_store := st, sy_permits := {#}\<rparr>)"

lemmas strict_defs = strict_start_def strict_breaker_def group_start_def upstream_group_new_def one_server_def
  with_circuit_breaker_def circuit_breaker_default_def sample_store_def Let_def

lemma strict_start_fields:
  "ug_active_conns (sy_group strict_start) = [100]" "ug_metrics (sy_group strict_start) = [100]"
  "ug_breakers (sy_group strict_start) = [breaker_default]" "cb_enabled strict_breaker"
  "sy_permits strict_start = {#}" "ug_circuit_breaker (sy_group strict_start) = strict_breaker"
  by (simp_all add: strict_defs)

lemma strict_reach: "group_reach strict_start strict_tripped"
proof -
  have "fst (acquire (sy_group strict_start) (sy_store strict_start) 0 7) = Some strict_permit"
    by (simp add: acquire_def strict_start_fields breaker_at_def admit_def blocks_def breaker_default_def Let_def
        strict_permit_def)
  then obtain g st where a: "acquire (sy_group strict_start) (sy_store strict_start) 0 7 = (Some strict_permit, g, st)"
    by (metis prod.collapse)
  have "group_step strict_start strict_acquired"
    using group_step.acquire [OF a] by (simp add: strict_acquired_def a strict_start_fields)
  moreover obtain g' st' where
      f: "permit_failure strict_permit ''refused'' 9 (sy_group strict_acquired, sy_store strict_acquired) = (g', st')"
    by (metis surj_pair)
  have permits: "sy_permits strict_acquired = {#strict_permit#}" by (simp add: strict_acquired_def a)
  then have "strict_permit \<in># sy_permits strict_acquired" by simp
  from group_step.failure [OF this f] have "group_step strict_acquired strict_tripped"
    by (simp add: strict_tripped_def f permits)
  ultimately show ?thesis using group_reach.step group_reach.refl by blast
qed



end
