(* ===== verification/Deploy_Rules.thy ===== *)
theory Deploy_Rules
  imports Header_Rules Http_Headers Request_Limits "HOL-Library.Code_Target_Nat"
begin

text \<open>
  The rules that decide whether a push deploys an app and when: tag patterns and deployment windows
  (\<open>r3v3rs3-api/src/platform.rs\<close>), the push targets of a webhook (\<open>platform/hooks.rs\<close>), the
  approval a deployment needs (\<open>platform/deploy.rs\<close>) and the schedules of commands
  (\<open>platform/scheduler.rs\<close>).

  The pattern matcher is one loop with backtracking.  It is a \<open>partial_function\<close>, and that it
  returns on every pattern and tag is a theorem, as is its agreement with the recursive meaning of
  \<open>*\<close> and \<open>?\<close>.
\<close>

section \<open>Tag patterns\<close>

definition is_valid_tag_char :: "char \<Rightarrow> bool" where
  "is_valid_tag_char c \<longleftrightarrow> is_ascii_alphanumeric c \<or> c \<in> set ''.-_*?/+@''"

text \<open>The reason of an \<open>InvalidContainerSpec\<close> error is its value.\<close>

definition validate_tag_pattern :: "string \<Rightarrow> string + unit" where
  "validate_tag_pattern pattern =
     (if pattern = [] \<or> length pattern > 128 then Inl ''tag pattern must be between 1 and 128 characters''
      else if \<not> list_all is_valid_tag_char pattern then
        Inl ''tag pattern contains invalid characters (allowed: alphanumeric, ., -, _, *, ?, /, +, @)''
      else Inr ())"

definition char_matches :: "char \<Rightarrow> char \<Rightarrow> bool" where
  "char_matches p t \<longleftrightarrow> p = t \<or> p = CHR ''?''"

function skip_trailing_stars :: "string \<Rightarrow> nat \<Rightarrow> nat" where
  "skip_trailing_stars p idx =
     (if idx < length p \<and> p ! idx = CHR ''*'' then skip_trailing_stars p (idx + 1) else idx)"
  by pat_completeness auto

termination skip_trailing_stars
  by (relation "measure (\<lambda>(p, idx). length p - idx)") auto

declare skip_trailing_stars.simps [simp del]

partial_function (option) match_loop ::
    "string \<Rightarrow> string \<Rightarrow> nat \<Rightarrow> nat \<Rightarrow> nat option \<Rightarrow> nat \<Rightarrow> bool option" where
  "match_loop p t p_idx t_idx star match_idx =
     (if t_idx < length t then
        (if p_idx < length p \<and> char_matches (p ! p_idx) (t ! t_idx) then
           match_loop p t (p_idx + 1) (t_idx + 1) star match_idx
         else if p_idx < length p \<and> p ! p_idx = CHR ''*'' then
           match_loop p t (p_idx + 1) t_idx (Some p_idx) t_idx
         else (case star of
                 Some s \<Rightarrow> match_loop p t (s + 1) (match_idx + 1) star (match_idx + 1)
               | None \<Rightarrow> Some False))
      else Some (skip_trailing_stars p p_idx = length p))"

definition matches_tag_pattern :: "string \<Rightarrow> string \<Rightarrow> bool option" where
  "matches_tag_pattern pattern tag = match_loop pattern tag 0 0 None 0"

section \<open>Deployment windows\<close>

definition parse_u32 :: "string \<Rightarrow> nat option" where
  "parse_u32 s = (case parse_u64 s of None \<Rightarrow> None | Some n \<Rightarrow> if n \<le> u32_max then Some n else None)"

definition validate_window_time :: "string \<Rightarrow> string + unit" where
  "validate_window_time s =
     (case split_once CHR '':'' s of
        None \<Rightarrow> Inl ''deploy window time must be in format HH:MM''
      | Some (h_str, m_str) \<Rightarrow>
          (case parse_u32 h_str of
             None \<Rightarrow> Inl ''invalid hour in deploy window''
           | Some h \<Rightarrow>
               (case parse_u32 m_str of
                  None \<Rightarrow> Inl ''invalid minute in deploy window''
                | Some m \<Rightarrow> if h > 23 \<or> m > 59 then Inl ''hour must be 0-23 and minute 0-59'' else Inr ())))"

definition validate_deploy_window :: "string \<Rightarrow> string + unit" where
  "validate_deploy_window window =
     (case split_once CHR ''-'' window of
        None \<Rightarrow> Inl ''deploy window must be in format HH:MM-HH:MM''
      | Some (start, end_text) \<Rightarrow>
          try_then (validate_window_time start) (\<lambda>_. validate_window_time end_text))"

text \<open>The product and the sum wrap at \<open>2 ^ 32\<close> in a release build.\<close>

definition parse_window_minutes :: "string \<Rightarrow> nat option" where
  "parse_window_minutes s =
     (case split_once CHR '':'' s of
        None \<Rightarrow> None
      | Some (h_str, m_str) \<Rightarrow>
          (case (parse_u32 h_str, parse_u32 m_str) of
             (Some h, Some m) \<Rightarrow> Some ((h * 60 + m) mod 2 ^ 32)
           | _ \<Rightarrow> None))"

definition is_within_deploy_window :: "string \<Rightarrow> nat \<Rightarrow> nat \<Rightarrow> bool" where
  "is_within_deploy_window window hour minute =
     (case split_once CHR ''-'' window of
        None \<Rightarrow> True
      | Some (start_str, end_str) \<Rightarrow>
          (case (parse_window_minutes start_str, parse_window_minutes end_str) of
             (Some start, Some end_at) \<Rightarrow>
               (let cur = (hour * 60 + minute) mod 2 ^ 32 in
                if start \<le> end_at then start \<le> cur \<and> cur < end_at else start \<le> cur \<or> cur < end_at)
           | _ \<Rightarrow> True))"

definition needs_approval :: "bool \<Rightarrow> string option \<Rightarrow> nat \<Rightarrow> nat \<Rightarrow> string option" where
  "needs_approval require_approval deploy_window hour minute =
     (if require_approval then Some ''Waiting for manual approval''
      else (case deploy_window of
              Some window \<Rightarrow>
                if \<not> is_within_deploy_window window hour minute then Some ''Outside deploy window'' else None
            | None \<Rightarrow> None))"

section \<open>Pushes\<close>

text \<open>A \<open>GitRef\<close>, a \<open>RelPath\<close> and a \<open>CommitSha\<close> (\<open>r3v3rs3-api/src/git.rs\<close>) are strings that passed
  their check; parsing one is its check.\<close>

definition MAX_LENGTH :: nat where "MAX_LENGTH = 1024"

definition has_safe_chars :: "string \<Rightarrow> bool" where
  "has_safe_chars s \<longleftrightarrow> s \<noteq> [] \<and> length s \<le> MAX_LENGTH \<and>
     list_all (\<lambda>c. is_ascii_alphanumeric c \<or> c \<in> set ''._/-'') s"

definition check_git_ref :: "string \<Rightarrow> string + unit" where
  "check_git_ref s =
     (if has_safe_chars s \<and> \<not> list_ex (\<lambda>c. starts_with [c] s) ''-/.'' \<and> \<not> list_ex (\<lambda>c. ends_with [c] s) ''/.'' \<and>
         \<not> ends_with ''.lock'' s \<and> \<not> list_ex (\<lambda>part. sublist part s) [''..'', ''//'', ''/.'']
      then Inr () else Inl (''invalid branch name: '' @ s))"

definition check_rel_path :: "string \<Rightarrow> string + unit" where
  "check_rel_path s =
     (if has_safe_chars s \<and> \<not> list_ex (\<lambda>c. starts_with [c] s) ''/-'' \<and> \<not> list_ex (\<lambda>seg. seg = ''..'') (split_on CHR ''/'' s)
      then Inr () else Inl (''invalid path in the repository: '' @ s))"

definition check_commit_sha :: "string \<Rightarrow> string + unit" where
  "check_commit_sha s =
     (if (length s = 40 \<or> length s = 64) \<and>
         list_all (\<lambda>c. (let n = of_char c :: nat in 48 \<le> n \<and> n \<le> 57 \<or> 97 \<le> n \<and> n \<le> 102)) s
      then Inr () else Inl (''invalid commit: '' @ s))"

datatype push_target = Deploy "string option" | Ignore

definition check_push_ref :: "string \<Rightarrow> string option \<Rightarrow> string \<Rightarrow> (string + push_target) option" where
  "check_push_ref branch tag_trigger git_ref =
     (case strip_prefix ''refs/tags/'' git_ref of
        Some tag \<Rightarrow>
          map_option
            (\<lambda>triggered.
               if triggered then
                 (case check_git_ref tag of
                    Inl _ \<Rightarrow> Inl (''invalid tag name: '' @ tag)
                  | Inr _ \<Rightarrow> Inr (Deploy (Some tag)))
               else if tag = branch then Inr (Deploy None)
               else Inr Ignore)
            (case tag_trigger of None \<Rightarrow> Some False | Some pattern \<Rightarrow> matches_tag_pattern pattern tag)
      | None \<Rightarrow>
          Some (Inr (case strip_prefix ''refs/heads/'' git_ref of
                       Some head \<Rightarrow> if head = branch then Deploy None else Ignore
                     | None \<Rightarrow> Ignore)))"

definition is_empty_commit :: "string option \<Rightarrow> bool" where
  "is_empty_commit after =
     (case after of None \<Rightarrow> False | Some a \<Rightarrow> length a \<ge> 40 \<and> list_all (\<lambda>c. c = CHR ''0'') a)"

section \<open>The meaning of a pattern\<close>

fun glob :: "string \<Rightarrow> string \<Rightarrow> bool" where
  "glob [] t \<longleftrightarrow> t = []"
| "glob (c # p) t \<longleftrightarrow>
     (if c = CHR ''*'' then list_ex (\<lambda>k. glob p (drop k t)) [0..<Suc (length t)]
      else (case t of [] \<Rightarrow> False | x # xs \<Rightarrow> char_matches c x \<and> glob p xs))"

lemma glob_star: "glob (CHR ''*'' # p) t \<longleftrightarrow> (\<exists>k \<le> length t. glob p (drop k t))"
  by (auto simp: list_ex_iff less_Suc_eq_le simp del: upt_Suc)

declare glob.simps(2) [simp del]

lemma glob_char: "c \<noteq> CHR ''*'' \<Longrightarrow> glob (c # p) (x # xs) \<longleftrightarrow> char_matches c x \<and> glob p xs"
  by (simp add: glob.simps)

lemma glob_char_Nil: "c \<noteq> CHR ''*'' \<Longrightarrow> \<not> glob (c # p) []"
  by (simp add: glob.simps)

text \<open>A star may take more: what a later part of the tag satisfies, the whole rest satisfies.\<close>

lemma glob_star_drop: "glob (CHR ''*'' # p) (drop k t) \<Longrightarrow> glob (CHR ''*'' # p) t"
proof -
  assume "glob (CHR ''*'' # p) (drop k t)"
  then obtain j where j: "j \<le> length (drop k t)" "glob p (drop j (drop k t))" by (auto simp: glob_star)
  then have "glob p (drop (min (j + k) (length t)) t)" by (cases "j + k \<le> length t") (simp_all add: min_def)
  then show ?thesis unfolding glob_star by (meson min.cobounded2)
qed

text \<open>A part without stars takes as many characters as it has.\<close>

lemma glob_plain:
  "CHR ''*'' \<notin> set m \<Longrightarrow> glob (m @ p) t \<Longrightarrow> length m \<le> length t \<and> glob p (drop (length m) t)"
proof (induction m arbitrary: t)
  case (Cons c m)
  then show ?case by (cases t) (auto simp: glob_char glob_char_Nil)
qed simp

lemma glob_Nil_tag: "glob p [] \<longleftrightarrow> list_all (\<lambda>c. c = CHR ''*'') p"
proof (induction p)
  case (Cons c p)
  then show ?case by (cases "c = CHR ''*''") (auto simp: glob_star glob_char_Nil)
qed simp

lemma skip_stars_end:
  "idx \<le> length p \<Longrightarrow> skip_trailing_stars p idx = length p \<longleftrightarrow> glob (drop idx p) []"
proof (induction p idx rule: skip_trailing_stars.induct)
  case (1 p idx)
  show ?case
  proof (cases "idx < length p")
    case True
    then have "drop idx p = p ! idx # drop (Suc idx) p" by (simp add: Cons_nth_drop_Suc)
    then show ?thesis using 1 True by (subst skip_trailing_stars.simps) (auto simp: glob_Nil_tag)
  next
    case False
    then show ?thesis using 1(2) by (subst skip_trailing_stars.simps) simp
  qed
qed

section \<open>The loop returns\<close>

definition star_count :: "nat option \<Rightarrow> nat" where
  "star_count star = (case star of None \<Rightarrow> 0 | Some s \<Rightarrow> Suc s)"

definition loop_order :: "string \<Rightarrow> string \<Rightarrow> ((nat \<times> nat \<times> nat option \<times> nat) \<times> (nat \<times> nat \<times> nat option \<times> nat)) set" where
  "loop_order p t = measures
     [\<lambda>(_, _, star, _). length p - star_count star, \<lambda>(_, _, _, m). length t - m, \<lambda>(_, i, _, _). length t - i]"

lemma match_loop_returns:
  assumes "\<forall>s. star = Some s \<longrightarrow> s < p_idx \<and> match_idx \<le> t_idx"
  shows "\<exists>b. match_loop p t p_idx t_idx star match_idx = Some b"
proof -
  have "wf (loop_order p t)" by (simp add: loop_order_def)
  then show ?thesis using assms
  proof (induction "(p_idx, t_idx, star, match_idx)" arbitrary: p_idx t_idx star match_idx rule: wf_induct_rule)
    case less
    show ?case
    proof (cases "t_idx < length t")
      case False
      then show ?thesis by (subst match_loop.simps) simp
    next
      case t: True
      consider (char) "p_idx < length p" "char_matches (p ! p_idx) (t ! t_idx)"
        | (wild) "p_idx < length p" "\<not> char_matches (p ! p_idx) (t ! t_idx)" "p ! p_idx = CHR ''*''"
        | (retry) "\<not> (p_idx < length p \<and> char_matches (p ! p_idx) (t ! t_idx))"
            "\<not> (p_idx < length p \<and> p ! p_idx = CHR ''*'')" by blast
      then show ?thesis
      proof cases
        case char
        have "\<exists>b. match_loop p t (p_idx + 1) (t_idx + 1) star match_idx = Some b"
          by (rule less.hyps) (use less.prems t in \<open>auto simp: loop_order_def\<close>)
        then show ?thesis using char t by (subst match_loop.simps) simp
      next
        case wild
        have "\<exists>b. match_loop p t (p_idx + 1) t_idx (Some p_idx) t_idx = Some b"
          by (rule less.hyps)
            (use less.prems wild(1) in \<open>auto simp: loop_order_def star_count_def split: option.split\<close>)
        then show ?thesis using wild t by (subst match_loop.simps) simp
      next
        case retry
        show ?thesis
        proof (cases star)
          case None
          then show ?thesis using retry t by (subst match_loop.simps) auto
        next
          case (Some s)
          have "\<exists>b. match_loop p t (s + 1) (match_idx + 1) (Some s) (match_idx + 1) = Some b"
            by (rule less.hyps) (use less.prems t Some in \<open>auto simp: loop_order_def\<close>)
          then show ?thesis using retry t Some by (subst match_loop.simps) auto
        qed
      qed
    qed
  qed
qed

section \<open>The loop decides the pattern\<close>

text \<open>
  What the loop knows: since the last star, the pattern has no other star and has taken as many
  characters of the tag as it has.  \<open>open_choice\<close> is the question that is left: the rest of the
  pattern against the rest of the tag, or a longer text for the last star.
\<close>

definition loop_inv :: "string \<Rightarrow> string \<Rightarrow> nat \<Rightarrow> nat \<Rightarrow> nat option \<Rightarrow> nat \<Rightarrow> bool" where
  "loop_inv p t p_idx t_idx star match_idx \<longleftrightarrow> p_idx \<le> length p \<and> t_idx \<le> length t \<and>
     (case star of None \<Rightarrow> True
      | Some s \<Rightarrow> \<exists>m. drop (Suc s) p = m @ drop p_idx p \<and> CHR ''*'' \<notin> set m \<and> p_idx = Suc s + length m \<and>
          t_idx = match_idx + length m)"

definition open_choice :: "string \<Rightarrow> string \<Rightarrow> nat \<Rightarrow> nat \<Rightarrow> nat option \<Rightarrow> nat \<Rightarrow> bool" where
  "open_choice p t p_idx t_idx star match_idx \<longleftrightarrow> glob (drop p_idx p) (drop t_idx t) \<or>
     (case star of None \<Rightarrow> False
      | Some s \<Rightarrow> \<exists>k. match_idx < k \<and> k \<le> length t \<and> glob (drop (Suc s) p) (drop k t))"

lemma glob_mismatch:
  assumes "t_idx < length t" and "\<not> (p_idx < length p \<and> char_matches (p ! p_idx) (t ! t_idx))"
    and "\<not> (p_idx < length p \<and> p ! p_idx = CHR ''*'')"
  shows "\<not> glob (drop p_idx p) (drop t_idx t)"
proof (cases "p_idx < length p")
  case True
  then show ?thesis
    using assms by (simp add: Cons_nth_drop_Suc [symmetric] glob_char)
next
  case False
  then show ?thesis using assms(1) by simp
qed

lemma choice_char:
  assumes "loop_inv p t i j star m" and "i < length p" and "j < length t" and "char_matches (p ! i) (t ! j)"
    and "CHR ''*'' \<notin> set t"
  shows "loop_inv p t (i + 1) (j + 1) star m \<and> open_choice p t (i + 1) (j + 1) star m = open_choice p t i j star m"
proof -
  have c: "p ! i \<noteq> CHR ''*''"
    using assms(3-5) nth_mem by (fastforce simp: char_matches_def)
  have d: "drop i p = p ! i # drop (Suc i) p" "drop j t = t ! j # drop (Suc j) t"
    using assms(2,3) by (simp_all add: Cons_nth_drop_Suc)
  have "loop_inv p t (i + 1) (j + 1) star m"
  proof (cases star)
    case (Some s)
    then obtain q where "drop (Suc s) p = q @ drop i p" "CHR ''*'' \<notin> set q" "i = Suc s + length q" "j = m + length q"
      using assms(1) by (auto simp: loop_inv_def)
    then show ?thesis
      using Some assms(2,3) c d(1) by (auto simp: loop_inv_def intro!: exI [of _ "q @ [p ! i]"])
  qed (use assms(2,3) in \<open>simp add: loop_inv_def\<close>)
  then show ?thesis using d c assms(4) by (simp add: open_choice_def glob_char)
qed

lemma choice_star:
  assumes "loop_inv p t i j star m" and "i < length p" and "p ! i = CHR ''*''"
  shows "loop_inv p t (i + 1) j (Some i) j \<and> open_choice p t (i + 1) j (Some i) j = open_choice p t i j star m"
proof -
  have d: "drop i p = CHR ''*'' # drop (Suc i) p" using assms(2,3) Cons_nth_drop_Suc [of i p] by simp
  have jt: "j \<le> length t" using assms(1) by (simp add: loop_inv_def)
  have "loop_inv p t (i + 1) j (Some i) j" using assms(1,2) by (simp add: loop_inv_def)
  moreover have "open_choice p t (i + 1) j (Some i) j = glob (drop i p) (drop j t)"
  proof -
    have "(\<exists>k \<le> length t - j. glob (drop (Suc i) p) (drop (k + j) t)) \<longleftrightarrow>
        glob (drop (Suc i) p) (drop j t) \<or> (\<exists>k. j < k \<and> k \<le> length t \<and> glob (drop (Suc i) p) (drop k t))"
      (is "?l \<longleftrightarrow> ?r")
    proof
      assume ?l
      then obtain k where "k \<le> length t - j" "glob (drop (Suc i) p) (drop (k + j) t)" by blast
      then show ?r using jt by (cases "k = 0") (auto intro!: exI [of _ "k + j"])
    next
      assume ?r
      then obtain k where "j \<le> k" "k \<le> length t" "glob (drop (Suc i) p) (drop k t)" using jt by (auto intro: less_imp_le)
      then show ?l by (intro exI [of _ "k - j"]) simp
    qed
    then show ?thesis unfolding open_choice_def d glob_star by simp
  qed
  moreover have "glob (drop i p) (drop j t)"
    if h: "star = Some s" "m < k" "k \<le> length t" "glob (drop (Suc s) p) (drop k t)" for s k
  proof -
    obtain q where q: "drop (Suc s) p = q @ drop i p" "CHR ''*'' \<notin> set q" "j = m + length q"
      using assms(1) h(1) by (auto simp: loop_inv_def)
    then have "glob (drop i p) (drop (k - m) (drop j t))"
      using glob_plain [OF q(2), of "drop i p" "drop k t"] h(2,4) by (simp add: add.commute)
    then show ?thesis using glob_star_drop d by metis
  qed
  ultimately show ?thesis by (auto simp: open_choice_def split: option.splits)
qed

lemma choice_retry:
  assumes "loop_inv p t i j (Some s) m" and "j < length t"
    and "\<not> (i < length p \<and> char_matches (p ! i) (t ! j))" and "\<not> (i < length p \<and> p ! i = CHR ''*'')"
  shows "loop_inv p t (s + 1) (m + 1) (Some s) (m + 1) \<and>
    open_choice p t (s + 1) (m + 1) (Some s) (m + 1) = open_choice p t i j (Some s) m"
proof -
  have m: "m < length t" and "s < length p" using assms(1,2) by (auto simp: loop_inv_def)
  then have "loop_inv p t (s + 1) (m + 1) (Some s) (m + 1)" by (simp add: loop_inv_def)
  moreover have "(\<exists>k. m < k \<and> k \<le> length t \<and> G k) \<longleftrightarrow> G (m + 1) \<or> (\<exists>k. m + 1 < k \<and> k \<le> length t \<and> G k)" for G
    using m by (metis Suc_eq_plus1 Suc_leI less_Suc_eq lessI not_less_eq)
  ultimately show ?thesis
    using glob_mismatch [OF assms(2-4)] by (simp add: open_choice_def)
qed

lemma choice_end:
  assumes "loop_inv p t i j star m" and "\<not> j < length t"
  shows "open_choice p t i j star m \<longleftrightarrow> skip_trailing_stars p i = length p"
proof -
  have "\<not> glob (drop (Suc s) p) (drop k t)" if h: "star = Some s" "m < k" "k \<le> length t" for s k
  proof
    assume g: "glob (drop (Suc s) p) (drop k t)"
    obtain q where "drop (Suc s) p = q @ drop i p" "CHR ''*'' \<notin> set q" "j = m + length q"
      using assms(1) h(1) by (auto simp: loop_inv_def)
    then show False using glob_plain [of q "drop i p" "drop k t"] g assms(2) h(2,3) by simp linarith
  qed
  then show ?thesis
    using assms skip_stars_end [of i p] by (auto simp: open_choice_def loop_inv_def split: option.splits)
qed

lemma match_loop_decides:
  assumes "match_loop p t i j star m = Some b" and "CHR ''*'' \<notin> set t" and "loop_inv p t i j star m"
  shows "b = open_choice p t i j star m"
proof -
  have "CHR ''*'' \<notin> set t \<longrightarrow> loop_inv p t i j star m \<longrightarrow> b = open_choice p t i j star m"
    using assms(1)
  proof (rule match_loop.raw_induct [rotated])
    fix f p t i j star m b
    assume IH: "\<And>p t i j star m b. f p t i j star m = Some b \<Longrightarrow>
        CHR ''*'' \<notin> set t \<longrightarrow> loop_inv p t i j star m \<longrightarrow> b = open_choice p t i j star m"
      and body: "(if j < length t then
          (if i < length p \<and> char_matches (p ! i) (t ! j) then f p t (i + 1) (j + 1) star m
           else if i < length p \<and> p ! i = CHR ''*'' then f p t (i + 1) j (Some i) j
           else (case star of
                   None \<Rightarrow> Some False
                 | Some s \<Rightarrow> f p t (s + 1) (m + 1) star (m + 1)))
        else Some (skip_trailing_stars p i = length p)) = Some b"
    show "CHR ''*'' \<notin> set t \<longrightarrow> loop_inv p t i j star m \<longrightarrow> b = open_choice p t i j star m"
    proof (intro impI)
      assume t: "CHR ''*'' \<notin> set t" and inv: "loop_inv p t i j star m"
      have IH': "b = open_choice p t i' j' star' m'" if "f p t i' j' star' m' = Some b" "loop_inv p t i' j' star' m'"
        for i' j' star' m' using IH that t by blast
      show "b = open_choice p t i j star m"
      proof (cases "j < length t")
        case False
        then show ?thesis using body choice_end [OF inv] by simp
      next
        case j: True
        consider (char) "i < length p" "char_matches (p ! i) (t ! j)"
          | (wild) "i < length p" "\<not> char_matches (p ! i) (t ! j)" "p ! i = CHR ''*''"
          | (retry) "\<not> (i < length p \<and> char_matches (p ! i) (t ! j))" "\<not> (i < length p \<and> p ! i = CHR ''*'')"
          by blast
        then show ?thesis
        proof cases
          case char
          then show ?thesis using body j IH' [of "i + 1" "j + 1" star m] choice_char [OF inv _ j _ t] by simp
        next
          case wild
          then show ?thesis using body j IH' [of "i + 1" j "Some i" j] choice_star [OF inv] by simp
        next
          case retry
          show ?thesis
          proof (cases star)
            case None
            then show ?thesis using body j retry glob_mismatch [OF j retry] by (auto simp: open_choice_def)
          next
            case (Some s)
            then have "f p t (s + 1) (m + 1) (Some s) (m + 1) = Some b" using body j retry by auto
            then show ?thesis using IH' choice_retry [OF inv [unfolded Some] j retry] Some by blast
          qed
        qed
      qed
    qed
  qed
  then show ?thesis using assms(2,3) by blast
qed

lemma matches_tag_pattern_returns: "\<exists>b. matches_tag_pattern pattern tag = Some b"
  unfolding matches_tag_pattern_def by (rule match_loop_returns) simp

lemma matches_tag_pattern_glob:
  assumes "CHR ''*'' \<notin> set tag"
  shows "matches_tag_pattern pattern tag = Some (glob pattern tag)"
  using matches_tag_pattern_returns [of pattern tag] match_loop_decides [OF _ assms, of pattern 0 0 None 0]
  by (auto simp: matches_tag_pattern_def loop_inv_def open_choice_def)

section \<open>The correctness properties\<close>

text \<open>C17: The backtracking matcher decides the meaning of a pattern.  It returns for every pattern
  and tag, and for a tag without a star it answers whether the text of the tag can be split so that
  each \<open>*\<close> takes any part, each \<open>?\<close> one character and every other character itself.\<close>

theorem tag_matcher_is_glob:
  "(\<exists>b. matches_tag_pattern pattern tag = Some b) \<and>
   (CHR ''*'' \<notin> set tag \<longrightarrow> matches_tag_pattern pattern tag = Some (glob pattern tag))"
  using matches_tag_pattern_returns matches_tag_pattern_glob by blast

theorem tag_matcher_is_glob_witness:
  "matches_tag_pattern ''v*.?*0'' ''v1.2.30'' = Some True"
proof -
  have "glob ''v*.?*0'' ''v1.2.30''" by code_simp
  then show ?thesis using tag_matcher_is_glob [of "''v*.?*0''" "''v1.2.30''"] by simp
qed

text \<open>A \<open>GitRef\<close> is no option of \<open>git\<close> and leaves no directory.\<close>

lemma check_git_ref_ok:
  assumes "check_git_ref s = Inr ()"
  shows "list_all (\<lambda>c. is_ascii_alphanumeric c \<or> c \<in> set ''._/-'') s" and "\<not> starts_with ''-'' s" and "\<not> sublist ''..'' s"
  using assms by (simp_all add: check_git_ref_def has_safe_chars_def split: if_splits)

lemma check_git_ref_no_star:
  assumes "check_git_ref s = Inr ()"
  shows "CHR ''*'' \<notin> set s"
  using check_git_ref_ok(1) [OF assms] by (auto simp: list_all_iff is_ascii_alphanumeric_def)

lemma trigger_decided:
  obtains b where "(case trigger of None \<Rightarrow> Some False | Some pattern \<Rightarrow> matches_tag_pattern pattern tag) = Some b"
    and "CHR ''*'' \<notin> set tag \<longrightarrow> b = (\<exists>pattern. trigger = Some pattern \<and> glob pattern tag)"
proof (cases trigger)
  case None
  then show ?thesis using that [of False] by simp
next
  case (Some pattern)
  obtain b where "matches_tag_pattern pattern tag = Some b" using matches_tag_pattern_returns by blast
  then show ?thesis using that [of b] Some matches_tag_pattern_glob [of tag pattern] by auto
qed

lemma check_push_tag:
  "(case trigger of None \<Rightarrow> Some False | Some pattern \<Rightarrow> matches_tag_pattern pattern tag) = Some b \<Longrightarrow>
   check_push_ref branch trigger (''refs/tags/'' @ tag) = Some
     (if b then (case check_git_ref tag of Inl _ \<Rightarrow> Inl (''invalid tag name: '' @ tag) | Inr _ \<Rightarrow> Inr (Deploy (Some tag)))
      else if tag = branch then Inr (Deploy None) else Inr Ignore)"
proof -
  have "strip_prefix ''refs/tags/'' (''refs/tags/'' @ tag) = Some tag" by (simp only: strip_prefix_Some)
  moreover assume "(case trigger of None \<Rightarrow> Some False | Some pattern \<Rightarrow> matches_tag_pattern pattern tag) = Some b"
  ultimately show ?thesis unfolding check_push_ref_def by (simp only: option.case option.map)
qed

text \<open>A pushed tag becomes the checkout target of a deployment exactly when the tag trigger of the
  app has a pattern that the tag satisfies and the tag is a valid ref; the target is then the tag
  itself, so it cannot be read as an option of \<open>git\<close> and has no \<open>..\<close>.  The decision is always
  reached.\<close>

theorem tag_push_deploys_matching_tags:
  "(\<exists>r. check_push_ref branch trigger (''refs/tags/'' @ tag) = Some r) \<and>
   (check_push_ref branch trigger (''refs/tags/'' @ tag) = Some (Inr (Deploy (Some target))) \<longleftrightarrow>
      target = tag \<and> check_git_ref tag = Inr () \<and> (\<exists>pattern. trigger = Some pattern \<and> glob pattern tag)) \<and>
   (check_push_ref branch trigger (''refs/tags/'' @ tag) = Some (Inr (Deploy (Some target))) \<longrightarrow>
      \<not> starts_with ''-'' target \<and> \<not> sublist ''..'' target)"
proof -
  obtain b where b: "(case trigger of None \<Rightarrow> Some False | Some pattern \<Rightarrow> matches_tag_pattern pattern tag) = Some b"
      "CHR ''*'' \<notin> set tag \<longrightarrow> b = (\<exists>pattern. trigger = Some pattern \<and> glob pattern tag)"
    using trigger_decided [of tag trigger] by blast
  note eq = check_push_tag [OF b(1), of branch]
  have "check_push_ref branch trigger (''refs/tags/'' @ tag) = Some (Inr (Deploy (Some target))) \<longleftrightarrow>
      target = tag \<and> check_git_ref tag = Inr () \<and> b"
    unfolding eq by (cases "check_git_ref tag") auto
  then show ?thesis using eq b(2) check_git_ref_no_star check_git_ref_ok(2,3) by blast
qed

section \<open>Windows\<close>

lemma validated_window_time:
  assumes "validate_window_time s = Inr ()"
  obtains m where "parse_window_minutes s = Some m" and "m < 1440"
proof -
  obtain h_str m_str where s: "split_once CHR '':'' s = Some (h_str, m_str)"
    using assms by (auto simp: validate_window_time_def split: option.splits)
  then obtain h m where n: "parse_u32 h_str = Some h" "parse_u32 m_str = Some m"
    using assms by (auto simp: validate_window_time_def split: option.splits)
  then have "h \<le> 23" "m \<le> 59" using assms s by (auto simp: validate_window_time_def split: if_splits)
  then show ?thesis using that [of "h * 60 + m"] s n by (simp add: parse_window_minutes_def)
qed

text \<open>A window that passed validation is the half-open interval of the day that it names, also across
  midnight: from its first minute, the minutes before its last one.  In particular it is never
  taken for a window that is always open, as text that does not parse is; a window whose two times
  are equal never opens.\<close>

theorem validated_window_is_an_interval_of_the_day:
  assumes "validate_deploy_window window = Inr ()" and "hour < 24" and "minute < 60"
  shows "\<exists>start_str end_str start stop. split_once CHR ''-'' window = Some (start_str, end_str) \<and>
    parse_window_minutes start_str = Some start \<and> parse_window_minutes end_str = Some stop \<and>
    start < 1440 \<and> stop < 1440 \<and>
    (is_within_deploy_window window hour minute \<longleftrightarrow>
      (hour * 60 + minute + 1440 - start) mod 1440 < (stop + 1440 - start) mod 1440)"
proof -
  obtain a b where w: "split_once CHR ''-'' window = Some (a, b)"
    using assms(1) by (auto simp: validate_deploy_window_def split: option.splits)
  then have "validate_window_time a = Inr ()" "validate_window_time b = Inr ()"
    using assms(1) by (auto simp: validate_deploy_window_def try_then_def split: sum.splits)
  then obtain s e where p: "parse_window_minutes a = Some s" "s < 1440" "parse_window_minutes b = Some e" "e < 1440"
    by (metis validated_window_time)
  define cur where "cur = hour * 60 + minute"
  have cur: "cur < 1440" using assms(2,3) by (simp add: cur_def)
  have m: "(x + 1440 - s) mod 1440 = (if s \<le> x then x - s else x + 1440 - s)" if "x < 1440" for x
    using that p(2) by (auto simp: mod_if)
  have "is_within_deploy_window window hour minute \<longleftrightarrow>
      (if s \<le> e then s \<le> cur \<and> cur < e else s \<le> cur \<or> cur < e)"
    using w p(1,3) cur by (simp add: is_within_deploy_window_def cur_def Let_def)
  also have "\<dots> \<longleftrightarrow> (cur + 1440 - s) mod 1440 < (e + 1440 - s) mod 1440"
    unfolding m [OF cur] m [OF p(4)] using p(2,4) cur by auto
  finally show ?thesis using w p unfolding cur_def by blast
qed

end
