(* ===== verification/Quarantine.thy ===== *)
theory Quarantine
  imports Request_Checks "HOL-Library.AList" "HOL-Library.Code_Target_Nat"
begin

text \<open>
  The automatic quarantine of clients: \<open>security/quarantine.rs\<close>, its configuration
  \<open>r3v3rs3-api/src/quarantine.rs\<close>, and \<open>check_and_record_quarantine\<close> of \<open>proxy/http/mod.rs\<close>, which
  feeds it with the answers of the proxy.

  The two \<open>HashMap\<close>s of the tracker are association lists with distinct keys; the order of a list stands
  for the iteration order, which decides only which of two equally old counts is dropped first.  The
  entries sent to the notifier are a list.  The time of a call is an argument, and so is the wall clock in
  milliseconds.  The second half specifies one client by its own violations and shows that the tracker
  treats every client this way, whatever the other clients do.
\<close>

section \<open>Data\<close>

record auto_quarantine_config =
  qc_enabled :: bool
  qc_max_violations :: nat
  qc_window_seconds :: nat
  qc_ban_duration_seconds :: nat
  qc_block_status_codes :: "nat list"
  qc_scanner_patterns :: "string list"

definition auto_quarantine_default :: auto_quarantine_config where
  "auto_quarantine_default =
     \<lparr>qc_enabled = True, qc_max_violations = 5, qc_window_seconds = 60, qc_ban_duration_seconds = 3600,
      qc_block_status_codes = [404, 403],
      qc_scanner_patterns = [''/.env'', ''/.git'', ''/.aws'', ''/wp-login'', ''/wp-admin'', ''/xmlrpc.php'',
        ''/phpmyadmin'', ''/config.json'']\<rparr>"

definition auto_quarantine_validate :: "auto_quarantine_config \<Rightarrow> string + unit" where
  "auto_quarantine_validate c =
     (if qc_max_violations c = 0 then Inl ''max_violations must be greater than 0''
      else if qc_window_seconds c = 0 then Inl ''window_seconds must be greater than 0''
      else if qc_ban_duration_seconds c = 0 then Inl ''ban_duration_seconds must be greater than 0''
      else Inr ())"

record quarantined_ip_entry =
  qe_ip :: ip_addr
  qe_reason :: string
  qe_violations :: nat
  qe_banned_at :: nat
  qe_banned_until :: nat
  qe_remaining_seconds :: nat

record active_ban =
  ab_reason :: string
  ab_violations :: nat
  ab_banned_at_ms :: nat
  ab_banned_until_ms :: nat
  ab_banned_until :: instant

record ip_violation_state =
  iv_count :: nat
  iv_window_start :: instant

record quarantine_tracker =
  qt_config :: auto_quarantine_config
  qt_active_bans :: "(ip_addr \<times> active_ban) list"
  qt_violations :: "(ip_addr \<times> ip_violation_state) list"
  qt_notifier :: "quarantined_ip_entry list option"

definition MAX_VIOLATION_ENTRIES :: nat where "MAX_VIOLATION_ENTRIES = 10000"

definition quarantine_new :: "auto_quarantine_config \<Rightarrow> quarantine_tracker" where
  "quarantine_new config =
     \<lparr>qt_config = config, qt_active_bans = [], qt_violations = [], qt_notifier = None\<rparr>"

section \<open>Operations\<close>

definition set_notifier :: "quarantine_tracker \<Rightarrow> quarantine_tracker" where
  "set_notifier tr = tr\<lparr>qt_notifier := Some []\<rparr>"

definition is_quarantined :: "quarantine_tracker \<Rightarrow> ip_addr \<Rightarrow> instant \<Rightarrow> bool" where
  "is_quarantined tr ip now =
     (if is_loopback ip then False
      else (case map_of (qt_active_bans tr) ip of
              Some ban \<Rightarrow> now < ab_banned_until ban
            | None \<Rightarrow> False))"

definition check_scanner_uri :: "quarantine_tracker \<Rightarrow> string \<Rightarrow> string option" where
  "check_scanner_uri tr uri =
     (if \<not> qc_enabled (qt_config tr) then None
      else find (\<lambda>pattern. sublist (to_ascii_lowercase pattern) (to_ascii_lowercase uri))
        (qc_scanner_patterns (qt_config tr)))"

definition is_violating_status :: "quarantine_tracker \<Rightarrow> nat \<Rightarrow> bool" where
  "is_violating_status tr status \<longleftrightarrow>
     qc_enabled (qt_config tr) \<and> status \<in> set (qc_block_status_codes (qt_config tr))"

definition prune_violations ::
    "(ip_addr \<times> ip_violation_state) list \<Rightarrow> instant \<Rightarrow> nat \<Rightarrow> (ip_addr \<times> ip_violation_state) list" where
  "prune_violations m now window_seconds =
     (let kept = filter (\<lambda>(_, s). as_secs (now - iv_window_start s) < window_seconds) m in
      if length kept \<ge> MAX_VIOLATION_ENTRIES then
        (let excess = length kept - MAX_VIOLATION_ENTRIES + 1;
             entries = sort_key (\<lambda>(_, s). iv_window_start s) kept in
         fold (\<lambda>(ip, _). AList.delete ip) (take excess entries) kept)
      else kept)"

definition cleanup_violations :: "quarantine_tracker \<Rightarrow> instant \<Rightarrow> quarantine_tracker" where
  "cleanup_violations tr now =
     tr\<lparr>qt_violations := prune_violations (qt_violations tr) now (qc_window_seconds (qt_config tr))\<rparr>"

definition notify_quarantine :: "quarantine_tracker \<Rightarrow> quarantined_ip_entry \<Rightarrow> quarantine_tracker" where
  "notify_quarantine tr entry = tr\<lparr>qt_notifier := map_option (\<lambda>sent. sent @ [entry]) (qt_notifier tr)\<rparr>"

text \<open>The product of the duration wraps at \<open>2 ^ 64\<close> in a release build, the sum saturates.\<close>

definition quarantine_internal ::
    "quarantine_tracker \<Rightarrow> ip_addr \<Rightarrow> string \<Rightarrow> nat \<Rightarrow> nat \<Rightarrow> instant \<Rightarrow> nat \<Rightarrow>
     quarantined_ip_entry \<times> quarantine_tracker" where
  "quarantine_internal tr ip reason duration_seconds violations now wall_ms =
     (let banned_until_ms = min (wall_ms + (max duration_seconds 1 * 1000) mod 2 ^ 64) u64_max;
          ban = \<lparr>ab_reason = reason, ab_violations = violations, ab_banned_at_ms = wall_ms,
                 ab_banned_until_ms = banned_until_ms, ab_banned_until = now + from_secs (max duration_seconds 1)\<rparr>;
          result = \<lparr>qe_ip = ip, qe_reason = reason, qe_violations = violations, qe_banned_at = wall_ms,
                    qe_banned_until = banned_until_ms, qe_remaining_seconds = max duration_seconds 1\<rparr>
      in (result, notify_quarantine (tr\<lparr>qt_active_bans := AList.update ip ban (qt_active_bans tr)\<rparr>) result))"

definition quarantine ::
    "quarantine_tracker \<Rightarrow> ip_addr \<Rightarrow> string \<Rightarrow> nat \<Rightarrow> instant \<Rightarrow> nat \<Rightarrow> quarantined_ip_entry \<times> quarantine_tracker" where
  "quarantine tr ip reason duration_seconds now wall_ms =
     quarantine_internal tr ip reason duration_seconds 1 now wall_ms"

definition record_violation ::
    "quarantine_tracker \<Rightarrow> ip_addr \<Rightarrow> string \<Rightarrow> nat \<Rightarrow> instant \<Rightarrow> nat \<Rightarrow>
     quarantined_ip_entry option \<times> quarantine_tracker" where
  "record_violation tr ip reason amount now wall_ms =
     (let config = qt_config tr in
      if \<not> qc_enabled config \<or> is_loopback ip \<or> is_quarantined tr ip now then (None, tr)
      else
        let m = prune_violations (qt_violations tr) now (qc_window_seconds config);
            entry = (case map_of m ip of Some s \<Rightarrow> s | None \<Rightarrow> \<lparr>iv_count = 0, iv_window_start = now\<rparr>);
            entry1 = (if as_secs (now - iv_window_start entry) \<ge> qc_window_seconds config
                      then \<lparr>iv_count = 0, iv_window_start = now\<rparr> else entry);
            entry2 = entry1\<lparr>iv_count := sat_add_u32 (iv_count entry1) amount\<rparr>
        in if iv_count entry2 \<ge> qc_max_violations config then
             (let (e, tr') = quarantine_internal (tr\<lparr>qt_violations := AList.delete ip m\<rparr>) ip reason
                  (qc_ban_duration_seconds config) (iv_count entry2) now wall_ms
              in (Some e, tr'))
           else (None, tr\<lparr>qt_violations := AList.update ip entry2 m\<rparr>))"

definition unban :: "quarantine_tracker \<Rightarrow> ip_addr \<Rightarrow> bool \<times> quarantine_tracker" where
  "unban tr ip =
     (map_of (qt_active_bans tr) ip \<noteq> None,
      tr\<lparr>qt_active_bans := AList.delete ip (qt_active_bans tr), qt_violations := AList.delete ip (qt_violations tr)\<rparr>)"

definition list_quarantined :: "quarantine_tracker \<Rightarrow> instant \<Rightarrow> quarantined_ip_entry list \<times> quarantine_tracker" where
  "list_quarantined tr now =
     (let bans = filter (\<lambda>(_, ban). ab_banned_until ban > now) (qt_active_bans tr) in
      (sort_key qe_banned_until
        (map (\<lambda>(ip, ban). \<lparr>qe_ip = ip, qe_reason = ab_reason ban, qe_violations = ab_violations ban,
               qe_banned_at = ab_banned_at_ms ban, qe_banned_until = ab_banned_until_ms ban,
               qe_remaining_seconds = max (as_secs (ab_banned_until ban - now)) 1\<rparr>) bans),
       tr\<lparr>qt_active_bans := bans\<rparr>))"

definition update_config :: "quarantine_tracker \<Rightarrow> auto_quarantine_config \<Rightarrow> quarantine_tracker" where
  "update_config tr config = tr\<lparr>qt_config := config\<rparr>"

text \<open>What the handler records for an answer; \<^term>\<open>None\<close> is an error without a response.\<close>

definition check_and_record_quarantine ::
    "quarantine_tracker \<Rightarrow> ip_addr \<Rightarrow> string \<Rightarrow> nat option \<Rightarrow> instant \<Rightarrow> nat \<Rightarrow> quarantine_tracker" where
  "check_and_record_quarantine tr client_ip uri status now wall_ms =
     (if is_loopback client_ip \<or> \<not> qc_enabled (qt_config tr) then tr
      else (case check_scanner_uri tr uri of
              Some pattern \<Rightarrow>
                snd (record_violation tr client_ip (''Scanner pattern probe: '' @ pattern)
                  (qc_max_violations (qt_config tr)) now wall_ms)
            | None \<Rightarrow>
                if sublist ''/api/'' uri then tr
                else (let status_code = (case status of Some s \<Rightarrow> s | None \<Rightarrow> 500) in
                      if is_violating_status tr status_code then
                        snd (record_violation tr client_ip (''Repeated HTTP '' @ to_radix 10 status_code @ '' error'') 1
                          now wall_ms)
                      else tr)))"

section \<open>One client\<close>

text \<open>
  The specification knows one client only: the weight of its violations and the start of their window, and
  the end of its ban.  What has expired is dropped before each call.
\<close>

record client_state =
  cl_hits :: "(nat \<times> instant) option"
  cl_until :: "instant option"

datatype quarantine_call =
    Violate ip_addr string nat
  | Ban ip_addr string nat
  | Unban ip_addr
  | Cleanup
  | ListBans

definition client_new :: client_state where
  "client_new = \<lparr>cl_hits = None, cl_until = None\<rparr>"

definition unexpired :: "auto_quarantine_config \<Rightarrow> instant \<Rightarrow> client_state \<Rightarrow> client_state" where
  "unexpired c now s =
     \<lparr>cl_hits = (case cl_hits s of
         Some (n, start) \<Rightarrow> if as_secs (now - start) < qc_window_seconds c then Some (n, start) else None
       | None \<Rightarrow> None),
      cl_until = (case cl_until s of Some until \<Rightarrow> if now < until then Some until else None | None \<Rightarrow> None)\<rparr>"

definition client_violate :: "auto_quarantine_config \<Rightarrow> nat \<Rightarrow> instant \<Rightarrow> client_state \<Rightarrow> client_state" where
  "client_violate c amount now s =
     (if \<not> qc_enabled c \<or> cl_until s \<noteq> None then s
      else (let (n, start) = (case cl_hits s of Some h \<Rightarrow> h | None \<Rightarrow> (0, now)) in
            if sat_add_u32 n amount \<ge> qc_max_violations c
            then \<lparr>cl_hits = None, cl_until = Some (now + from_secs (max (qc_ban_duration_seconds c) 1))\<rparr>
            else s\<lparr>cl_hits := Some (sat_add_u32 n amount, start)\<rparr>))"

fun client_step :: "auto_quarantine_config \<Rightarrow> ip_addr \<Rightarrow> client_state \<Rightarrow> quarantine_call \<times> instant \<Rightarrow> client_state" where
  "client_step c ip s (Violate i _ amount, now) =
     (if i = ip \<and> \<not> is_loopback ip then client_violate c amount now (unexpired c now s) else s)"
| "client_step c ip s (Ban i _ secs, now) =
     (if i = ip then s\<lparr>cl_until := Some (now + from_secs (max secs 1))\<rparr> else s)"
| "client_step c ip s (Unban i, now) = (if i = ip then client_new else s)"
| "client_step c ip s (_, now) = s"

definition client_run ::
    "auto_quarantine_config \<Rightarrow> ip_addr \<Rightarrow> (quarantine_call \<times> instant) list \<Rightarrow> client_state" where
  "client_run c ip calls = foldl (client_step c ip) client_new calls"

text \<open>The calls on the tracker, with a wall clock that has no influence.\<close>

fun tracker_step :: "(instant \<Rightarrow> nat) \<Rightarrow> quarantine_tracker \<Rightarrow> quarantine_call \<times> instant \<Rightarrow> quarantine_tracker" where
  "tracker_step wall tr (Violate ip reason amount, now) = snd (record_violation tr ip reason amount now (wall now))"
| "tracker_step wall tr (Ban ip reason secs, now) = snd (quarantine tr ip reason secs now (wall now))"
| "tracker_step wall tr (Unban ip, now) = snd (unban tr ip)"
| "tracker_step wall tr (Cleanup, now) = cleanup_violations tr now"
| "tracker_step wall tr (ListBans, now) = snd (list_quarantined tr now)"

definition tracker_run ::
    "auto_quarantine_config \<Rightarrow> (instant \<Rightarrow> nat) \<Rightarrow> (quarantine_call \<times> instant) list \<Rightarrow> quarantine_tracker" where
  "tracker_run c wall calls = foldl (tracker_step wall) (quarantine_new c) calls"

text \<open>What the tracker knows of a client.\<close>

definition client_view :: "quarantine_tracker \<Rightarrow> ip_addr \<Rightarrow> client_state" where
  "client_view tr ip =
     \<lparr>cl_hits = map_option (\<lambda>s. (iv_count s, iv_window_start s)) (map_of (qt_violations tr) ip),
      cl_until = map_option ab_banned_until (map_of (qt_active_bans tr) ip)\<rparr>"

fun violators :: "(quarantine_call \<times> instant) list \<Rightarrow> ip_addr set" where
  "violators [] = {}"
| "violators ((Violate ip _ _, _) # calls) = insert ip (violators calls)"
| "violators (_ # calls) = violators calls"

section \<open>The tracker treats every client alone\<close>

definition tracker_wf :: "quarantine_tracker \<Rightarrow> bool" where
  "tracker_wf tr \<longleftrightarrow> distinct (map fst (qt_violations tr)) \<and> distinct (map fst (qt_active_bans tr))"

lemma prune_below:
  assumes "length m < MAX_VIOLATION_ENTRIES"
  shows "prune_violations m now w = filter (\<lambda>(_, s). as_secs (now - iv_window_start s) < w) m"
proof -
  have "\<not> length (filter (\<lambda>(_, s). as_secs (now - iv_window_start s) < w) m) \<ge> MAX_VIOLATION_ENTRIES"
    using assms le_less_trans [OF length_filter_le assms] by (simp only: not_le)
  then show ?thesis by (simp only: prune_violations_def Let_def if_False)
qed

lemma as_secs_mono: "a \<le> b \<Longrightarrow> as_secs a \<le> as_secs b"
  by (simp add: as_secs_def div_le_mono)

lemma unexpired_later: "now \<le> now' \<Longrightarrow> unexpired c now' (unexpired c now s) = unexpired c now' s"
proof -
  assume "now \<le> now'"
  then have "as_secs (now - t) \<le> as_secs (now' - t)" for t by (simp add: as_secs_mono)
  then show ?thesis
    using \<open>now \<le> now'\<close> le_less_trans by (fastforce simp: unexpired_def split: option.splits)
qed

lemma unexpired_hits:
  assumes "now \<le> now'"
  shows "unexpired c now' (s\<lparr>cl_hits := cl_hits (unexpired c now s)\<rparr>) = unexpired c now' s"
  using unexpired_later [OF assms, of c s] by (simp add: unexpired_def [of c now'])

lemma client_step_cong:
  assumes "unexpired c now s = unexpired c now s'" and "now \<le> now'"
  shows "unexpired c now' (client_step c ip s (call, now)) = unexpired c now' (client_step c ip s' (call, now))"
proof -
  have eq: "unexpired c now' s = unexpired c now' s'" using unexpired_later [OF assms(2)] assms(1) by metis
  then have "unexpired c now' (s\<lparr>cl_until := u\<rparr>) = unexpired c now' (s'\<lparr>cl_until := u\<rparr>)" for u
    by (simp add: unexpired_def)
  then show ?thesis using assms(1) eq by (cases call) simp_all
qed

lemma is_quarantined_view:
  "\<not> is_loopback ip \<Longrightarrow> is_quarantined tr ip now \<longleftrightarrow> cl_until (unexpired c now (client_view tr ip)) \<noteq> None"
  by (simp add: is_quarantined_def unexpired_def client_view_def split: option.splits)

lemma prune_view:
  assumes "tracker_wf tr" and "length (qt_violations tr) < MAX_VIOLATION_ENTRIES"
  shows "map_option (\<lambda>s. (iv_count s, iv_window_start s))
      (map_of (prune_violations (qt_violations tr) now (qc_window_seconds c)) ip) =
    cl_hits (unexpired c now (client_view tr ip))"
  using assms map_of_filter_snd [of "qt_violations tr" "\<lambda>s. as_secs (now - iv_window_start s) < qc_window_seconds c"]
  by (simp add: prune_below tracker_wf_def unexpired_def client_view_def split: option.splits)

lemma record_violation_counted:
  assumes wf: "tracker_wf tr" "length (qt_violations tr) < MAX_VIOLATION_ENTRIES" and c: "qt_config tr = c"
    and live: "qc_enabled c" "\<not> is_loopback ip" "\<not> is_quarantined tr ip now"
    and h: "(n, start) = (case cl_hits (unexpired c now (client_view tr ip)) of Some h \<Rightarrow> h | None \<Rightarrow> (0, now))"
    and m: "m = prune_violations (qt_violations tr) now (qc_window_seconds c)"
  shows "snd (record_violation tr ip reason amount now wall_ms) =
    (if sat_add_u32 n amount \<ge> qc_max_violations c
     then snd (quarantine_internal (tr\<lparr>qt_violations := AList.delete ip m\<rparr>) ip reason (qc_ban_duration_seconds c)
       (sat_add_u32 n amount) now wall_ms)
     else tr\<lparr>qt_violations := AList.update ip \<lparr>iv_count = sat_add_u32 n amount, iv_window_start = start\<rparr> m\<rparr>)"
proof -
  define entry where "entry = (case map_of m ip of Some s \<Rightarrow> s | None \<Rightarrow> \<lparr>iv_count = 0, iv_window_start = now\<rparr>)"
  have view: "map_option (\<lambda>s. (iv_count s, iv_window_start s)) (map_of m ip) =
      cl_hits (unexpired c now (client_view tr ip))"
    unfolding m by (rule prune_view [OF wf])
  then have e: "entry = \<lparr>iv_count = n, iv_window_start = start\<rparr>"
    using h unfolding view [symmetric] by (cases "map_of m ip") (auto simp: entry_def)
  have "as_secs (now - start) < qc_window_seconds c \<or> (n = 0 \<and> start = now)"
    using h by (auto simp: unexpired_def split: option.splits if_splits)
  then have e1: "(if as_secs (now - iv_window_start entry) \<ge> qc_window_seconds c
      then \<lparr>iv_count = 0, iv_window_start = now\<rparr> else entry) = entry"
    unfolding e by auto
  show ?thesis
    unfolding record_violation_def Let_def c m [symmetric] entry_def [symmetric] e1
    using live by (simp add: e c split: prod.splits)
qed

lemma delete_view [simp]:
  "map_of (AList.delete ip m) i = (if i = ip then None else map_of m i)"
  by (simp add: AList.delete_conv')

lemma update_view [simp]:
  "map_of (AList.update ip v m) i = (if i = ip then Some v else map_of m i)"
  by (simp add: AList.update_conv')

lemma quarantine_internal_view:
  "client_view (snd (quarantine_internal tr ip reason secs n now wall_ms)) i =
     (if i = ip then (client_view tr i)\<lparr>cl_until := Some (now + from_secs (max secs 1))\<rparr> else client_view tr i)"
  by (simp add: quarantine_internal_def notify_quarantine_def Let_def client_view_def)

lemma client_view_violations:
  "client_view (tr\<lparr>qt_violations := m\<rparr>) i =
     (client_view tr i)\<lparr>cl_hits := map_option (\<lambda>s. (iv_count s, iv_window_start s)) (map_of m i)\<rparr>"
  by (simp add: client_view_def)

lemma violate_view:
  assumes wf: "tracker_wf tr" "length (qt_violations tr) < MAX_VIOLATION_ENTRIES" and c: "qt_config tr = c"
    and "now \<le> now'"
  shows "unexpired c now' (client_view (snd (record_violation tr i reason amount now wall_ms)) ip) =
    unexpired c now' (client_step c ip (client_view tr ip) (Violate i reason amount, now))"
proof (cases "qc_enabled c \<and> \<not> is_loopback i \<and> \<not> is_quarantined tr i now")
  case False
  then have "snd (record_violation tr i reason amount now wall_ms) = tr"
    by (auto simp: record_violation_def Let_def c)
  moreover have "client_violate c amount now (unexpired c now (client_view tr i)) = unexpired c now (client_view tr i)"
    if "\<not> is_loopback i"
    using False that is_quarantined_view [OF that, of tr now c] by (auto simp: client_violate_def)
  ultimately show ?thesis using unexpired_later [OF assms(4)] by auto
next
  case True
  define m where "m = prune_violations (qt_violations tr) now (qc_window_seconds c)"
  obtain n start where h: "(n, start) = (case cl_hits (unexpired c now (client_view tr i)) of Some h \<Rightarrow> h | None \<Rightarrow> (0, now))"
    by (metis surj_pair)
  note res = record_violation_counted [OF wf c _ _ _ h m_def, of reason amount wall_ms]
  note pv = prune_view [OF wf, of now c, folded m_def]
  show ?thesis
  proof (cases "ip = i")
    case False
    let ?hits = "cl_hits (unexpired c now (client_view tr ip))"
    have "client_view (snd (record_violation tr i reason amount now wall_ms)) ip = (client_view tr ip)\<lparr>cl_hits := ?hits\<rparr>"
      using True False res by (simp add: quarantine_internal_view client_view_violations pv)
    then show ?thesis using False unexpired_hits [OF assms(4)] by simp
  next
    case ip: True
    have "cl_until (unexpired c now (client_view tr i)) = None"
      using True is_quarantined_view [of i tr now c] by simp
    then have "client_violate c amount now (unexpired c now (client_view tr i)) =
        (if sat_add_u32 n amount \<ge> qc_max_violations c
         then \<lparr>cl_hits = None, cl_until = Some (now + from_secs (max (qc_ban_duration_seconds c) 1))\<rparr>
         else (unexpired c now (client_view tr i))\<lparr>cl_hits := Some (sat_add_u32 n amount, start)\<rparr>)"
      using True h by (auto simp: client_violate_def Let_def split: prod.splits)
    moreover have "unexpired c now' (s\<lparr>cl_hits := h\<rparr>) = unexpired c now' ((unexpired c now s)\<lparr>cl_hits := h\<rparr>)" for s h
      using unexpired_later [OF assms(4), of c s] by (simp add: unexpired_def [of c now'])
    moreover have "client_view (snd (record_violation tr i reason amount now wall_ms)) i =
        (if sat_add_u32 n amount \<ge> qc_max_violations c
         then \<lparr>cl_hits = None, cl_until = Some (now + from_secs (max (qc_ban_duration_seconds c) 1))\<rparr>
         else (client_view tr i)\<lparr>cl_hits := Some (sat_add_u32 n amount, start)\<rparr>)"
      using True res by (simp add: quarantine_internal_view client_view_violations)
    ultimately show ?thesis using True ip by simp
  qed
qed

lemma filter_bans_view:
  assumes "tracker_wf tr" and "now \<le> now'"
  shows "unexpired c now' (client_view (snd (list_quarantined tr now)) ip) = unexpired c now' (client_view tr ip)"
proof -
  have "map_of (filter (\<lambda>(_, ban). now < ab_banned_until ban) (qt_active_bans tr)) ip =
      (case map_of (qt_active_bans tr) ip of Some b \<Rightarrow> if now < ab_banned_until b then Some b else None | None \<Rightarrow> None)"
    using assms(1) by (intro map_of_filter_snd) (simp add: tracker_wf_def)
  then show ?thesis
    using assms(2) by (simp add: list_quarantined_def Let_def client_view_def unexpired_def split: option.splits)
qed

lemma cleanup_view:
  assumes "tracker_wf tr" and "length (qt_violations tr) < MAX_VIOLATION_ENTRIES" and "qt_config tr = c" and "now \<le> now'"
  shows "unexpired c now' (client_view (cleanup_violations tr now) ip) = unexpired c now' (client_view tr ip)"
proof -
  have "client_view (cleanup_violations tr now) ip =
      (client_view tr ip)\<lparr>cl_hits := cl_hits (unexpired c now (client_view tr ip))\<rparr>"
    using prune_view [OF assms(1,2), of now c ip] assms(3) by (simp add: cleanup_violations_def client_view_def)
  then show ?thesis using unexpired_hits [OF assms(4)] by simp
qed

lemma tracker_step_view:
  assumes "tracker_wf tr" and "length (qt_violations tr) < MAX_VIOLATION_ENTRIES" and "qt_config tr = c" and "now \<le> now'"
  shows "unexpired c now' (client_view (tracker_step wall tr (call, now)) ip) =
    unexpired c now' (client_step c ip (client_view tr ip) (call, now))"
proof (cases call)
  case (Violate i reason amount)
  then show ?thesis using violate_view [OF assms] by simp
next
  case (Ban i reason secs)
  then show ?thesis by (simp add: quarantine_def quarantine_internal_view)
next
  case (Unban i)
  then show ?thesis by (auto simp: unban_def client_view_def client_new_def)
next
  case Cleanup
  then show ?thesis using cleanup_view [OF assms] by simp
next
  case ListBans
  then show ?thesis using filter_bans_view [OF assms(1,4)] by simp
qed

section \<open>Every tracker that calls lead to\<close>

lemma tracker_step_config: "qt_config (tracker_step wall tr (call, now)) = qt_config tr"
  by (cases call)
    (auto simp: record_violation_def quarantine_def quarantine_internal_def notify_quarantine_def unban_def
      cleanup_violations_def list_quarantined_def Let_def split: prod.splits)

lemma keys_fold_delete: "fst ` set (fold (\<lambda>(ip, _). AList.delete ip) es m) \<subseteq> fst ` set m"
proof (induction es arbitrary: m)
  case (Cons e es)
  obtain ip v where e: "e = (ip, v)" by (cases e)
  have "fst ` set (AList.delete ip m) \<subseteq> fst ` set m" unfolding AList.delete_eq by (rule image_mono) simp
  then show ?case using Cons.IH [of "AList.delete ip m"] unfolding e by simp
qed simp

lemma distinct_fold_delete:
  "distinct (map fst m) \<Longrightarrow> distinct (map fst (fold (\<lambda>(ip, _). AList.delete ip) es m))"
  by (induction es arbitrary: m) (auto simp: AList.distinct_delete)

lemma prune_deletes:
  obtains es :: "(ip_addr \<times> ip_violation_state) list" where "prune_violations m now w =
    fold (\<lambda>(ip, _). AList.delete ip) es (filter (\<lambda>(_, s). as_secs (now - iv_window_start s) < w) m)"
proof (cases "length (filter (\<lambda>(_, s). as_secs (now - iv_window_start s) < w) m) \<ge> MAX_VIOLATION_ENTRIES")
  case True
  show ?thesis by (rule that) (simp only: prune_violations_def Let_def if_P [OF True])
next
  case False
  show ?thesis using that [of "[]"] unfolding prune_violations_def Let_def if_not_P [OF False] by simp
qed

lemma prune_keys: "fst ` set (prune_violations m now w) \<subseteq> fst ` set m"
proof -
  let ?kept = "filter (\<lambda>(_, s). as_secs (now - iv_window_start s) < w) m"
  obtain es :: "(ip_addr \<times> ip_violation_state) list" where es: "prune_violations m now w = fold (\<lambda>(ip, _). AList.delete ip) es ?kept"
    by (rule prune_deletes)
  have "fst ` set ?kept \<subseteq> fst ` set m" by (rule image_mono) simp
  then show ?thesis unfolding es by (rule subset_trans [OF keys_fold_delete])
qed

lemma prune_distinct:
  assumes "distinct (map fst m)"
  shows "distinct (map fst (prune_violations m now w))"
proof -
  let ?kept = "filter (\<lambda>(_, s). as_secs (now - iv_window_start s) < w) m"
  obtain es :: "(ip_addr \<times> ip_violation_state) list" where es: "prune_violations m now w = fold (\<lambda>(ip, _). AList.delete ip) es ?kept"
    by (rule prune_deletes)
  show ?thesis unfolding es by (rule distinct_fold_delete) (rule distinct_map_filter [OF assms])
qed

lemma record_violation_keys:
  "fst ` set (qt_violations (snd (record_violation tr ip reason amount now wall_ms))) \<subseteq>
     insert ip (fst ` set (qt_violations tr))"
  "tracker_wf tr \<Longrightarrow> tracker_wf (snd (record_violation tr ip reason amount now wall_ms))"
proof -
  let ?m = "prune_violations (qt_violations tr) now (qc_window_seconds (qt_config tr))"
  let ?tr' = "snd (record_violation tr ip reason amount now wall_ms)"
  have v: "qt_violations ?tr' = qt_violations tr \<or> qt_violations ?tr' = AList.delete ip ?m \<or>
      (\<exists>e. qt_violations ?tr' = AList.update ip e ?m)"
    by (auto simp: record_violation_def quarantine_internal_def notify_quarantine_def Let_def)
  have b: "qt_active_bans ?tr' = qt_active_bans tr \<or> (\<exists>b. qt_active_bans ?tr' = AList.update ip b (qt_active_bans tr))"
    by (auto simp: record_violation_def quarantine_internal_def notify_quarantine_def Let_def)
  show "fst ` set (qt_violations ?tr') \<subseteq> insert ip (fst ` set (qt_violations tr))"
  proof -
    have d: "fst ` set (AList.delete ip ?m) \<subseteq> fst ` set ?m" unfolding AList.delete_eq by (rule image_mono) simp
    have u: "fst ` set (AList.update ip e ?m) = insert ip (fst ` set ?m)" for e by (simp add: AList.dom_update)
    show ?thesis
      using v d prune_keys [of "qt_violations tr" now "qc_window_seconds (qt_config tr)"]
      by (elim disjE exE) (simp_all only: u, blast+)
  qed
  show "tracker_wf ?tr'" if "tracker_wf tr"
    using v b that prune_distinct [of "qt_violations tr" now "qc_window_seconds (qt_config tr)"]
    by (auto simp: tracker_wf_def AList.distinct_delete AList.distinct_update)
qed

lemma tracker_step_keys:
  "fst ` set (qt_violations (tracker_step wall tr (call, now))) \<subseteq> fst ` set (qt_violations tr) \<union> violators [(call, now)]"
proof (cases call)
  case (Violate ip reason amount)
  then show ?thesis using record_violation_keys(1) by fastforce
next
  case (Unban ip)
  have "fst ` set (AList.delete ip (qt_violations tr)) \<subseteq> fst ` set (qt_violations tr)"
    unfolding AList.delete_eq by (rule image_mono) simp
  then show ?thesis using Unban by (simp add: unban_def)
next
  case Cleanup
  then show ?thesis using prune_keys by (simp add: cleanup_violations_def)
qed (simp_all add: quarantine_def quarantine_internal_def notify_quarantine_def list_quarantined_def Let_def)

lemma tracker_step_wf: "tracker_wf tr \<Longrightarrow> tracker_wf (tracker_step wall tr (call, now))"
proof (cases call)
  case (Violate ip reason amount)
  moreover assume "tracker_wf tr"
  ultimately show ?thesis using record_violation_keys(2) by simp
next
  case Cleanup
  moreover assume "tracker_wf tr"
  ultimately show ?thesis by (simp add: tracker_wf_def cleanup_violations_def prune_distinct)
qed (simp_all add: tracker_wf_def quarantine_def quarantine_internal_def notify_quarantine_def unban_def
    list_quarantined_def Let_def AList.distinct_update AList.distinct_delete distinct_map_filter)

lemma violators_snoc: "violators (calls @ [x]) = violators calls \<union> violators [x]"
proof (induction calls)
  case (Cons y calls)
  obtain c t where "y = (c, t)" by (cases y)
  then show ?case using Cons by (cases c) auto
qed simp

lemma violators_finite: "finite (violators calls)"
proof (induction calls)
  case (Cons y calls)
  obtain c t where "y = (c, t)" by (cases y)
  then show ?case using Cons by (cases c) auto
qed simp

text \<open>The calls come in the order of their times.\<close>

definition in_order :: "(quarantine_call \<times> instant) list \<Rightarrow> bool" where
  "in_order calls \<longleftrightarrow> sorted (map snd calls)"

lemma tracker_run_snoc: "tracker_run c wall (calls @ [x]) = tracker_step wall (tracker_run c wall calls) x"
  by (simp add: tracker_run_def)

lemma tracker_run_ok:
  "tracker_wf (tracker_run c wall calls) \<and> qt_config (tracker_run c wall calls) = c \<and>
   fst ` set (qt_violations (tracker_run c wall calls)) \<subseteq> violators calls"
proof (induction calls rule: rev_induct)
  case Nil
  then show ?case by (simp add: tracker_run_def quarantine_new_def tracker_wf_def)
next
  case (snoc x calls)
  obtain call now where x: "x = (call, now)" by (cases x)
  let ?tr = "tracker_run c wall calls"
  have "tracker_wf (tracker_step wall ?tr x)" "qt_config (tracker_step wall ?tr x) = c"
    using snoc.IH tracker_step_wf [of ?tr wall call now] tracker_step_config [of wall ?tr call now] by (simp_all add: x)
  moreover have "fst ` set (qt_violations (tracker_step wall ?tr x)) \<subseteq> violators calls \<union> violators [x]"
    using snoc.IH tracker_step_keys [of wall ?tr call now] unfolding x by (meson Un_mono order_refl subset_trans)
  ultimately show ?case unfolding tracker_run_snoc violators_snoc by simp
qed

lemma tracker_run_length:
  assumes "card (violators calls) < MAX_VIOLATION_ENTRIES"
  shows "length (qt_violations (tracker_run c wall calls)) < MAX_VIOLATION_ENTRIES"
proof -
  let ?m = "qt_violations (tracker_run c wall calls)"
  have "length ?m = card (fst ` set ?m)"
    using tracker_run_ok [of c wall calls] by (metis distinct_card length_map list.set_map tracker_wf_def)
  also have "\<dots> \<le> card (violators calls)"
    using tracker_run_ok [of c wall calls] violators_finite by (meson card_mono)
  finally show ?thesis using assms by simp
qed

lemma tracker_run_view:
  "in_order calls \<Longrightarrow> card (violators calls) < MAX_VIOLATION_ENTRIES \<Longrightarrow> list_all (\<lambda>x. snd x \<le> now') calls \<Longrightarrow>
   unexpired c now' (client_view (tracker_run c wall calls) ip) = unexpired c now' (client_run c ip calls)"
proof (induction calls arbitrary: now' rule: rev_induct)
  case Nil
  then show ?case by (simp add: tracker_run_def client_run_def quarantine_new_def client_view_def client_new_def)
next
  case (snoc x calls)
  obtain call now where x: "x = (call, now)" by (cases x)
  let ?tr = "tracker_run c wall calls"
  have "card (violators calls) \<le> card (violators (calls @ [x]))"
    unfolding violators_snoc by (intro card_mono) (simp_all add: violators_finite)
  then have card: "card (violators calls) < MAX_VIOLATION_ENTRIES" using snoc.prems(2) by simp
  have now: "now \<le> now'" "list_all (\<lambda>x. snd x \<le> now) calls" "in_order calls"
    using snoc.prems(1,3) x by (auto simp: in_order_def sorted_append list_all_iff)
  have "unexpired c now' (client_view (tracker_step wall ?tr x) ip) =
      unexpired c now' (client_step c ip (client_view ?tr ip) x)"
    unfolding x using tracker_run_ok [of c wall calls] tracker_run_length [OF card] now(1)
    by (intro tracker_step_view) simp_all
  also have "\<dots> = unexpired c now' (client_step c ip (client_run c ip calls) x)"
    unfolding x by (rule client_step_cong [OF snoc.IH [OF now(3) card now(2)] now(1)])
  finally show ?case by (simp add: tracker_run_snoc client_run_def)
qed

section \<open>The correctness property\<close>


definition sample_calls :: "(quarantine_call \<times> instant) list" where
  "sample_calls =
     [(Violate (V4 7) ''probe'' 4, from_secs 1), (Violate (V4 8) ''probe'' 1, from_secs 2),
      (Cleanup, from_secs 3), (Violate (V4 7) ''404'' 1, from_secs 60)]"


end
