(* ===== verification/Proxied_Response.thy ===== *)
theory Proxied_Response
  imports Pipeline_Safety Quarantine
begin

text \<open>
  One request from its routing to the quarantine of its client: \<open>proxied_response\<close> of
  \<open>proxy/http/mod.rs\<close> over \<open>route_request\<close> (theory Pipeline) and the tracker (theory Quarantine).  What
  \<open>upstream_response\<close> and \<open>map_response\<close> make of a routed request is the argument \<open>answer\<close>: the status of
  the response, or \<^term>\<open>None\<close> for an error.  Statistics and the access log are left out.
\<close>

datatype proxied_result = Dropped proxied_request | Answered "nat option"

definition routed ::
    "('q, 'g, 'n, 'a) pipe_env \<Rightarrow> 'g world \<Rightarrow> ('n, 'a) http_route list \<Rightarrow> request \<Rightarrow> request_info \<Rightarrow> bool \<Rightarrow>
     route_outcome \<times> 'g world" where
  "routed e w routes rq info fronting =
     (if fronting then
        (\<lparr>ro_proxied = ProxiedErr DomainFrontingDetected, ro_rewriter = rewriter_builder, ro_resource_id = None,
          ro_route_path = None, ro_client = ri_remote info\<rparr>, w)
      else route_request e w routes rq info)"

text \<open>A dropped request gives back what its \<^typ>\<open>proxied_request\<close> holds.\<close>

definition proxied_response ::
    "('q, 'g, 'n, 'a) pipe_env \<Rightarrow> (proxied_request \<Rightarrow> response_rewriter \<Rightarrow> 'g world \<Rightarrow> nat option \<times> 'g world) \<Rightarrow>
     'g world \<Rightarrow> quarantine_tracker \<Rightarrow> ('n, 'a) http_route list \<Rightarrow> request \<Rightarrow> request_info \<Rightarrow> bool \<Rightarrow>
     instant \<Rightarrow> instant \<Rightarrow> nat \<Rightarrow> proxied_result \<times> 'g world \<times> quarantine_tracker" where
  "proxied_response e answer w tr routes rq info fronting routed_at answered_at wall_ms =
     (let (out, w1) = routed e w routes rq info fronting in
      if is_quarantined tr (ro_client out) routed_at then (Dropped (ro_proxied out), w1, tr)
      else
        let (status, w2) = answer (ro_proxied out) (ro_rewriter out) w1 in
        (Answered status, w2,
         check_and_record_quarantine tr (ro_client out) (uri_text (rq_uri rq)) status answered_at wall_ms))"

section \<open>Bans\<close>

lemma not_quarantined_later:
  "\<not> is_quarantined tr ip now \<Longrightarrow> now \<le> now' \<Longrightarrow> \<not> is_quarantined tr ip now'"
  by (auto simp: is_quarantined_def split: option.splits if_splits)

lemma check_scanner_uri_enabled: "check_scanner_uri tr uri = Some pattern \<Longrightarrow> qc_enabled (qt_config tr)"
  by (simp add: check_scanner_uri_def split: if_splits)

text \<open>A violation of the full weight bans at once, whatever was counted before.\<close>

lemma full_weight_bans:
  assumes "qc_enabled (qt_config tr)" and "\<not> is_loopback ip" and "\<not> is_quarantined tr ip now"
    and "qc_max_violations (qt_config tr) \<le> u32_max"
  shows "is_quarantined (snd (record_violation tr ip reason (qc_max_violations (qt_config tr)) now wall_ms)) ip t \<longleftrightarrow>
    t < now + from_secs (max (qc_ban_duration_seconds (qt_config tr)) 1)"
proof -
  have "sat_add_u32 n (qc_max_violations (qt_config tr)) \<ge> qc_max_violations (qt_config tr)" for n
    using assms(4) by (simp add: sat_add_u32_def)
  then show ?thesis
    using assms(1-3)
    by (simp add: record_violation_def Let_def quarantine_internal_def notify_quarantine_def is_quarantined_def
        AList.update_conv')
qed


definition probe_request :: request where
  "probe_request = sample_pipe_request\<lparr>rq_uri := \<lparr>uri_text = ''/.ENV'', uri_authority = None\<rparr>, rq_path := ''/.ENV'',
     rq_path_and_query := Some ''/.ENV''\<rparr>"


end
