(* ===== verification/Auth.thy ===== *)
theory Auth
  imports Pipeline
begin

text \<open>
  The authenticators of \<open>proxy/http/auth/\<close> without a state of their own: bearer tokens (\<open>bearer.rs\<close>) and
  the external authentication service (\<open>forward.rs\<close>), with the guard against the metadata services of clouds.
  SHA-256, base64, hex, the password hash, the parser of URIs and the HTTP client are third-party code, the fields of
  \<open>auth_env\<close>.
\<close>

section \<open>What the authenticators call\<close>

text \<open>
  The \<open>http\<close> crate, \<open>hex::decode\<close>, \<open>Sha256::digest\<close>, the base64 engine, \<open>Argon2::verify_password\<close> (hash, password),
  \<open>PasswordHash::new\<close>, the hash of the unknown user, and \<open>Uri::from_str\<close> with the host of its result.
\<close>

record auth_env =
  ae_http :: http_env
  ae_hex :: "string \<Rightarrow> string option"
  ae_sha256 :: "string \<Rightarrow> string"
  ae_base64 :: "string \<Rightarrow> string option"
  ae_argon2 :: "string \<Rightarrow> string \<Rightarrow> bool"
  ae_phc :: "string \<Rightarrow> bool"
  ae_unknown_hash :: "string option"
  ae_uri :: "string \<Rightarrow> uri option"
  ae_uri_host :: "uri \<Rightarrow> string option"

section \<open>Bearer tokens\<close>

record bearer_token =
  bt_name :: string
  bt_token :: string
  bt_token_hash :: string
  bt_token_set :: bool

record bearer_authenticator =
  br_digests :: "string list"

definition missing_token_challenge :: string where
  "missing_token_challenge = ''Bearer realm='' @ [CHR 0x22] @ ''r3v3rs3'' @ [CHR 0x22]"

definition invalid_token_challenge :: string where
  "invalid_token_challenge =
     ''Bearer realm='' @ [CHR 0x22] @ ''r3v3rs3'' @ [CHR 0x22] @ '', error='' @ [CHR 0x22] @ ''invalid_token'' @ [CHR 0x22]"

definition bearer_new :: "auth_env \<Rightarrow> bearer_token list \<Rightarrow> bearer_authenticator" where
  "bearer_new e tokens =
     \<lparr>br_digests = List.map_filter (\<lambda>token.
        (case ae_hex e (bt_token_hash token) of
           None \<Rightarrow> None
         | Some bytes \<Rightarrow> if length bytes = 32 then Some bytes else None)) tokens\<rparr>"

definition parse_token :: "http_env \<Rightarrow> string \<Rightarrow> string option" where
  "parse_token h v =
     (case to_str h v of
        None \<Rightarrow> None
      | Some s \<Rightarrow>
          (case split_once CHR '' '' (str_trim s) of
             None \<Rightarrow> None
           | Some (scheme, token) \<Rightarrow>
               let token = str_trim token in
               if eq_ignore_ascii_case scheme ''bearer'' \<and> token \<noteq> [] then Some token else None))"

text \<open>The fold over all digests: \<open>Choice\<close> is a boolean, and the comparison does not stop at the first match.\<close>

definition bearer_is_valid :: "auth_env \<Rightarrow> bearer_authenticator \<Rightarrow> string \<Rightarrow> bool" where
  "bearer_is_valid e b token =
     (let digest = ae_sha256 e token in
      foldl (\<lambda>matched known. matched \<or> known = digest) False (br_digests b))"

definition bearer_authorize :: "auth_env \<Rightarrow> bearer_authenticator \<Rightarrow> headers \<Rightarrow> proxy_error + headers" where
  "bearer_authorize e b hs =
     (case Option.bind (get hs ''authorization'') (parse_token (ae_http e)) of
        None \<Rightarrow> Inl (Unauthorized missing_token_challenge)
      | Some token \<Rightarrow>
          if \<not> bearer_is_valid e b token then Inl (Unauthorized invalid_token_challenge)
          else Inr (hremove hs ''authorization''))"

section \<open>Hosts that the service must not be\<close>

definition parse_host_ip :: "string \<Rightarrow> ip_addr option" where
  "parse_host_ip host =
     (let P = (\<lambda>c. c = CHR ''['' \<or> c = CHR '']'') in parse_ip (trim_end_matches P (trim_start_matches P host)))"

definition is_cloud_metadata_ip :: "ip_addr \<Rightarrow> bool" where
  "is_cloud_metadata_ip ip \<longleftrightarrow>
     (let o8 = octets ip in
      case ip of
        V4 _ \<Rightarrow> o8 ! 0 = 169 \<and> o8 ! 1 = 254
      | V6 _ \<Rightarrow> o8 ! 0 = 0xfe \<and> and (o8 ! 1) 0xc0 = 0x80)"

definition is_cloud_metadata_host :: "string \<Rightarrow> bool" where
  "is_cloud_metadata_host host \<longleftrightarrow>
     (let name = trim_end_matches (\<lambda>c. c = CHR ''.'') (to_ascii_lowercase host) in
      if name = ''metadata.google.internal'' \<or> name = ''instance-data'' then True
      else case parse_host_ip host of Some ip \<Rightarrow> is_cloud_metadata_ip ip | None \<Rightarrow> False)"

definition is_unspecified :: "ip_addr \<Rightarrow> bool" where
  "is_unspecified ip \<longleftrightarrow> (case ip of V4 a \<Rightarrow> a = 0 | V6 a \<Rightarrow> a = 0)"

definition is_loopback_host :: "string \<Rightarrow> bool" where
  "is_loopback_host host \<longleftrightarrow>
     (let name = trim_end_matches (\<lambda>c. c = CHR ''.'') (to_ascii_lowercase host) in
      if name = ''localhost'' \<or> ends_with ''.localhost'' name \<or> ends_with ''.local'' name then True
      else case parse_host_ip host of Some ip \<Rightarrow> is_loopback ip \<or> is_unspecified ip | None \<Rightarrow> False)"

section \<open>The external service\<close>

record forward_auth =
  fc_url :: string
  fc_response_headers :: "string list"
  fc_timeout :: duration

record forward_authenticator =
  fw_url :: "uri option"
  fw_response_headers :: "string list"
  fw_timeout :: duration

text \<open>\<open>HeaderName::from_str\<close> accepts the tokens of HTTP and turns them into lower case.\<close>

definition header_name_from_str :: "string \<Rightarrow> string option" where
  "header_name_from_str name = (if is_header_name name then Some (to_ascii_lowercase name) else None)"

definition forward_new :: "auth_env \<Rightarrow> forward_auth \<Rightarrow> forward_authenticator" where
  "forward_new e config =
     \<lparr>fw_url =
        (case ae_uri e (fc_url config) of
           None \<Rightarrow> None
         | Some u \<Rightarrow>
             let prohibited = (case ae_uri_host e u of None \<Rightarrow> True | Some host \<Rightarrow> is_cloud_metadata_host host)
             in if prohibited then None else Some u),
      fw_response_headers = List.map_filter header_name_from_str (fc_response_headers config),
      fw_timeout = fc_timeout config\<rparr>"

definition connection_headers :: "string list" where
  "connection_headers = [''connection'', ''keep-alive'', ''proxy-connection'', ''te'', ''trailer'',
     ''transfer-encoding'', ''upgrade'', ''content-length'']"

record auth_request =
  aq_uri :: uri
  aq_headers :: headers

text \<open>One pass of the loop that sets the \<open>X-Forwarded-*\<close> headers; a value with a forbidden byte ends it.\<close>

fun set_forwarded :: "http_env \<Rightarrow> (string \<times> string) list \<Rightarrow> headers \<Rightarrow> proxy_error + headers" where
  "set_forwarded h [] hs = Inr hs"
| "set_forwarded h ((name, v) # rest) hs =
     (case header_from_str h v of
        None \<Rightarrow> Inl AuthServiceUnavailable
      | Some v' \<Rightarrow> set_forwarded h rest (hinsert hs name v'))"

definition forwarded_fields :: "request \<Rightarrow> auth_context \<Rightarrow> (string \<times> string) list" where
  "forwarded_fields rq ctx =
     [(''x-forwarded-method'', rq_method rq),
      (''x-forwarded-proto'', if ac_proto ctx = ''http'' then ''http'' else ''https''),
      (''x-forwarded-host'', case ac_host ctx of None \<Rightarrow> [] | Some host \<Rightarrow> host),
      (''x-forwarded-uri'', case rq_path_and_query rq of None \<Rightarrow> ''/'' | Some u \<Rightarrow> u),
      (''x-forwarded-for'', fmt_ip (ac_client ctx))]"

definition auth_request_of ::
    "auth_env \<Rightarrow> forward_authenticator \<Rightarrow> request \<Rightarrow> auth_context \<Rightarrow> proxy_error + auth_request" where
  "auth_request_of e f rq ctx =
     (case fw_url f of
        None \<Rightarrow> Inl AuthServiceUnavailable
      | Some url \<Rightarrow>
          let hs = foldl hremove (rq_headers rq) (connection_headers @ [''host'']);
              hs = remove_auth_cookies (ae_http e) hs
          in (case set_forwarded (ae_http e) (forwarded_fields rq ctx) hs of
                Inl err \<Rightarrow> Inl err
              | Inr hs \<Rightarrow> Inr \<lparr>aq_uri = url, aq_headers = hs\<rparr>))"

text \<open>
  What comes of the request within the timeout: nothing in time, a failure of the client, or a response, whose body
  is \<open>None\<close> when reading it fails.
\<close>

datatype auth_reply = ReplyTimeout | ReplyFailed | Reply nat headers "string option"

definition max_response_body_size :: nat where "max_response_body_size = 64 * 1024"

definition is_safe_denied_header :: "string \<Rightarrow> bool" where
  "is_safe_denied_header name \<longleftrightarrow>
     name \<in> {''location'', ''set-cookie'', ''www-authenticate'', ''content-type'', ''content-length'', ''cache-control''}"

definition denied_response :: "nat \<Rightarrow> headers \<Rightarrow> string option \<Rightarrow> proxy_error + http_response" where
  "denied_response status hs body =
     (if \<not> is_redirection status \<and> status \<noteq> 401 \<and> status \<noteq> 403 then Inl AuthServiceUnavailable
      else case body of
          None \<Rightarrow> Inl AuthServiceUnavailable
        | Some body \<Rightarrow>
            if length body > max_response_body_size then Inl AuthServiceUnavailable
            else Inr \<lparr>re_status = status,
              re_headers = foldl (\<lambda>acc (name, v). if is_safe_denied_header name then happend acc name v else acc) [] hs,
              re_body = body\<rparr>)"

datatype verdict = Allow headers | Deny http_response

definition forward_ask :: "auth_reply \<Rightarrow> proxy_error + verdict" where
  "forward_ask reply =
     (case reply of
        ReplyTimeout \<Rightarrow> Inl AuthServiceUnavailable
      | ReplyFailed \<Rightarrow> Inl AuthServiceUnavailable
      | Reply status hs body \<Rightarrow>
          if is_success status then Inr (Allow hs)
          else (case denied_response status hs body of Inl err \<Rightarrow> Inl err | Inr res \<Rightarrow> Inr (Deny res)))"

definition copy_headers :: "forward_authenticator \<Rightarrow> headers \<Rightarrow> headers \<Rightarrow> headers" where
  "copy_headers f source dest =
     foldl (\<lambda>to name. foldl (\<lambda>to v. happend to name v) (hremove to name) (get_all source name)) dest (fw_response_headers f)"

text \<open>\<open>authorize\<close>: the service answers the request with \<open>service\<close>.\<close>

definition forward_authorize ::
    "auth_env \<Rightarrow> (auth_request \<Rightarrow> auth_reply) \<Rightarrow> forward_authenticator \<Rightarrow> request \<Rightarrow> auth_context \<Rightarrow>
     auth_rejection + request" where
  "forward_authorize e service f rq ctx =
     (case auth_request_of e f rq ctx of
        Inl err \<Rightarrow> Inl (RejectError err)
      | Inr auth_req \<Rightarrow>
          (case forward_ask (service auth_req) of
             Inl err \<Rightarrow> Inl (RejectError err)
           | Inr (Allow hs) \<Rightarrow> Inr (rq\<lparr>rq_headers := copy_headers f hs (rq_headers rq)\<rparr>)
           | Inr (Deny res) \<Rightarrow> Inl (RejectResponse res)))"

section \<open>Bearer tokens: what passes\<close>

lemma foldl_or: "foldl (\<lambda>m k. m \<or> P k) b ks \<longleftrightarrow> b \<or> (\<exists>k \<in> set ks. P k)"
  by (induction ks arbitrary: b) auto

lemma bearer_is_valid_iff: "bearer_is_valid e b token \<longleftrightarrow> ae_sha256 e token \<in> set (br_digests b)"
  by (auto simp: bearer_is_valid_def Let_def foldl_or)

lemma mem_map_filter: "y \<in> set (List.map_filter f xs) \<longleftrightarrow> (\<exists>x \<in> set xs. f x = Some y)"
  by (induction xs) (auto simp: map_filter_simps split: option.splits)

lemma br_digests_new:
  "d \<in> set (br_digests (bearer_new e tokens)) \<longleftrightarrow>
     length d = 32 \<and> (\<exists>token \<in> set tokens. ae_hex e (bt_token_hash token) = Some d)"
proof -
  have "(case h of None \<Rightarrow> None | Some bytes \<Rightarrow> if length bytes = 32 then Some bytes else None) = Some d \<longleftrightarrow>
      length d = 32 \<and> h = Some d" for h
    by (auto split: option.splits)
  then show ?thesis by (simp add: bearer_new_def mem_map_filter)
qed

text \<open>A request passes exactly with a token whose digest is configured, and goes on without the token.\<close>

lemma bearer_authorize_iff:
  "bearer_authorize e (bearer_new e tokens) hs = Inr hs' \<longleftrightarrow>
     hs' = hremove hs ''authorization'' \<and>
     (\<exists>v token t. get hs ''authorization'' = Some v \<and> parse_token (ae_http e) v = Some token \<and>
        t \<in> set tokens \<and> ae_hex e (bt_token_hash t) = Some (ae_sha256 e token) \<and> length (ae_sha256 e token) = 32)"
proof (cases "Option.bind (get hs ''authorization'') (parse_token (ae_http e))")
  case None
  then show ?thesis by (auto simp: bearer_authorize_def bind_eq_Some_conv)
next
  case (Some token)
  then obtain v where "get hs ''authorization'' = Some v" and "parse_token (ae_http e) v = Some token"
    by (auto simp: bind_eq_Some_conv)
  then show ?thesis by (auto simp: bearer_authorize_def bearer_is_valid_iff br_digests_new)
qed

section \<open>The metadata guard\<close>

text \<open>The link-local addresses, with and without brackets and whatever the case of the name.\<close>

lemma is_cloud_metadata_V4: "is_cloud_metadata_ip (V4 a) \<longleftrightarrow> ucast (drop_bit 24 a) = (169 :: 8 word) \<and> ucast (drop_bit 16 a) = (254 :: 8 word)"
  by (simp add: is_cloud_metadata_ip_def octets_def numeral_eq_Suc)

text \<open>
  The IPv4-mapped form of a metadata address is an IPv6 address, whose first octet is zero, so the guard does not
  see it: \<open>is_cloud_metadata_ip\<close> does not turn an address into its canonical form first.
\<close>

lemma mapped_metadata_address_is_not_guarded:
  "parse_host_ip ''[::ffff:169.254.169.254]'' = Some (V6 0xffffa9fea9fe) \<and>
   to_canonical (V6 0xffffa9fea9fe) = V4 0xa9fea9fe \<and>
   is_cloud_metadata_ip (V4 0xa9fea9fe) \<and>
   \<not> is_cloud_metadata_host ''[::ffff:169.254.169.254]''"
  by code_simp

section \<open>The external service: what passes\<close>

lemma get_all_copy_headers:
  "get_all (copy_headers f source dest) n =
     (if n \<in> set (fw_response_headers f) then get_all source n else get_all dest n)"
proof -
  have "get_all (foldl (\<lambda>to name. foldl (\<lambda>to v. happend to name v) (hremove to name) (get_all source name)) dest names) n =
     (if n \<in> set names then get_all source n else get_all dest n)" for names
    by (induction names arbitrary: dest) (auto simp: get_all_foldl_happend)
  then show ?thesis by (simp add: copy_headers_def)
qed

lemma set_forwarded_get_all:
  "set_forwarded h fds hs = Inr hs' \<Longrightarrow> distinct (map fst fds) \<Longrightarrow>
     get_all hs' n = (case map_of fds n of Some v \<Rightarrow> [v] | None \<Rightarrow> get_all hs n)"
proof (induction h fds hs rule: set_forwarded.induct)
  case (2 h name v rest hs)
  then have *: "get_all hs' n = (case map_of rest n of Some v \<Rightarrow> [v] | None \<Rightarrow> get_all (hinsert hs name v) n)"
    by (auto simp: header_from_str_def split: if_splits)
  have "map_of rest name = None" using "2.prems"(2) by (auto simp: map_of_eq_None_iff)
  with * show ?case by (auto split: option.splits)
qed simp

lemma forwarded_fields_distinct: "distinct (map fst (forwarded_fields rq ctx))"
  by (simp add: forwarded_fields_def)

lemma auth_request_fields:
  assumes "auth_request_of e f rq ctx = Inr auth_req"
  shows "fw_url f = Some (aq_uri auth_req)"
    and "\<And>n v. map_of (forwarded_fields rq ctx) n = Some v \<Longrightarrow> get_all (aq_headers auth_req) n = [v]"
  using assms set_forwarded_get_all [OF _ forwarded_fields_distinct]
  by (auto simp: auth_request_of_def Let_def split: option.splits sum.splits)

lemma forward_ask_Allow:
  "forward_ask reply = Inr (Allow hs) \<longleftrightarrow> (\<exists>status body. reply = Reply status hs body \<and> is_success status)"
  by (auto simp: forward_ask_def split: auth_reply.splits sum.splits if_splits)

lemma forward_new_url:
  "fw_url (forward_new e config) = Some u \<longleftrightarrow>
     ae_uri e (fc_url config) = Some u \<and> (\<exists>host. ae_uri_host e u = Some host \<and> \<not> is_cloud_metadata_host host)"
  by (auto simp: forward_new_def Let_def split: option.splits if_splits)

text \<open>Every status but a redirect, 401 and 403 is hidden from the client, whatever the service sends.\<close>

lemma unexpected_status_is_not_shown:
  assumes "\<not> is_success status" and "\<not> is_redirection status" and "status \<noteq> 401" and "status \<noteq> 403"
    and "auth_request_of e f rq ctx = Inr auth_req" and "service auth_req = Reply status hs body"
  shows "forward_authorize e service f rq ctx = Inl (RejectError AuthServiceUnavailable)"
  using assms by (simp add: forward_authorize_def forward_ask_def denied_response_def)

lemma denied_response_headers:
  assumes "denied_response status hs body = Inr res"
  shows "re_status res = status" and "length (re_body res) \<le> max_response_body_size"
    and "re_headers res = filter (\<lambda>h. is_safe_denied_header (fst h)) hs"
proof -
  have "foldl (\<lambda>acc (name, v). if is_safe_denied_header name then happend acc name v else acc) acc hs =
      acc @ filter (\<lambda>h. is_safe_denied_header (fst h)) hs" for acc
    by (induction hs arbitrary: acc) (auto simp: happend_def)
  then show "re_headers res = filter (\<lambda>h. is_safe_denied_header (fst h)) hs"
    using assms by (auto simp: denied_response_def split: if_splits option.splits)
  show "re_status res = status" and "length (re_body res) \<le> max_response_body_size"
    using assms by (auto simp: denied_response_def split: if_splits option.splits)
qed

text \<open>
  C19: a request passes the external authentication only when the configured service, whose host is none of the guarded
  metadata names and addresses, answered with a success the question for this very request: the client address,
  method, host and URI that the service saw are the true ones, one value each, whatever the client sent. The configured headers of
  the request then hold exactly the values of the service, so that a client cannot send them itself, and everything else of
  the request is as it was.
\<close>

theorem forward_auth_headers_come_from_the_service:
  assumes "forward_authorize e service (forward_new e config) rq ctx = Inr rq'"
  shows "\<exists>auth_req status hs body host.
     auth_request_of e (forward_new e config) rq ctx = Inr auth_req \<and>
     service auth_req = Reply status hs body \<and> is_success status \<and>
     ae_uri e (fc_url config) = Some (aq_uri auth_req) \<and> ae_uri_host e (aq_uri auth_req) = Some host \<and>
     \<not> is_cloud_metadata_host host \<and>
     get_all (aq_headers auth_req) ''x-forwarded-for'' = [fmt_ip (ac_client ctx)] \<and>
     get_all (aq_headers auth_req) ''x-forwarded-method'' = [rq_method rq] \<and>
     get_all (aq_headers auth_req) ''x-forwarded-host'' = [case ac_host ctx of None \<Rightarrow> [] | Some host \<Rightarrow> host] \<and>
     get_all (aq_headers auth_req) ''x-forwarded-uri'' = [case rq_path_and_query rq of None \<Rightarrow> ''/'' | Some u \<Rightarrow> u] \<and>
     (\<forall>name. get_all (rq_headers rq') name =
        (if Some name \<in> header_name_from_str ` set (fc_response_headers config)
         then get_all hs name else get_all (rq_headers rq) name)) \<and>
     rq'\<lparr>rq_headers := rq_headers rq\<rparr> = rq"
proof -
  let ?f = "forward_new e config"
  obtain auth_req hs where req: "auth_request_of e ?f rq ctx = Inr auth_req"
    and ask: "forward_ask (service auth_req) = Inr (Allow hs)"
    and rq': "rq' = rq\<lparr>rq_headers := copy_headers ?f hs (rq_headers rq)\<rparr>"
    using assms by (auto simp: forward_authorize_def split: sum.splits verdict.splits)
  obtain status body where "service auth_req = Reply status hs body" and "is_success status"
    using ask forward_ask_Allow by blast
  moreover obtain host where "ae_uri e (fc_url config) = Some (aq_uri auth_req)"
    and "ae_uri_host e (aq_uri auth_req) = Some host" and "\<not> is_cloud_metadata_host host"
    using auth_request_fields(1) [OF req] forward_new_url by blast
  moreover have "n \<in> set (fw_response_headers ?f) \<longleftrightarrow> Some n \<in> header_name_from_str ` set (fc_response_headers config)" for n
    by (simp add: forward_new_def mem_map_filter image_iff eq_commute [of "Some n"])
  ultimately show ?thesis
    using req auth_request_fields(2) [OF req] unfolding rq'
    by (intro exI [of _ auth_req] exI [of _ status] exI [of _ hs] exI [of _ body] exI [of _ host])
       (simp add: get_all_copy_headers forwarded_fields_def)
qed

definition sample_auth_env :: auth_env where
  "sample_auth_env =
     \<lparr>ae_http = \<lparr>hx_text_byte = (\<lambda>_. True), hx_value_byte = (\<lambda>_. True), hx_str_byte = (\<lambda>_. True)\<rparr>,
      ae_hex = Some, ae_sha256 = (\<lambda>s. s), ae_base64 = Some, ae_argon2 = (\<lambda>h p. h = ''$argon2'' @ p), ae_phc = (\<lambda>_. True),
      ae_unknown_hash = Some ''$argon2'', ae_uri = (\<lambda>s. Some \<lparr>uri_text = s, uri_authority = Some s\<rparr>),
      ae_uri_host = uri_authority\<rparr>"

definition sample_forward :: forward_auth where
  "sample_forward = \<lparr>fc_url = ''auth.local'', fc_response_headers = [''X-User''], fc_timeout = 5\<rparr>"

definition sample_service :: "auth_request \<Rightarrow> auth_reply" where
  "sample_service _ = Reply 200 [(''x-user'', ''ann'')] (Some [])"

definition sample_auth_request :: request where
  "sample_auth_request = \<lparr>rq_method = ''GET'', rq_uri = \<lparr>uri_text = ''/a'', uri_authority = None\<rparr>, rq_uri_host = None,
     rq_path = ''/a'', rq_query = None, rq_path_and_query = Some ''/a'',
     rq_headers = [(''x-user'', ''root''), (''x-forwarded-for'', ''1.1.1.1'')], rq_body_size = None\<rparr>"

definition sample_auth_context :: auth_context where
  "sample_auth_context = \<lparr>ac_client = V4 0x09090909, ac_peer = V4 0x09090909, ac_host = None, ac_proto = ''http'',
     ac_base_path = [], ac_path_segments = [], ac_vhosts = []\<rparr>"

theorem forward_auth_headers_come_from_the_service_witness:
  "\<exists>rq' auth_req. forward_authorize sample_auth_env sample_service (forward_new sample_auth_env sample_forward)
      sample_auth_request sample_auth_context = Inr rq' \<and>
     auth_request_of sample_auth_env (forward_new sample_auth_env sample_forward) sample_auth_request sample_auth_context =
       Inr auth_req \<and>
     get_all (aq_headers auth_req) ''x-forwarded-for'' = [fmt_ip (ac_client sample_auth_context)] \<and>
     get_all (rq_headers rq') ''x-user'' = [''ann'']"
proof -
  let ?rq' = "sample_auth_request\<lparr>rq_headers := [(''x-forwarded-for'', ''1.1.1.1''), (''x-user'', ''ann'')]\<rparr>"
  have *: "forward_authorize sample_auth_env sample_service (forward_new sample_auth_env sample_forward)
      sample_auth_request sample_auth_context = Inr ?rq'"
    by code_simp
  have "get_all (rq_headers ?rq') ''x-user'' = [''ann'']" by code_simp
  then show ?thesis
    using forward_auth_headers_come_from_the_service [OF *] * by blast
qed

end
