(* ===== verification/Basic_Auth.thy ===== *)
theory Basic_Auth
  imports Auth "HOL-Library.AList"
begin

text \<open>
  HTTP Basic authentication (\<open>proxy/http/auth/basic.rs\<close>): the users of the configuration and of a user file that is
  read again when it changes, the set of credentials that passed before, and the limit on failed attempts of a client.

  The authenticator is shared by all requests of a route, and a request waits once, for the hash of its password.
  \<open>authorize\<close> is therefore two steps, \<open>authorize_begin\<close> up to the wait and \<open>authorize_resume\<close> after it, and requests in
  flight are interleaved by \<open>basic_step\<close>; \<open>basic_authorize\<close> runs both steps with nothing in between.  A step between
  two waits is atomic.  A \<open>HashMap\<close> is an association list and a \<open>HashSet\<close> a list; the file system is the argument \<open>fs\<close>
  of each call, the semaphore and the blocking task of the password hash the arguments \<open>permit\<close> and \<open>task\<close>.
\<close>

section \<open>Users\<close>

datatype stored_password = Argon2 string | Plain string

record client_attempts =
  ct_failures :: nat
  ct_window_start :: instant
  ct_blocked_until :: "instant option"

record file_users =
  fu_last_modified :: "nat option"
  fu_users :: "(string \<times> stored_password) list"

definition file_users_default :: file_users where
  "file_users_default = \<lparr>fu_last_modified = None, fu_users = []\<rparr>"

text \<open>\<open>std::fs::metadata\<close> with the modification time, if there is one, and \<open>read_to_string\<close>.\<close>

record file_info =
  fi_metadata :: "nat option option"
  fi_content :: "string option"

type_synonym file_system = "string \<Rightarrow> file_info"

definition parse_user_line :: "string \<Rightarrow> (string \<times> stored_password) option" where
  "parse_user_line line =
     (let line = str_trim line in
      if line = [] \<or> starts_with ''#'' line then None
      else case split_once CHR '':'' line of
          None \<Rightarrow> None
        | Some (username, secret) \<Rightarrow>
            let username = str_trim username; secret = str_trim secret in
            if username = [] \<or> secret = [] then None
            else Some (username,
              if starts_with ''$argon2'' secret then Argon2 secret
              else Plain (case strip_prefix ''{PLAIN}'' secret of Some s \<Rightarrow> s | None \<Rightarrow> secret)))"

definition parse_user_file :: "string \<Rightarrow> (string \<times> stored_password) list" where
  "parse_user_file content =
     foldl (\<lambda>m (u, s). AList.update u s m) [] (List.map_filter parse_user_line (lines content))"

section \<open>The configuration\<close>

record basic_auth_user =
  bu_username :: string
  bu_password :: string
  bu_password_hash :: string
  bu_password_set :: bool

record basic_auth =
  bg_realm :: string
  bg_users :: "basic_auth_user list"
  bg_user_file :: "string option"

definition is_unsafe_path_str :: "string \<Rightarrow> bool" where
  "is_unsafe_path_str path \<longleftrightarrow> path = [] \<or> starts_with ''/'' path \<or> starts_with [CHR 0x5C] path \<or> starts_with ''~'' path"

text \<open>\<open>Path::components\<close> on Unix: the non-empty pieces between slashes, a leading slash being the root.\<close>

definition check_path_components :: "string \<Rightarrow> string \<Rightarrow> unit result" where
  "check_path_components path original =
     (if starts_with ''/'' path \<or> ''..'' \<in> set (split_on CHR ''/'' path) then Inl (InvalidFilePath original) else Inr ())"

definition validate_user_file_path :: "string \<Rightarrow> unit result" where
  "validate_user_file_path path_str =
     (let path = str_trim path_str in
      if is_unsafe_path_str path then Inl (InvalidFilePath path_str) else check_path_components path path_str)"

definition basic_auth_validate :: "basic_auth \<Rightarrow> unit result" where
  "basic_auth_validate config =
     (case bg_user_file config of None \<Rightarrow> Inr () | Some path \<Rightarrow> validate_user_file_path path)"

text \<open>\<open>char::is_control\<close> on UTF-8: the bytes below 32, 127, and the two bytes of U+0080 to U+009F.\<close>

fun drop_controls :: "string \<Rightarrow> string" where
  "drop_controls [] = []"
| "drop_controls (c # s) =
     (let n = of_char c :: nat in
      if n < 32 \<or> n = 127 then drop_controls s
      else if n = 0xC2 \<and> s \<noteq> [] \<and> utf8_in (hd s) 128 159 then drop_controls (tl s)
      else c # drop_controls s)"

definition quote_realm :: "string \<Rightarrow> string" where
  "quote_realm s = foldl (\<lambda>quoted c. (if c = CHR 0x22 \<or> c = CHR 0x5C then quoted @ [CHR 0x5C] else quoted) @ [c]) [] s"

definition realm_challenge :: "string \<Rightarrow> string" where
  "realm_challenge realm =
     ''Basic realm='' @ [CHR 0x22] @ realm @ [CHR 0x22] @ '', charset='' @ [CHR 0x22] @ ''UTF-8'' @ [CHR 0x22]"

definition basic_challenge :: "http_env \<Rightarrow> string \<Rightarrow> string" where
  "basic_challenge h realm =
     (let realm = (if realm = [] then ''r3v3rs3'' else realm);
          realm = quote_realm (drop_controls realm)
      in case header_value h (realm_challenge realm) of
           Some v \<Rightarrow> v
         | None \<Rightarrow> realm_challenge ''r3v3rs3'')"

record basic_authenticator =
  bz_users :: "(string \<times> stored_password) list"
  bz_user_file :: "string option"
  bz_file_users :: file_users
  bz_challenge :: string
  bz_verified :: "string list"
  bz_attempts :: "(ip_addr \<times> client_attempts) list"

definition basic_new :: "auth_env \<Rightarrow> file_system \<Rightarrow> basic_auth \<Rightarrow> basic_authenticator" where
  "basic_new e fs config =
     (let users = foldl (\<lambda>m user. AList.update (bu_username user) (Argon2 (bu_password_hash user)) m) []
            (filter (\<lambda>user. ae_phc e (bu_password_hash user)) (bg_users config));
          (user_file, file_users) =
            (case bg_user_file config of
               Some path \<Rightarrow>
                 if is_ok (validate_user_file_path path)
                 then (Some path,
                   case fi_metadata (fs path) of
                     None \<Rightarrow> file_users_default
                   | Some modified \<Rightarrow>
                       (case fi_content (fs path) of
                          None \<Rightarrow> file_users_default\<lparr>fu_last_modified := modified\<rparr>
                        | Some content \<Rightarrow> \<lparr>fu_last_modified = modified, fu_users = parse_user_file content\<rparr>))
                 else (None, file_users_default)
             | None \<Rightarrow> (None, file_users_default))
      in \<lparr>bz_users = users, bz_user_file = user_file, bz_file_users = file_users,
          bz_challenge = basic_challenge (ae_http e) (bg_realm config), bz_verified = [], bz_attempts = []\<rparr>)"

section \<open>The limit on failures\<close>

definition max_basic_attempts :: nat where "max_basic_attempts = 10"
definition basic_attempts_reset :: duration where "basic_attempts_reset = 60 * 1000000000"
definition max_verified_credentials :: nat where "max_verified_credentials = 1024"

definition keep_attempt :: "instant \<Rightarrow> client_attempts \<Rightarrow> bool" where
  "keep_attempt now a =
     (case ct_blocked_until a of None \<Rightarrow> now - ct_window_start a < basic_attempts_reset | Some until \<Rightarrow> until > now)"

definition check_blocked ::
    "basic_authenticator \<Rightarrow> ip_addr \<Rightarrow> instant \<Rightarrow> (proxy_error + unit) \<times> basic_authenticator" where
  "check_blocked b client now =
     (let attempts = filter (\<lambda>(_, a). keep_attempt now a) (bz_attempts b);
          b' = b\<lparr>bz_attempts := attempts\<rparr>
      in case Option.bind (map_of attempts client) ct_blocked_until of
           Some blocked_until \<Rightarrow>
             (if blocked_until > now then Inl (TooManyRequests (blocked_until - now)) else Inr (), b')
         | None \<Rightarrow> (Inr (), b'))"

definition record_basic_failure :: "basic_authenticator \<Rightarrow> ip_addr \<Rightarrow> instant \<Rightarrow> basic_authenticator" where
  "record_basic_failure b client now =
     (let a = (case map_of (bz_attempts b) client of
            Some a \<Rightarrow> a
          | None \<Rightarrow> \<lparr>ct_failures = 0, ct_window_start = now, ct_blocked_until = None\<rparr>);
          a' = (if now - ct_window_start a \<ge> basic_attempts_reset
            then \<lparr>ct_failures = 1, ct_window_start = now, ct_blocked_until = None\<rparr>
            else let f = min (ct_failures a + 1) (2 ^ 32 - 1) in
              a\<lparr>ct_failures := f,
                ct_blocked_until := (if f \<ge> max_basic_attempts then Some (now + basic_attempts_reset) else ct_blocked_until a)\<rparr>)
      in b\<lparr>bz_attempts := AList.update client a' (bz_attempts b)\<rparr>)"

definition record_basic_success :: "basic_authenticator \<Rightarrow> ip_addr \<Rightarrow> basic_authenticator" where
  "record_basic_success b client = b\<lparr>bz_attempts := AList.delete client (bz_attempts b)\<rparr>"

definition basic_unauthorized :: "basic_authenticator \<Rightarrow> proxy_error" where
  "basic_unauthorized b = Unauthorized (bz_challenge b)"

section \<open>Looking a user up\<close>

definition reload_file_if_modified :: "file_system \<Rightarrow> basic_authenticator \<Rightarrow> string \<Rightarrow> basic_authenticator" where
  "reload_file_if_modified fs b path =
     (case fi_metadata (fs path) of
        None \<Rightarrow> b
      | Some modified \<Rightarrow>
          if fu_last_modified (bz_file_users b) = modified \<and> fu_users (bz_file_users b) \<noteq> [] then b
          else let b = b\<lparr>bz_file_users := (bz_file_users b)\<lparr>fu_last_modified := modified\<rparr>\<rparr> in
            (case fi_content (fs path) of
               None \<Rightarrow> b
             | Some content \<Rightarrow>
                 b\<lparr>bz_file_users := (bz_file_users b)\<lparr>fu_users := parse_user_file content\<rparr>, bz_verified := []\<rparr>))"

definition get_user ::
    "file_system \<Rightarrow> basic_authenticator \<Rightarrow> string \<Rightarrow> stored_password option \<times> basic_authenticator" where
  "get_user fs b username =
     (case map_of (bz_users b) username of
        Some user \<Rightarrow> (Some user, b)
      | None \<Rightarrow>
          (case bz_user_file b of
             Some path \<Rightarrow>
               let b = reload_file_if_modified fs b path in (map_of (fu_users (bz_file_users b)) username, b)
           | None \<Rightarrow> (None, b)))"

section \<open>Verifying a password\<close>

definition credential_text :: "stored_password \<Rightarrow> string \<Rightarrow> string" where
  "credential_text secret password =
     (case secret of Argon2 hash \<Rightarrow> ''argon2:'' @ hash | Plain plain \<Rightarrow> ''plain:'' @ plain) @ [CHR 0x00] @ password"

definition credential_digest :: "auth_env \<Rightarrow> stored_password \<Rightarrow> string \<Rightarrow> string" where
  "credential_digest e secret password = ae_sha256 e (credential_text secret password)"

definition verify_password :: "auth_env \<Rightarrow> bool \<Rightarrow> bool \<Rightarrow> string \<Rightarrow> string \<Rightarrow> proxy_error + bool" where
  "verify_password e permit task hash password =
     (if \<not> permit then Inl TooManyConcurrentRequests else Inr (task \<and> ae_argon2 e hash password))"

definition store_verified :: "basic_authenticator \<Rightarrow> string \<Rightarrow> basic_authenticator" where
  "store_verified b digest =
     (let verified = (if length (bz_verified b) \<ge> max_verified_credentials then [] else bz_verified b)
      in b\<lparr>bz_verified := List.insert digest verified\<rparr>)"

text \<open>The hash that \<open>verify\<close> waits for; an unknown user has no digest, and the result is then not used.\<close>

record basic_wait =
  bw_hash :: string
  bw_password :: string
  bw_digest :: "string option"

definition verify_begin ::
    "auth_env \<Rightarrow> file_system \<Rightarrow> basic_authenticator \<Rightarrow> string \<Rightarrow> string \<Rightarrow> (bool + basic_wait) \<times> basic_authenticator" where
  "verify_begin e fs b username password =
     (let (user, b) = get_user fs b username in
      case user of
        None \<Rightarrow>
          (case ae_unknown_hash e of
             Some hash \<Rightarrow> (Inr \<lparr>bw_hash = hash, bw_password = password, bw_digest = None\<rparr>, b)
           | None \<Rightarrow> (Inl False, b))
      | Some secret \<Rightarrow>
          let digest = credential_digest e secret password in
          if digest \<in> set (bz_verified b) then (Inl True, b)
          else (case secret of
              Argon2 hash \<Rightarrow> (Inr \<lparr>bw_hash = hash, bw_password = password, bw_digest = Some digest\<rparr>, b)
            | Plain plain \<Rightarrow>
                let valid = (plain = password) in (Inl valid, if valid then store_verified b digest else b)))"

definition verify_resume ::
    "auth_env \<Rightarrow> basic_authenticator \<Rightarrow> basic_wait \<Rightarrow> bool \<Rightarrow> bool \<Rightarrow> (proxy_error + bool) \<times> basic_authenticator" where
  "verify_resume e b wt permit task =
     (case verify_password e permit task (bw_hash wt) (bw_password wt) of
        Inl err \<Rightarrow> (Inl err, b)
      | Inr valid \<Rightarrow>
          (case bw_digest wt of
             None \<Rightarrow> (Inr False, b)
           | Some digest \<Rightarrow> (Inr valid, if valid then store_verified b digest else b)))"

section \<open>Authorizing a request\<close>

definition parse_credentials :: "auth_env \<Rightarrow> string \<Rightarrow> (string \<times> string) option" where
  "parse_credentials e v =
     (case to_str (ae_http e) v of
        None \<Rightarrow> None
      | Some s \<Rightarrow>
          (case split_once CHR '' '' (str_trim s) of
             None \<Rightarrow> None
           | Some (scheme, token) \<Rightarrow>
               if \<not> eq_ignore_ascii_case scheme ''basic'' then None
               else (case ae_base64 e (str_trim token) of
                   None \<Rightarrow> None
                 | Some decoded \<Rightarrow> if \<not> utf8_valid decoded then None else split_once CHR '':'' decoded)))"

definition request_credentials :: "auth_env \<Rightarrow> headers \<Rightarrow> (string \<times> string) option" where
  "request_credentials e hs = Option.bind (get hs ''authorization'') (parse_credentials e)"

record basic_flight =
  bf_client :: ip_addr
  bf_now :: instant
  bf_headers :: headers
  bf_wait :: basic_wait

definition authorize_end ::
    "basic_authenticator \<Rightarrow> ip_addr \<Rightarrow> instant \<Rightarrow> headers \<Rightarrow> proxy_error + bool \<Rightarrow>
     (proxy_error + headers) \<times> basic_authenticator" where
  "authorize_end b client now hs verified =
     (case verified of
        Inl err \<Rightarrow> (Inl err, b)
      | Inr False \<Rightarrow> (Inl (basic_unauthorized b), record_basic_failure b client now)
      | Inr True \<Rightarrow> (Inr (hremove hs ''authorization''), record_basic_success b client))"

definition authorize_begin ::
    "auth_env \<Rightarrow> file_system \<Rightarrow> basic_authenticator \<Rightarrow> headers \<Rightarrow> ip_addr \<Rightarrow> instant \<Rightarrow>
     ((proxy_error + headers) + basic_flight) \<times> basic_authenticator" where
  "authorize_begin e fs b hs client_ip now =
     (let client = canonical_client_ip client_ip in
      case check_blocked b client now of
        (Inl err, b) \<Rightarrow> (Inl (Inl err), b)
      | (Inr _, b) \<Rightarrow>
          (case request_credentials e hs of
             None \<Rightarrow> (Inl (Inl (basic_unauthorized b)), b)
           | Some (username, password) \<Rightarrow>
               (case verify_begin e fs b username password of
                  (Inl valid, b) \<Rightarrow> (let (result, b) = authorize_end b client now hs (Inr valid) in (Inl result, b))
                | (Inr wt, b) \<Rightarrow> (Inr \<lparr>bf_client = client, bf_now = now, bf_headers = hs, bf_wait = wt\<rparr>, b))))"

definition authorize_resume ::
    "auth_env \<Rightarrow> basic_authenticator \<Rightarrow> basic_flight \<Rightarrow> bool \<Rightarrow> bool \<Rightarrow> (proxy_error + headers) \<times> basic_authenticator" where
  "authorize_resume e b flight permit task =
     (let (verified, b) = verify_resume e b (bf_wait flight) permit task
      in authorize_end b (bf_client flight) (bf_now flight) (bf_headers flight) verified)"

definition basic_authorize ::
    "auth_env \<Rightarrow> file_system \<Rightarrow> bool \<Rightarrow> bool \<Rightarrow> basic_authenticator \<Rightarrow> headers \<Rightarrow> ip_addr \<Rightarrow> instant \<Rightarrow>
     (proxy_error + headers) \<times> basic_authenticator" where
  "basic_authorize e fs permit task b hs client_ip now =
     (case authorize_begin e fs b hs client_ip now of
        (Inl result, b) \<Rightarrow> (result, b)
      | (Inr flight, b) \<Rightarrow> authorize_resume e b flight permit task)"

section \<open>The user file\<close>

text \<open>An absolute path is refused, and the authenticator then has no file at all.\<close>

lemma absolute_user_file_is_ignored:
  assumes "starts_with ''/'' (str_trim path)" and "bg_user_file config = Some path"
  shows "basic_auth_validate config = Inl (InvalidFilePath path)"
    and "bz_user_file (basic_new e fs config) = None" and "bz_file_users (basic_new e fs config) = file_users_default"
  using assms
  by (simp_all add: basic_auth_validate_def basic_new_def validate_user_file_path_def is_unsafe_path_str_def Let_def split: prod.splits)

text \<open>
  A change of the file that cannot be read once is lost: the new modification time is noted before the read, so a later
  look at the same, now readable, file keeps the former users.
\<close>

lemma unread_change_is_lost:
  assumes "fi_metadata (fs path) = Some modified" and "fi_content (fs path) = None"
    and "fi_metadata (fs' path) = Some modified" and "fi_content (fs' path) = Some content"
    and "fu_users (bz_file_users b) \<noteq> []"
  shows "fu_users (bz_file_users (reload_file_if_modified fs' (reload_file_if_modified fs b path) path)) = fu_users (bz_file_users b)"
  using assms by (auto simp: reload_file_if_modified_def Let_def)

text \<open>A readable change takes effect at the next request, and forgets the remembered credentials.\<close>

lemma changed_file_is_read:
  assumes "fi_metadata (fs path) = Some modified" and "fi_content (fs path) = Some content"
    and "fu_last_modified (bz_file_users b) \<noteq> modified"
  shows "fu_users (bz_file_users (reload_file_if_modified fs b path)) = parse_user_file content"
    and "bz_verified (reload_file_if_modified fs b path) = []"
  using assms by (auto simp: reload_file_if_modified_def Let_def)

end
