(* ===== verification/Basic_Limit.thy ===== *)
theory Basic_Limit
  imports Basic_Auth "HOL-Library.Code_Target_Nat"
begin

text \<open>
  The limit on failed logins of \<open>proxy/http/auth/basic.rs\<close>, for requests that follow one another: how the record of
  a client changes with each request, and how many wrong passwords a client can try in a minute.
\<close>

section \<open>The record of one client\<close>

text \<open>What \<open>check_blocked\<close> and \<open>record_basic_failure\<close> do to the record of a client.\<close>

definition retained :: "instant \<Rightarrow> client_attempts option \<Rightarrow> client_attempts option" where
  "retained now v = (case v of Some a \<Rightarrow> if keep_attempt now a then Some a else None | None \<Rightarrow> None)"

definition after_failure :: "instant \<Rightarrow> client_attempts option \<Rightarrow> client_attempts" where
  "after_failure now v =
     (let a = (case v of Some a \<Rightarrow> a | None \<Rightarrow> \<lparr>ct_failures = 0, ct_window_start = now, ct_blocked_until = None\<rparr>) in
      if now - ct_window_start a \<ge> basic_attempts_reset
      then \<lparr>ct_failures = 1, ct_window_start = now, ct_blocked_until = None\<rparr>
      else let f = min (ct_failures a + 1) (2 ^ 32 - 1) in
        a\<lparr>ct_failures := f,
          ct_blocked_until := (if f \<ge> max_basic_attempts then Some (now + basic_attempts_reset) else ct_blocked_until a)\<rparr>)"

definition attempt_of :: "basic_authenticator \<Rightarrow> ip_addr \<Rightarrow> client_attempts option" where
  "attempt_of b c = map_of (bz_attempts b) c"

text \<open>A record that does not block counts between one and nine failures.\<close>

definition attempt_ok :: "client_attempts option \<Rightarrow> bool" where
  "attempt_ok v = (case v of
       Some a \<Rightarrow> ct_blocked_until a = None \<longrightarrow> 1 \<le> ct_failures a \<and> ct_failures a < max_basic_attempts
     | None \<Rightarrow> True)"

definition attempts_ok :: "basic_authenticator \<Rightarrow> bool" where
  "attempts_ok b \<longleftrightarrow> distinct (map fst (bz_attempts b)) \<and> (\<forall>c. attempt_ok (attempt_of b c))"

lemma attempt_of_record_failure:
  "attempt_of (record_basic_failure b client now) c =
     (if c = client then Some (after_failure now (attempt_of b client)) else attempt_of b c)"
  unfolding record_basic_failure_def attempt_of_def after_failure_def
  by (simp add: Let_def update_conv' split: option.splits)

lemma attempt_of_record_success:
  "attempt_of (record_basic_success b client) c = (if c = client then None else attempt_of b c)"
  by (simp add: record_basic_success_def attempt_of_def delete_conv')

lemma attempt_of_check_blocked:
  "attempts_ok b \<Longrightarrow> attempt_of (snd (check_blocked b client now)) c = retained now (attempt_of b c)"
  by (auto simp: check_blocked_def Let_def attempt_of_def retained_def attempts_ok_def map_of_filter_snd split: option.splits)

lemma fst_check_blocked:
  assumes "attempts_ok b"
  shows "fst (check_blocked b client now) =
    (case Option.bind (retained now (attempt_of b client)) ct_blocked_until of
       Some u \<Rightarrow> Inl (TooManyRequests (u - now)) | None \<Rightarrow> Inr ())"
proof -
  have "map_of (filter (\<lambda>(_, a). keep_attempt now a) (bz_attempts b)) client = retained now (attempt_of b client)"
    using assms by (simp add: attempts_ok_def map_of_filter_snd retained_def attempt_of_def)
  moreover have "now < u" if "Option.bind (retained now (attempt_of b client)) ct_blocked_until = Some u" for u
    using that by (auto simp: retained_def keep_attempt_def bind_eq_Some_conv split: option.splits if_splits)
  ultimately show ?thesis
    by (auto simp: check_blocked_def Let_def split: option.splits)
qed

section \<open>One request\<close>

lemma bz_attempts_get_user [simp]: "bz_attempts (snd (get_user fs b u)) = bz_attempts b"
  by (auto simp: get_user_def reload_file_if_modified_def Let_def split: option.splits)

lemma bz_attempts_store_verified [simp]: "bz_attempts (store_verified b d) = bz_attempts b"
  by (simp add: store_verified_def Let_def)

lemma bz_attempts_verify_begin [simp]: "bz_attempts (snd (verify_begin e fs b u p)) = bz_attempts b"
proof (cases "get_user fs b u")
  case (Pair user b1)
  moreover have "bz_attempts b1 = bz_attempts b" using bz_attempts_get_user [of fs b u] unfolding Pair by simp
  ultimately show ?thesis by (auto simp: verify_begin_def Let_def split: option.splits stored_password.splits)
qed

lemma bz_attempts_verify_resume [simp]: "bz_attempts (snd (verify_resume e b wt permit task)) = bz_attempts b"
  by (auto simp: verify_resume_def split: sum.splits option.splits)

text \<open>A login that failed: the request had credentials and the answer is 401.\<close>

definition guess_failed :: "auth_env \<Rightarrow> headers \<Rightarrow> proxy_error + headers \<Rightarrow> bool" where
  "guess_failed e hs r \<longleftrightarrow> request_credentials e hs \<noteq> None \<and>
     (case r of Inl (Unauthorized _) \<Rightarrow> True | _ \<Rightarrow> False)"

lemma guess_failed_iff:
  "guess_failed e hs r \<longleftrightarrow> request_credentials e hs \<noteq> None \<and> (\<exists>ch. r = Inl (Unauthorized ch))"
  by (auto simp: guess_failed_def split: sum.splits proxy_error.splits)

text \<open>How the answer to a verified request goes with the record of its client.\<close>

lemma authorize_end_attempts:
  assumes "authorize_end b client now hs verified = (r, b')"
    and "\<And>ch. verified \<noteq> Inl (Unauthorized ch)" and "request_credentials e hs \<noteq> None"
  shows "attempt_of b' c =
    (if c = client \<and> guess_failed e hs r then Some (after_failure now (attempt_of b c))
     else if c = client \<and> \<not> (\<exists>err. r = Inl err) then None
     else attempt_of b c)"
    and "distinct (map fst (bz_attempts b)) \<Longrightarrow> distinct (map fst (bz_attempts b'))"
proof -
  consider (err) er where "verified = Inl er" | (bad) "verified = Inr False" | (good) "verified = Inr True"
    by (cases verified) auto
  then have "attempt_of b' c =
    (if c = client \<and> guess_failed e hs r then Some (after_failure now (attempt_of b c))
     else if c = client \<and> \<not> (\<exists>err. r = Inl err) then None
     else attempt_of b c) \<and> (distinct (map fst (bz_attempts b)) \<longrightarrow> distinct (map fst (bz_attempts b')))"
  proof cases
    case err
    then show ?thesis using assms by (auto simp: authorize_end_def guess_failed_iff)
  next
    case bad
    then show ?thesis using assms
      by (auto simp: authorize_end_def guess_failed_iff basic_unauthorized_def attempt_of_record_failure)
         (auto simp: record_basic_failure_def Let_def distinct_update)
  next
    case good
    then show ?thesis using assms
      by (auto simp: authorize_end_def guess_failed_iff attempt_of_record_success)
         (auto simp: record_basic_success_def distinct_delete)
  qed
  then show "attempt_of b' c =
    (if c = client \<and> guess_failed e hs r then Some (after_failure now (attempt_of b c))
     else if c = client \<and> \<not> (\<exists>err. r = Inl err) then None
     else attempt_of b c)"
    and "distinct (map fst (bz_attempts b)) \<Longrightarrow> distinct (map fst (bz_attempts b'))" by blast+
qed

text \<open>One request changes only the record of its own client, beyond what has run out.\<close>

lemma basic_authorize_attempts:
  assumes "attempts_ok b" and "basic_authorize e fs permit task b hs ip now = (r, b')"
  defines "client \<equiv> canonical_client_ip ip"
  shows "attempt_of b' c =
    (if c = client \<and> guess_failed e hs r then Some (after_failure now (retained now (attempt_of b c)))
     else if c = client \<and> \<not> (\<exists>err. r = Inl err) then None
     else retained now (attempt_of b c))"
    and "distinct (map fst (bz_attempts b'))"
    and "guess_failed e hs r \<Longrightarrow> Option.bind (retained now (attempt_of b client)) ct_blocked_until = None"
proof -
  obtain blk b1 where chk: "check_blocked b client now = (blk, b1)" by (cases "check_blocked b client now")
  have v1: "attempt_of b1 c = retained now (attempt_of b c)" for c
    using attempt_of_check_blocked [OF assms(1), of client now c] chk by simp
  have d1: "distinct (map fst (bz_attempts b1))"
    using chk assms(1) by (auto simp: check_blocked_def attempts_ok_def Let_def distinct_map_filter split: option.splits)
  have blk: "blk = (case Option.bind (retained now (attempt_of b client)) ct_blocked_until of
       Some u \<Rightarrow> Inl (TooManyRequests (u - now)) | None \<Rightarrow> Inr ())"
    using fst_check_blocked [OF assms(1), of client now] chk by simp
  have "attempt_of b' c =
    (if c = client \<and> guess_failed e hs r then Some (after_failure now (retained now (attempt_of b c)))
     else if c = client \<and> \<not> (\<exists>err. r = Inl err) then None
     else retained now (attempt_of b c)) \<and> distinct (map fst (bz_attempts b')) \<and>
    (guess_failed e hs r \<longrightarrow> Option.bind (retained now (attempt_of b client)) ct_blocked_until = None)"
  proof (cases blk)
    case (Inl err)
    then have "r = Inl err" "b' = b1" "\<not> guess_failed e hs r"
      using assms(2) chk blk
      by (auto simp: basic_authorize_def authorize_begin_def client_def Let_def guess_failed_iff split: option.splits)
    then show ?thesis using v1 d1 by simp
  next
    case (Inr x)
    then have free: "Option.bind (retained now (attempt_of b client)) ct_blocked_until = None"
      using blk by (auto split: option.splits)
    show ?thesis
    proof (cases "request_credentials e hs")
      case None
      then have "b' = b1" "\<exists>err. r = Inl err" "\<not> guess_failed e hs r"
        using assms(2) chk Inr
        by (auto simp: basic_authorize_def authorize_begin_def client_def Let_def guess_failed_iff)
      then show ?thesis using v1 d1 by auto
    next
      case (Some up)
      obtain u p where up: "up = (u, p)" by (cases up)
      obtain res b2 where vb: "verify_begin e fs b1 u p = (res, b2)" by (cases "verify_begin e fs b1 u p")
      have a2: "bz_attempts b2 = bz_attempts b1" using bz_attempts_verify_begin [of e fs b1 u p] unfolding vb by simp
      obtain verified b3 where tail: "authorize_end b3 client now hs verified = (r, b')"
        and a3: "bz_attempts b3 = bz_attempts b2" and nu: "\<And>ch. verified \<noteq> Inl (Unauthorized ch)"
      proof (cases res)
        case (Inl valid)
        then show thesis
          using assms(2) chk Inr Some up vb that [of b2 "Inr valid"]
          by (auto simp: basic_authorize_def authorize_begin_def client_def Let_def split: prod.splits)
      next
        case (Inr wt)
        obtain verified b3 where vr: "verify_resume e b2 wt permit task = (verified, b3)"
          by (cases "verify_resume e b2 wt permit task")
        have "bz_attempts b3 = bz_attempts b2" using bz_attempts_verify_resume [of e b2 wt permit task] unfolding vr by simp
        moreover have "verified \<noteq> Inl (Unauthorized ch)" for ch
          using vr by (auto simp: verify_resume_def verify_password_def split: option.splits if_splits)
        ultimately show thesis
          using assms(2) chk \<open>blk = Inr x\<close> Inr Some up vb vr that [of b3 verified]
          by (auto simp: basic_authorize_def authorize_begin_def authorize_resume_def client_def Let_def)
      qed
      have "attempt_of b3 c = retained now (attempt_of b c)" for c
        using v1 a2 a3 by (simp add: attempt_of_def)
      then show ?thesis
        using authorize_end_attempts [OF tail nu, of e] Some d1 a2 a3 free by simp
    qed
  qed
  then show "attempt_of b' c =
    (if c = client \<and> guess_failed e hs r then Some (after_failure now (retained now (attempt_of b c)))
     else if c = client \<and> \<not> (\<exists>err. r = Inl err) then None
     else retained now (attempt_of b c))"
    and "distinct (map fst (bz_attempts b'))"
    and "guess_failed e hs r \<Longrightarrow> Option.bind (retained now (attempt_of b client)) ct_blocked_until = None" by blast+
qed

section \<open>Failures that a client has left\<close>

text \<open>How many logins can still fail before the time \<open>T\<close>, by the record of the client.\<close>

definition failures_left :: "instant \<Rightarrow> client_attempts option \<Rightarrow> nat" where
  "failures_left T v =
     (case v of
        None \<Rightarrow> max_basic_attempts
      | Some a \<Rightarrow>
          (case ct_blocked_until a of
             Some u \<Rightarrow> if T \<le> u then 0 else max_basic_attempts
           | None \<Rightarrow>
               if T \<le> ct_window_start a + basic_attempts_reset then max_basic_attempts - ct_failures a
               else 2 * max_basic_attempts - 1 - ct_failures a))"

lemma failures_left_bound: "attempt_ok v \<Longrightarrow> failures_left T v \<le> 2 * max_basic_attempts - 2"
  by (auto simp: failures_left_def attempt_ok_def max_basic_attempts_def split: option.splits)

lemma attempt_ok_retained: "attempt_ok v \<Longrightarrow> attempt_ok (retained now v)"
  by (auto simp: attempt_ok_def retained_def split: option.splits)

lemma attempt_ok_after_failure:
  "attempt_ok v \<Longrightarrow> attempt_ok (Some (after_failure now v))"
  by (auto simp: attempt_ok_def after_failure_def Let_def max_basic_attempts_def basic_attempts_reset_def split: option.splits)

lemma failures_left_retained:
  "now < T \<Longrightarrow> attempt_ok v \<Longrightarrow> failures_left T (retained now v) \<le> failures_left T v"
  by (auto simp: failures_left_def retained_def keep_attempt_def attempt_ok_def max_basic_attempts_def
      basic_attempts_reset_def split: option.splits)

lemma failures_left_failure:
  assumes "now < T" and "T \<le> now + basic_attempts_reset" and "attempt_ok v"
    and "Option.bind (retained now v) ct_blocked_until = None"
  shows "failures_left T (Some (after_failure now (retained now v))) < failures_left T v"
proof (cases "retained now v")
  case None
  then have "failures_left T (Some (after_failure now (retained now v))) = max_basic_attempts - 1"
    using assms(2) by (simp add: after_failure_def failures_left_def max_basic_attempts_def basic_attempts_reset_def)
  moreover have "max_basic_attempts \<le> failures_left T v"
    using failures_left_retained [OF assms(1,3)] None by (simp add: failures_left_def)
  ultimately show ?thesis by (simp add: max_basic_attempts_def)
next
  case (Some a)
  then have v: "v = Some a" and free: "ct_blocked_until a = None" and young: "now - ct_window_start a < basic_attempts_reset"
    using assms(4) by (auto simp: retained_def keep_attempt_def split: option.splits if_splits)
  then show ?thesis
    using assms(1-3) Some
    by (auto simp: after_failure_def failures_left_def attempt_ok_def Let_def max_basic_attempts_def)
qed

section \<open>A sequence of requests\<close>

record basic_call =
  bk_fs :: file_system
  bk_headers :: headers
  bk_ip :: ip_addr
  bk_now :: instant
  bk_permit :: bool
  bk_task :: bool

definition call_authorize ::
    "auth_env \<Rightarrow> basic_authenticator \<Rightarrow> basic_call \<Rightarrow> (proxy_error + headers) \<times> basic_authenticator" where
  "call_authorize e b k = basic_authorize e (bk_fs k) (bk_permit k) (bk_task k) b (bk_headers k) (bk_ip k) (bk_now k)"

fun authorize_run ::
    "auth_env \<Rightarrow> basic_authenticator \<Rightarrow> basic_call list \<Rightarrow> (basic_call \<times> (proxy_error + headers)) list" where
  "authorize_run e b [] = []"
| "authorize_run e b (k # ks) = (let (r, b') = call_authorize e b k in (k, r) # authorize_run e b' ks)"

text \<open>The requests of a client within a minute of \<open>t\<close>, the ones of them that failed, and that none of them passed.\<close>

definition of_client_in :: "ip_addr \<Rightarrow> instant \<Rightarrow> basic_call \<Rightarrow> bool" where
  "of_client_in client t k \<longleftrightarrow>
     canonical_client_ip (bk_ip k) = client \<and> t \<le> bk_now k \<and> bk_now k < t + basic_attempts_reset"

definition failed_guesses :: "auth_env \<Rightarrow> ip_addr \<Rightarrow> instant \<Rightarrow> (basic_call \<times> (proxy_error + headers)) list \<Rightarrow> nat" where
  "failed_guesses e client t rs =
     length (filter (\<lambda>(k, r). of_client_in client t k \<and> guess_failed e (bk_headers k) r) rs)"

definition no_login :: "ip_addr \<Rightarrow> instant \<Rightarrow> (basic_call \<times> (proxy_error + headers)) list \<Rightarrow> bool" where
  "no_login client t rs \<longleftrightarrow> list_all (\<lambda>(k, r). of_client_in client t k \<longrightarrow> \<not> is_ok r) rs"

lemma attempts_ok_call:
  assumes "attempts_ok b" and "call_authorize e b k = (r, b')"
  shows "attempts_ok b'"
  using assms basic_authorize_attempts [OF assms(1), of e "bk_fs k" "bk_permit k" "bk_task k" "bk_headers k" "bk_ip k" "bk_now k" r b']
  by (auto simp: attempts_ok_def call_authorize_def attempt_ok_retained attempt_ok_after_failure)
     (simp add: attempt_ok_def)

lemma failed_guesses_late:
  "\<forall>k \<in> set ks. t + basic_attempts_reset \<le> bk_now k \<Longrightarrow> failed_guesses e client t (authorize_run e b ks) = 0"
proof (induction ks arbitrary: b)
  case (Cons k ks)
  then show ?case by (auto simp: failed_guesses_def of_client_in_def split: prod.splits)
qed (simp add: failed_guesses_def)

lemma failures_left_call:
  assumes "attempts_ok b" and "call_authorize e b k = (r, b')" and "t \<le> bk_now k" and "bk_now k < t + basic_attempts_reset"
    and "of_client_in client t k \<longrightarrow> \<not> is_ok r"
  shows "(if of_client_in client t k \<and> guess_failed e (bk_headers k) r then 1 else 0) +
    failures_left (t + basic_attempts_reset) (attempt_of b' client) \<le> failures_left (t + basic_attempts_reset) (attempt_of b client)"
proof -
  let ?T = "t + basic_attempts_reset" and ?c = "canonical_client_ip (bk_ip k)" and ?v = "attempt_of b client"
  note one = basic_authorize_attempts [OF assms(1) assms(2) [unfolded call_authorize_def]]
  have ok: "attempt_ok ?v" using assms(1) by (simp add: attempts_ok_def)
  have mine: "of_client_in client t k \<longleftrightarrow> client = ?c" using assms(3,4) by (auto simp: of_client_in_def)
  show ?thesis
  proof (cases "client = ?c \<and> guess_failed e (bk_headers k) r")
    case True
    then have "attempt_of b' client = Some (after_failure (bk_now k) (retained (bk_now k) ?v))"
      and "Option.bind (retained (bk_now k) ?v) ct_blocked_until = None"
      using one(1) [of client] one(3) by auto
    then show ?thesis
      using True mine failures_left_failure [OF assms(4) _ ok] assms(3) by simp
  next
    case False
    have "\<exists>err. r = Inl err" if "client = ?c" using that assms(5) mine by (cases r) auto
    then have "attempt_of b' client = retained (bk_now k) ?v" using one(1) [of client] False by auto
    then show ?thesis using False mine failures_left_retained [OF assms(4) ok] by auto
  qed
qed

text \<open>From the start of the minute on, the record of the client bounds the failures to come.\<close>

lemma failed_guesses_within:
  "attempts_ok b \<Longrightarrow> sorted (map bk_now ks) \<Longrightarrow> \<forall>k \<in> set ks. t \<le> bk_now k \<Longrightarrow> no_login client t (authorize_run e b ks) \<Longrightarrow>
   failed_guesses e client t (authorize_run e b ks) \<le> failures_left (t + basic_attempts_reset) (attempt_of b client)"
proof (induction ks arbitrary: b)
  case (Cons k ks)
  show ?case
  proof (cases "bk_now k < t + basic_attempts_reset")
    case True
    obtain r b' where step: "call_authorize e b k = (r, b')" by (cases "call_authorize e b k")
    have "failed_guesses e client t (authorize_run e b' ks) \<le> failures_left (t + basic_attempts_reset) (attempt_of b' client)"
      using Cons.IH [of b'] Cons.prems attempts_ok_call [OF Cons.prems(1) step] step by (simp add: no_login_def)
    moreover have "of_client_in client t k \<longrightarrow> \<not> is_ok r" using Cons.prems(4) step by (simp add: no_login_def)
    moreover have "failed_guesses e client t (authorize_run e b (k # ks)) =
        (if of_client_in client t k \<and> guess_failed e (bk_headers k) r then 1 else 0) +
        failed_guesses e client t (authorize_run e b' ks)"
      using step by (simp add: failed_guesses_def)
    ultimately show ?thesis
      using failures_left_call [OF Cons.prems(1) step _ True, of client] Cons.prems(3) by simp
  next
    case False
    then have "\<forall>k' \<in> set (k # ks). t + basic_attempts_reset \<le> bk_now k'" using Cons.prems(2) by auto
    then show ?thesis using failed_guesses_late [of "k # ks" t e client b] by linarith
  qed
qed (simp add: failed_guesses_def)

lemma failed_guesses_bounded:
  "attempts_ok b \<Longrightarrow> sorted (map bk_now ks) \<Longrightarrow> no_login client t (authorize_run e b ks) \<Longrightarrow>
   failed_guesses e client t (authorize_run e b ks) \<le> 2 * max_basic_attempts - 2"
proof (induction ks arbitrary: b)
  case (Cons k ks)
  obtain r b' where step: "call_authorize e b k = (r, b')" by (cases "call_authorize e b k")
  show ?case
  proof (cases "t \<le> bk_now k")
    case True
    then have "\<forall>k' \<in> set (k # ks). t \<le> bk_now k'" using Cons.prems(2) by auto
    then have "failed_guesses e client t (authorize_run e b (k # ks)) \<le> failures_left (t + basic_attempts_reset) (attempt_of b client)"
      using failed_guesses_within Cons.prems by blast
    then show ?thesis
      using failures_left_bound [of "attempt_of b client" "t + basic_attempts_reset"] Cons.prems(1) attempts_ok_def le_trans by blast
  next
    case False
    then have "failed_guesses e client t (authorize_run e b (k # ks)) = failed_guesses e client t (authorize_run e b' ks)"
      using step by (simp add: failed_guesses_def of_client_in_def)
    then show ?thesis
      using Cons.IH [of b'] Cons.prems attempts_ok_call [OF Cons.prems(1) step] step by (simp add: no_login_def)
  qed
qed (simp add: failed_guesses_def)

lemma attempts_ok_new: "attempts_ok (basic_new e fs config)"
  by (simp add: attempts_ok_def basic_new_def attempt_of_def attempt_ok_def Let_def split: prod.splits)


definition sample_basic_auth :: basic_auth where
  "sample_basic_auth = \<lparr>bg_realm = [],
     bg_users = [\<lparr>bu_username = ''a'', bu_password = [], bu_password_hash = ''$argon2x'', bu_password_set = False\<rparr>],
     bg_user_file = None\<rparr>"

definition no_user_file :: file_system where
  "no_user_file _ = \<lparr>fi_metadata = None, fi_content = None\<rparr>"

definition sample_guess :: "nat \<Rightarrow> basic_call" where
  "sample_guess s = \<lparr>bk_fs = no_user_file, bk_headers = [(''authorization'', ''Basic a:y'')], bk_ip = V4 9,
     bk_now = s * 1000000000, bk_permit = True, bk_task = True\<rparr>"

definition sample_guesses :: "basic_call list" where
  "sample_guesses = map sample_guess [0, 59, 59, 60]"


end
