(* ===== verification/Basic_Race.thy ===== *)
theory Basic_Race
  imports Basic_Auth
begin

text \<open>
  Requests in flight at a Basic authenticator (\<open>proxy/http/auth/basic.rs\<close>): arrivals and resumptions in any order,
  with a user file that changes between them.  Which requests pass, and how many passwords are tried at once.
\<close>

section \<open>Steps\<close>

datatype basic_event =
    Arrive file_system headers ip_addr instant
  | Resume nat bool bool

type_synonym basic_state = "basic_authenticator \<times> basic_flight list"

fun basic_step :: "auth_env \<Rightarrow> basic_event \<Rightarrow> basic_state \<Rightarrow> (proxy_error + headers) option \<times> basic_state" where
  "basic_step e (Arrive fs hs ip now) (b, flights) =
     (case authorize_begin e fs b hs ip now of
        (Inl r, b') \<Rightarrow> (Some r, b', flights)
      | (Inr flight, b') \<Rightarrow> (None, b', flights @ [flight]))"
| "basic_step e (Resume i permit task) (b, flights) =
     (if i < length flights
      then let (r, b') = authorize_resume e b (flights ! i) permit task in (Some r, b', take i flights @ drop (Suc i) flights)
      else (None, b, flights))"

definition state_after :: "auth_env \<Rightarrow> basic_authenticator \<Rightarrow> basic_event list \<Rightarrow> basic_state" where
  "state_after e b0 es = foldl (\<lambda>s ev. snd (basic_step e ev s)) (b0, []) es"

fun basic_outcomes :: "auth_env \<Rightarrow> basic_state \<Rightarrow> basic_event list \<Rightarrow> (proxy_error + headers) list" where
  "basic_outcomes e s [] = []"
| "basic_outcomes e s (ev # es) =
     (let (r, s') = basic_step e ev s in (case r of Some x \<Rightarrow> [x] | None \<Rightarrow> []) @ basic_outcomes e s' es)"

lemma state_after_simps [simp]:
  "state_after e b0 [] = (b0, [])"
  "state_after e b0 (es @ [ev]) = snd (basic_step e ev (state_after e b0 es))"
  by (simp_all add: state_after_def)

section \<open>Secrets and digests\<close>

definition password_ok :: "auth_env \<Rightarrow> stored_password \<Rightarrow> string \<Rightarrow> bool" where
  "password_ok e secret p = (case secret of Argon2 h \<Rightarrow> ae_argon2 e h p | Plain s \<Rightarrow> s = p)"

definition secret_text :: "stored_password \<Rightarrow> string" where
  "secret_text secret = (case secret of Argon2 h \<Rightarrow> h | Plain s \<Rightarrow> s)"

text \<open>The secrets and the passwords of a run.  No secret holds the byte that ends it in the digested text, and SHA-256
  has no collision among the texts of the run.\<close>

definition digests_apart :: "auth_env \<Rightarrow> stored_password set \<Rightarrow> string set \<Rightarrow> bool" where
  "digests_apart e S P \<longleftrightarrow>
     (\<forall>s \<in> S. CHR 0x00 \<notin> set (secret_text s)) \<and> inj_on (ae_sha256 e) {credential_text s p | s p. s \<in> S \<and> p \<in> P}"

lemma append_delim_inj:
  "a @ c # p = a' @ c # p' \<Longrightarrow> c \<notin> set a \<Longrightarrow> c \<notin> set a' \<Longrightarrow> a = a' \<and> p = p'"
proof (induction a arbitrary: a')
  case Nil
  then show ?case by (cases a') auto
next
  case (Cons x a)
  then show ?case by (cases a') auto
qed

lemma credential_text_inj:
  assumes "credential_text s p = credential_text s' p'"
    and "CHR 0x00 \<notin> set (secret_text s)" and "CHR 0x00 \<notin> set (secret_text s')"
  shows "s = s' \<and> p = p'"
proof -
  define a where "a = (\<lambda>s. case s of Argon2 h \<Rightarrow> ''argon2:'' @ h | Plain s \<Rightarrow> ''plain:'' @ s)"
  have n: "CHR 0x00 \<notin> set (a s)" if "CHR 0x00 \<notin> set (secret_text s)" for s
    using that by (cases s) (simp_all add: a_def secret_text_def)
  have ct: "credential_text s p = a s @ CHR 0x00 # p" for s p
    by (cases s) (simp_all add: credential_text_def a_def)
  have "a s = a s' \<and> p = p'"
    by (rule append_delim_inj [OF assms(1) [unfolded ct] n [OF assms(2)] n [OF assms(3)]])
  then show ?thesis by (cases s; cases s') (simp_all add: a_def)
qed

lemma credential_digest_inj:
  assumes "digests_apart e S P" and "credential_digest e s p = credential_digest e s' p'"
    and "s \<in> S" and "s' \<in> S" and "p \<in> P" and "p' \<in> P"
  shows "s = s'" and "p = p'"
proof -
  let ?X = "{credential_text s p | s p. s \<in> S \<and> p \<in> P}"
  have "credential_text s p \<in> ?X" "credential_text s' p' \<in> ?X" using assms(3-6) by blast+
  then have "credential_text s p = credential_text s' p'"
    using assms(1,2) inj_onD [of "ae_sha256 e" ?X] unfolding digests_apart_def credential_digest_def by blast
  then show "s = s'" and "p = p'" using credential_text_inj assms(1,3,4) unfolding digests_apart_def by blast+
qed

section \<open>What a step keeps\<close>

definition lookup_user :: "file_system \<Rightarrow> basic_authenticator \<Rightarrow> string \<Rightarrow> stored_password option" where
  "lookup_user fs b u = fst (get_user fs b u)"

text \<open>The users of the authenticator have secrets of \<open>S\<close>, and what is remembered passed once.\<close>

definition users_in :: "stored_password set \<Rightarrow> basic_authenticator \<Rightarrow> bool" where
  "users_in S b \<longleftrightarrow> snd ` set (bz_users b) \<subseteq> S \<and> snd ` set (fu_users (bz_file_users b)) \<subseteq> S"

definition remembered_ok :: "auth_env \<Rightarrow> stored_password set \<Rightarrow> string set \<Rightarrow> basic_authenticator \<Rightarrow> bool" where
  "remembered_ok e S P b \<longleftrightarrow>
     (\<forall>d \<in> set (bz_verified b). \<exists>s \<in> S. \<exists>p \<in> P. d = credential_digest e s p \<and> password_ok e s p)"

definition files_in :: "stored_password set \<Rightarrow> file_system \<Rightarrow> bool" where
  "files_in S fs \<longleftrightarrow> (\<forall>path content. fi_content (fs path) = Some content \<longrightarrow> snd ` set (parse_user_file content) \<subseteq> S)"

lemma get_user_attempts:
  "get_user fs (b\<lparr>bz_attempts := x\<rparr>) u = (fst (get_user fs b u), (snd (get_user fs b u))\<lparr>bz_attempts := x\<rparr>)"
  by (auto simp: get_user_def reload_file_if_modified_def Let_def split: option.splits)

lemma users_in_attempts [simp]: "users_in S (b\<lparr>bz_attempts := x\<rparr>) = users_in S b"
  by (simp add: users_in_def)

lemma remembered_ok_attempts [simp]: "remembered_ok e S P (b\<lparr>bz_attempts := x\<rparr>) = remembered_ok e S P b"
  by (simp add: remembered_ok_def)

lemma get_user_keeps:
  assumes "users_in S b" and "remembered_ok e S P b" and "files_in S fs"
  shows "users_in S (snd (get_user fs b u))" and "remembered_ok e S P (snd (get_user fs b u))"
    and "lookup_user fs b u = Some s \<Longrightarrow> s \<in> S"
proof -
  have re: "users_in S (reload_file_if_modified fs b path)" "remembered_ok e S P (reload_file_if_modified fs b path)" for path
    using assms by (auto simp: reload_file_if_modified_def users_in_def remembered_ok_def files_in_def Let_def split: option.splits)
  show "users_in S (snd (get_user fs b u))" and "remembered_ok e S P (snd (get_user fs b u))"
    using re assms by (auto simp: get_user_def Let_def split: option.splits)
  have mem: "s \<in> snd ` set m" if "map_of m u = Some s" for m :: "(string \<times> stored_password) list"
    using map_of_SomeD [OF that] by force
  have "s \<in> S" if l: "map_of (fu_users (bz_file_users (reload_file_if_modified fs b path))) u = Some s" for path
    using mem [OF l] re(1) [of path] unfolding users_in_def by blast
  moreover have "s \<in> S" if l: "map_of (bz_users b) u = Some s"
    using mem [OF l] assms(1) unfolding users_in_def by blast
  ultimately show "s \<in> S" if "lookup_user fs b u = Some s"
    using that by (auto simp: lookup_user_def get_user_def Let_def split: option.splits)
qed

lemma users_in_store_verified [simp]: "users_in S (store_verified b d) = users_in S b"
  by (simp add: store_verified_def users_in_def Let_def)

lemma remembered_ok_store_verified:
  "remembered_ok e S P b \<Longrightarrow> s \<in> S \<Longrightarrow> p \<in> P \<Longrightarrow> password_ok e s p \<Longrightarrow>
     remembered_ok e S P (store_verified b (credential_digest e s p))"
  by (auto simp: remembered_ok_def store_verified_def Let_def)

lemma authorize_end_keeps:
  assumes "authorize_end b client now hs verified = (r, b')"
  shows "users_in S b' = users_in S b" and "remembered_ok e S P b' = remembered_ok e S P b"
    and "r = Inr hs' \<Longrightarrow> verified = Inr True \<and> hs' = hremove hs ''authorization''"
  using assms
  by (auto simp: authorize_end_def record_basic_failure_def record_basic_success_def Let_def
      split: sum.splits bool.splits)

lemma check_blocked_attempts: "\<exists>x. snd (check_blocked b client now) = b\<lparr>bz_attempts := x\<rparr>"
  by (auto simp: check_blocked_def Let_def split: option.splits)

lemma verify_begin_keeps:
  assumes step: "verify_begin e fs b u p = (res, b')" and p: "p \<in> P" and apart: "digests_apart e S P"
    and inv: "users_in S b" "remembered_ok e S P b" "files_in S fs"
  shows "users_in S b'" and "remembered_ok e S P b'"
    and "res = Inl True \<Longrightarrow> \<exists>s. lookup_user fs b u = Some s \<and> password_ok e s p"
    and "res = Inr wt \<Longrightarrow> bw_password wt = p \<and> (bw_digest wt = None \<or>
      (\<exists>h. lookup_user fs b u = Some (Argon2 h) \<and> bw_hash wt = h \<and> bw_digest wt = Some (credential_digest e (Argon2 h) p)))"
proof -
  obtain user b1 where gu: "get_user fs b u = (user, b1)" by (cases "get_user fs b u")
  then have lu: "lookup_user fs b u = user" by (simp add: lookup_user_def)
  have i1: "users_in S b1" "remembered_ok e S P b1"
    using get_user_keeps(1,2) [OF inv, of u] gu by simp_all
  have "users_in S b' \<and> remembered_ok e S P b' \<and> (res = Inl True \<longrightarrow> (\<exists>s. user = Some s \<and> password_ok e s p)) \<and>
    (res = Inr wt \<longrightarrow> bw_password wt = p \<and> (bw_digest wt = None \<or>
      (\<exists>h. user = Some (Argon2 h) \<and> bw_hash wt = h \<and> bw_digest wt = Some (credential_digest e (Argon2 h) p))))"
  proof (cases user)
    case None
    then show ?thesis using step gu i1 by (auto simp: verify_begin_def split: option.splits)
  next
    case (Some s)
    have s: "s \<in> S" using get_user_keeps(3) [OF inv] lu Some by simp
    show ?thesis
    proof (cases "credential_digest e s p \<in> set (bz_verified b1)")
      case True
      then obtain s' p' where "s' \<in> S" "p' \<in> P" "credential_digest e s p = credential_digest e s' p'" "password_ok e s' p'"
        using i1(2) unfolding remembered_ok_def by blast
      then have "password_ok e s p" using credential_digest_inj [OF apart _ s _ p] by metis
      moreover have "res = Inl True" "b' = b1" using step gu Some True by (simp_all add: verify_begin_def)
      ultimately show ?thesis using Some i1 by simp
    next
      case False
      show ?thesis
      proof (cases s)
        case (Argon2 h)
        then show ?thesis using step gu Some False i1 by (auto simp: verify_begin_def)
      next
        case (Plain t)
        then have res: "res = Inl (t = p)" "b' = (if t = p then store_verified b1 (credential_digest e s p) else b1)"
          using step gu Some False by (auto simp: verify_begin_def Let_def)
        have "password_ok e s p" if "t = p" using that Plain by (simp add: password_ok_def)
        then show ?thesis using res Some i1 remembered_ok_store_verified [OF i1(2) s p] by auto
      qed
    qed
  qed
  then show "users_in S b'" and "remembered_ok e S P b'"
    and "res = Inl True \<Longrightarrow> \<exists>s. lookup_user fs b u = Some s \<and> password_ok e s p"
    and "res = Inr wt \<Longrightarrow> bw_password wt = p \<and> (bw_digest wt = None \<or>
      (\<exists>h. lookup_user fs b u = Some (Argon2 h) \<and> bw_hash wt = h \<and> bw_digest wt = Some (credential_digest e (Argon2 h) p)))"
    unfolding lu by blast+
qed

text \<open>What a request in flight knows: the password of its request and the hash of its user when it arrived.\<close>

definition flight_of :: "auth_env \<Rightarrow> file_system \<Rightarrow> basic_authenticator \<Rightarrow> headers \<Rightarrow> basic_flight \<Rightarrow> bool" where
  "flight_of e fs b hs f \<longleftrightarrow> bf_headers f = hs \<and>
     (\<exists>u. request_credentials e hs = Some (u, bw_password (bf_wait f)) \<and>
        (bw_digest (bf_wait f) = None \<or>
         lookup_user fs b u = Some (Argon2 (bw_hash (bf_wait f))) \<and>
         bw_digest (bf_wait f) = Some (credential_digest e (Argon2 (bw_hash (bf_wait f))) (bw_password (bf_wait f)))))"

definition passes :: "auth_env \<Rightarrow> file_system \<Rightarrow> basic_authenticator \<Rightarrow> headers \<Rightarrow> headers \<Rightarrow> bool" where
  "passes e fs b hs hs' \<longleftrightarrow> hs' = hremove hs ''authorization'' \<and>
     (\<exists>u p s. request_credentials e hs = Some (u, p) \<and> lookup_user fs b u = Some s \<and> password_ok e s p)"

lemma authorize_begin_keeps:
  assumes step: "authorize_begin e fs b hs ip now = (res, b')" and apart: "digests_apart e S P"
    and P: "\<forall>u p. request_credentials e hs = Some (u, p) \<longrightarrow> p \<in> P"
    and inv: "users_in S b" "remembered_ok e S P b" "files_in S fs"
  shows "users_in S b'" and "remembered_ok e S P b'"
    and "res = Inl (Inr hs') \<Longrightarrow> passes e fs b hs hs'"
    and "res = Inr f \<Longrightarrow> flight_of e fs b hs f"
proof -
  let ?c = "canonical_client_ip ip"
  obtain blk b1 where chk: "check_blocked b ?c now = (blk, b1)" by (cases "check_blocked b ?c now")
  then obtain x where b1: "b1 = b\<lparr>bz_attempts := x\<rparr>" using check_blocked_attempts [of b ?c now] by auto
  have i1: "users_in S b1" "remembered_ok e S P b1" using inv b1 by simp_all
  have lu: "lookup_user fs b1 = lookup_user fs b" by (rule ext) (simp add: b1 lookup_user_def get_user_attempts)
  have "users_in S b' \<and> remembered_ok e S P b' \<and> (res = Inl (Inr hs') \<longrightarrow> passes e fs b hs hs') \<and>
    (res = Inr f \<longrightarrow> flight_of e fs b hs f)"
  proof (cases blk)
    case (Inl err)
    then show ?thesis using step chk i1 by (auto simp: authorize_begin_def Let_def)
  next
    case (Inr y)
    show ?thesis
    proof (cases "request_credentials e hs")
      case None
      then show ?thesis using step chk Inr i1 by (auto simp: authorize_begin_def Let_def)
    next
      case (Some up)
      obtain u p where up: "up = (u, p)" by (cases up)
      obtain vres b2 where vb: "verify_begin e fs b1 u p = (vres, b2)" by (cases "verify_begin e fs b1 u p")
      have "p \<in> P" using P Some up by simp
      note v = verify_begin_keeps [OF vb this apart i1 inv(3), unfolded lu]
      show ?thesis
      proof (cases vres)
        case (Inl valid)
        obtain r b3 where fin: "authorize_end b2 ?c now hs (Inr valid) = (r, b3)"
          by (cases "authorize_end b2 ?c now hs (Inr valid)")
        then have "res = Inl r" "b' = b3"
          using step chk \<open>blk = Inr y\<close> Some up vb Inl by (simp_all add: authorize_begin_def Let_def)
        then show ?thesis
          using authorize_end_keeps [OF fin] v(1,2) v(3) Inl Some up by (auto simp: passes_def)
      next
        case (Inr wt)
        then have "res = Inr \<lparr>bf_client = ?c, bf_now = now, bf_headers = hs, bf_wait = wt\<rparr>" "b' = b2"
          using step chk \<open>blk = Inr y\<close> Some up vb by (simp_all add: authorize_begin_def Let_def)
        then show ?thesis using v(1,2) v(4) [OF Inr] Some up by (auto simp: flight_of_def)
      qed
    qed
  qed
  then show "users_in S b'" and "remembered_ok e S P b'"
    and "res = Inl (Inr hs') \<Longrightarrow> passes e fs b hs hs'" and "res = Inr f \<Longrightarrow> flight_of e fs b hs f" by blast+
qed

lemma authorize_resume_keeps:
  assumes step: "authorize_resume e b f permit task = (r, b')" and fl: "flight_of e fs b0 hs f"
    and P: "\<forall>u p. request_credentials e hs = Some (u, p) \<longrightarrow> p \<in> P"
    and S: "\<forall>u s. lookup_user fs b0 u = Some s \<longrightarrow> s \<in> S"
    and inv: "users_in S b" "remembered_ok e S P b"
  shows "users_in S b'" and "remembered_ok e S P b'" and "r = Inr hs' \<Longrightarrow> passes e fs b0 hs hs'"
proof -
  let ?w = "bf_wait f"
  obtain u where cred: "request_credentials e hs = Some (u, bw_password ?w)" and hs: "bf_headers f = hs"
    and wt: "bw_digest ?w = None \<or> lookup_user fs b0 u = Some (Argon2 (bw_hash ?w)) \<and>
      bw_digest ?w = Some (credential_digest e (Argon2 (bw_hash ?w)) (bw_password ?w))"
    using fl unfolding flight_of_def by blast
  obtain v b1 where vr: "verify_resume e b ?w permit task = (v, b1)" by (cases "verify_resume e b ?w permit task")
  have good: "bw_digest ?w \<noteq> None \<and> ae_argon2 e (bw_hash ?w) (bw_password ?w)" if "v = Inr True"
    using vr that by (auto simp: verify_resume_def verify_password_def split: option.splits if_splits)
  have ok: "password_ok e (Argon2 (bw_hash ?w)) (bw_password ?w)" if "ae_argon2 e (bw_hash ?w) (bw_password ?w)"
    using that by (simp add: password_ok_def)
  have "b1 = b \<or> (\<exists>d. bw_digest ?w = Some d \<and> ae_argon2 e (bw_hash ?w) (bw_password ?w) \<and> b1 = store_verified b d)"
    using vr by (auto simp: verify_resume_def verify_password_def split: option.splits if_splits)
  then have "users_in S b1 \<and> remembered_ok e S P b1"
  proof (elim disjE exE conjE)
    fix d
    assume d: "bw_digest ?w = Some d" "ae_argon2 e (bw_hash ?w) (bw_password ?w)" "b1 = store_verified b d"
    then have "remembered_ok e S P (store_verified b (credential_digest e (Argon2 (bw_hash ?w)) (bw_password ?w)))"
      using remembered_ok_store_verified [OF inv(2) _ _ ok] S P cred wt d by auto
    then show ?thesis using d wt inv(1) by simp
  qed (use inv in simp)
  moreover have fin: "authorize_end b1 (bf_client f) (bf_now f) hs v = (r, b')"
    using step vr hs by (simp add: authorize_resume_def)
  ultimately show "users_in S b'" and "remembered_ok e S P b'" using authorize_end_keeps(1,2) [OF fin] by simp_all
  show "passes e fs b0 hs hs'" if "r = Inr hs'"
  proof -
    have v: "v = Inr True" "hs' = hremove hs ''authorization''" using authorize_end_keeps(3) [OF fin that] by simp_all
    then show ?thesis using good [OF v(1)] ok wt cred unfolding passes_def by auto
  qed
qed

section \<open>Who passes\<close>

definition event_in :: "auth_env \<Rightarrow> stored_password set \<Rightarrow> string set \<Rightarrow> basic_event \<Rightarrow> bool" where
  "event_in e S P ev =
     (case ev of
        Arrive fs hs ip now \<Rightarrow> files_in S fs \<and> (\<forall>u p. request_credentials e hs = Some (u, p) \<longrightarrow> p \<in> P)
      | Resume i permit task \<Rightarrow> True)"

text \<open>A request that passed arrived in the run, with a password that its user had then.\<close>

definition admitted :: "auth_env \<Rightarrow> basic_authenticator \<Rightarrow> basic_event list \<Rightarrow> headers \<Rightarrow> bool" where
  "admitted e b0 es hs' \<longleftrightarrow>
     (\<exists>es1 fs hs ip now es2. es = es1 @ Arrive fs hs ip now # es2 \<and> passes e fs (fst (state_after e b0 es1)) hs hs')"

definition in_flight :: "auth_env \<Rightarrow> basic_authenticator \<Rightarrow> basic_event list \<Rightarrow> basic_flight \<Rightarrow> bool" where
  "in_flight e b0 es f \<longleftrightarrow>
     (\<exists>es1 fs hs ip now es2. es = es1 @ Arrive fs hs ip now # es2 \<and> flight_of e fs (fst (state_after e b0 es1)) hs f)"

definition run_ok ::
    "auth_env \<Rightarrow> stored_password set \<Rightarrow> string set \<Rightarrow> basic_authenticator \<Rightarrow> basic_event list \<Rightarrow> bool" where
  "run_ok e S P b0 es \<longleftrightarrow>
     users_in S (fst (state_after e b0 es)) \<and> remembered_ok e S P (fst (state_after e b0 es)) \<and>
     (\<forall>f \<in> set (snd (state_after e b0 es)). in_flight e b0 es f)"

lemma in_flight_snoc: "in_flight e b0 es f \<Longrightarrow> in_flight e b0 (es @ [ev]) f"
  unfolding in_flight_def by (metis append_Cons append_assoc)

lemma arrive_keeps:
  assumes ok: "run_ok e S P b0 es" and apart: "digests_apart e S P" and ev: "event_in e S P (Arrive fs hs ip now)"
  shows "run_ok e S P b0 (es @ [Arrive fs hs ip now])"
    and "fst (basic_step e (Arrive fs hs ip now) (state_after e b0 es)) = Some (Inr hs') \<Longrightarrow>
      admitted e b0 (es @ [Arrive fs hs ip now]) hs'"
proof -
  obtain b fl where st: "state_after e b0 es = (b, fl)" by (cases "state_after e b0 es")
  obtain res b' where ab: "authorize_begin e fs b hs ip now = (res, b')" by (cases "authorize_begin e fs b hs ip now")
  have i: "users_in S b" "remembered_ok e S P b" "files_in S fs"
    and P: "\<forall>u p. request_credentials e hs = Some (u, p) \<longrightarrow> p \<in> P"
    using ok ev st by (auto simp: run_ok_def event_in_def)
  note k = authorize_begin_keeps [OF ab apart P i]
  have old: "in_flight e b0 (es @ [Arrive fs hs ip now]) f" if "f \<in> set fl" for f
    using ok that st by (auto simp: run_ok_def intro: in_flight_snoc)
  have new: "in_flight e b0 (es @ [Arrive fs hs ip now]) f" if "res = Inr f" for f
    unfolding in_flight_def using k(4) [OF that] st
    by (intro exI [of _ es] exI [of _ fs] exI [of _ hs] exI [of _ ip] exI [of _ now] exI [of _ "[]"]) simp
  show "run_ok e S P b0 (es @ [Arrive fs hs ip now])"
    using k(1,2) old new by (cases res) (auto simp: run_ok_def st ab)
  show "admitted e b0 (es @ [Arrive fs hs ip now]) hs'"
    if "fst (basic_step e (Arrive fs hs ip now) (state_after e b0 es)) = Some (Inr hs')"
  proof -
    have "res = Inl (Inr hs')" using that by (cases res) (simp_all add: st ab)
    then have "passes e fs b hs hs'" by (rule k(3))
    then show ?thesis unfolding admitted_def using st
      by (intro exI [of _ es] exI [of _ fs] exI [of _ hs] exI [of _ ip] exI [of _ now] exI [of _ "[]"]) simp
  qed
qed

lemma resume_keeps:
  assumes prior: "\<forall>es1 es2. es = es1 @ es2 \<longrightarrow> run_ok e S P b0 es1" and evs: "list_all (event_in e S P) es"
  shows "run_ok e S P b0 (es @ [Resume i permit task])"
    and "fst (basic_step e (Resume i permit task) (state_after e b0 es)) = Some (Inr hs') \<Longrightarrow>
      admitted e b0 (es @ [Resume i permit task]) hs'"
proof -
  let ?ev = "Resume i permit task"
  have ok: "run_ok e S P b0 es" using prior by simp
  obtain b fl where st: "state_after e b0 es = (b, fl)" by (cases "state_after e b0 es")
  have inv: "users_in S b" "remembered_ok e S P b" using ok st by (auto simp: run_ok_def)
  have old: "in_flight e b0 (es @ [?ev]) f" if "f \<in> set fl" for f
    using ok that st by (auto simp: run_ok_def intro: in_flight_snoc)
  have "run_ok e S P b0 (es @ [?ev]) \<and>
    (fst (basic_step e ?ev (state_after e b0 es)) = Some (Inr hs') \<longrightarrow> admitted e b0 (es @ [?ev]) hs')"
  proof (cases "i < length fl")
    case False
    then show ?thesis using inv old by (simp add: run_ok_def st)
  next
    case True
    obtain r b' where ar: "authorize_resume e b (fl ! i) permit task = (r, b')"
      by (cases "authorize_resume e b (fl ! i) permit task")
    have "in_flight e b0 es (fl ! i)" using ok st True by (simp add: run_ok_def)
    then obtain es1 fs hs ip now es2 where es: "es = es1 @ Arrive fs hs ip now # es2"
      and f: "flight_of e fs (fst (state_after e b0 es1)) hs (fl ! i)"
      unfolding in_flight_def by blast
    have "run_ok e S P b0 es1" and ev: "event_in e S P (Arrive fs hs ip now)" using prior evs es by auto
    then have "users_in S (fst (state_after e b0 es1))" "remembered_ok e S P (fst (state_after e b0 es1))" "files_in S fs"
      by (auto simp: run_ok_def event_in_def)
    then have S: "\<forall>u s. lookup_user fs (fst (state_after e b0 es1)) u = Some s \<longrightarrow> s \<in> S"
      using get_user_keeps(3) by blast
    have P: "\<forall>u p. request_credentials e hs = Some (u, p) \<longrightarrow> p \<in> P" using ev by (simp add: event_in_def)
    note k = authorize_resume_keeps [OF ar f P S inv]
    have "set (take i fl @ drop (Suc i) fl) \<subseteq> set fl" by (auto dest: in_set_takeD in_set_dropD)
    then have "run_ok e S P b0 (es @ [?ev])" using k(1,2) old True by (auto simp: run_ok_def st ar)
    moreover have "admitted e b0 (es @ [?ev]) hs'" if "r = Inr hs'"
      unfolding admitted_def es using k(3) [OF that] by (metis append_Cons append_assoc)
    ultimately show ?thesis using True by (simp add: st ar)
  qed
  then show "run_ok e S P b0 (es @ [?ev])"
    and "fst (basic_step e ?ev (state_after e b0 es)) = Some (Inr hs') \<Longrightarrow> admitted e b0 (es @ [?ev]) hs'" by blast+
qed

lemma run_ok_prefixes:
  assumes apart: "digests_apart e S P" and start: "users_in S b0" "bz_verified b0 = []" and evs: "list_all (event_in e S P) es"
  shows "\<forall>es1 es2. es = es1 @ es2 \<longrightarrow> run_ok e S P b0 es1"
  using evs
proof (induction es rule: rev_induct)
  case Nil
  then show ?case using start by (simp add: run_ok_def remembered_ok_def)
next
  case (snoc ev es)
  then have IH: "\<forall>es1 es2. es = es1 @ es2 \<longrightarrow> run_ok e S P b0 es1" by simp
  have ok: "run_ok e S P b0 es" using IH by simp
  have "run_ok e S P b0 (es @ [ev])"
  proof (cases ev)
    case (Arrive fs hs ip now)
    then show ?thesis using arrive_keeps(1) [OF ok apart] snoc.prems by simp
  next
    case (Resume i permit task)
    then show ?thesis using resume_keeps(1) [OF IH] snoc.prems by simp
  qed
  then show ?case using IH by (metis append_assoc append_eq_append_conv2 append_self_conv butlast_append butlast_snoc)
qed


section \<open>Passwords that are tried at once\<close>

lemma arrive_unblocked:
  assumes "bz_attempts b = []" and "bz_verified b = []" and "map_of (bz_users b) u = Some (Argon2 h)"
    and "request_credentials e hs = Some (u, p)"
  shows "authorize_begin e fs b hs ip now =
    (Inr \<lparr>bf_client = canonical_client_ip ip, bf_now = now, bf_headers = hs,
       bf_wait = \<lparr>bw_hash = h, bw_password = p, bw_digest = Some (credential_digest e (Argon2 h) p)\<rparr>\<rparr>, b)"
proof -
  have "b\<lparr>bz_attempts := []\<rparr> = b" using assms(1) by (cases b) simp
  then show ?thesis
    using assms by (simp add: authorize_begin_def check_blocked_def verify_begin_def get_user_def Let_def)
qed

definition guess_flight :: "auth_env \<Rightarrow> string \<Rightarrow> ip_addr \<Rightarrow> instant \<Rightarrow> headers \<Rightarrow> basic_flight" where
  "guess_flight e h ip now hs =
     (let p = snd (the (request_credentials e hs)) in
      \<lparr>bf_client = canonical_client_ip ip, bf_now = now, bf_headers = hs,
       bf_wait = \<lparr>bw_hash = h, bw_password = p, bw_digest = Some (credential_digest e (Argon2 h) p)\<rparr>\<rparr>)"

lemma arrivals_unblocked:
  assumes "bz_attempts b = []" and "bz_verified b = []" and "map_of (bz_users b) u = Some (Argon2 h)"
  shows "list_all (\<lambda>hs. \<exists>p. request_credentials e hs = Some (u, p)) hss \<Longrightarrow>
    basic_outcomes e (b, fl) (map (\<lambda>hs. Arrive fs hs ip now) hss @ rest) =
    basic_outcomes e (b, fl @ map (guess_flight e h ip now) hss) rest"
proof (induction hss arbitrary: fl)
  case (Cons hs hss)
  then obtain p where "request_credentials e hs = Some (u, p)" by auto
  then show ?case using Cons arrive_unblocked [OF assms] by (simp add: guess_flight_def)
qed simp

lemma resumptions_answer:
  "basic_outcomes e (b, map (guess_flight e h ip now) hss) (replicate (length hss) (Resume 0 True True)) =
     map (\<lambda>hs. if ae_argon2 e h (snd (the (request_credentials e hs)))
        then Inr (hremove hs ''authorization'') else Inl (Unauthorized (bz_challenge b))) hss"
proof (induction hss arbitrary: b)
  case (Cons hs hss)
  let ?f = "guess_flight e h ip now hs" and ?ok = "ae_argon2 e h (snd (the (request_credentials e hs)))"
  obtain r b' where ar: "authorize_resume e b ?f True True = (r, b')" by (cases "authorize_resume e b ?f True True")
  then have "r = (if ?ok then Inr (hremove hs ''authorization'') else Inl (Unauthorized (bz_challenge b)))"
    and "bz_challenge b' = bz_challenge b"
    by (auto simp: authorize_resume_def verify_resume_def verify_password_def guess_flight_def authorize_end_def Let_def
        basic_unauthorized_def record_basic_failure_def record_basic_success_def store_verified_def split: if_splits)
  then show ?case using Cons.IH [of b'] ar by simp
qed simp


section \<open>Examples\<close>

definition race_config :: basic_auth where
  "race_config = \<lparr>bg_realm = [],
     bg_users = [\<lparr>bu_username = ''a'', bu_password = [], bu_password_hash = ''$argon2x'', bu_password_set = False\<rparr>],
     bg_user_file = None\<rparr>"

definition race_fs :: file_system where
  "race_fs _ = \<lparr>fi_metadata = None, fi_content = None\<rparr>"

definition race_headers :: "string \<Rightarrow> headers" where
  "race_headers p = [(''authorization'', ''Basic a:'' @ p), (''te'', ''x'')]"

abbreviation race_start :: basic_authenticator where
  "race_start \<equiv> basic_new sample_auth_env race_fs race_config"

lemma race_credentials: "request_credentials sample_auth_env (race_headers ''x'') = Some (''a'', ''x'')"
  by code_simp

lemma race_users: "bz_users race_start = [(''a'', Argon2 ''$argon2x'')] \<and> fu_users (bz_file_users race_start) = []"
  by code_simp



end
