(* ===== verification/Spec2Isabelle.thy ===== *)
theory Spec2Isabelle
  imports Circuit Balancer Group Group_Run Group_Registry Router Pool Client_Ip Request_Limits Rate Cache_Run Pipeline_Safety Grpc_Proto Group_Liveness Deploy_Rules Proxied_Response Basic_Limit Basic_Race
begin

text \<open>
  A verification of the reverse proxy r3v3rs3: the path of an HTTP request from the listener to an upstream
  server and back, the state that requests share, and the rules around it that decide something.

  \<^bold>\<open>The program.\<close>  A port of the server (\<open>r3v3rs3/src/proxy\<close>) accepts connections; \<open>proxy/http/mod.rs\<close> takes each
  HTTP request through \<open>proxied_response\<close>: \<open>route_request\<close> finds the route of the request (\<open>route.rs\<close>,
  \<open>filter.rs\<close>), finds out which client sent it (\<open>client_ip.rs\<close>), applies the policies of the route (maintenance,
  bots, address filter, rate limit, redirects, body size, authentication, fixed answers, concurrency limit) and
  prepares the request for the upstream server (\<open>rewriter.rs\<close>, \<open>header_rules.rs\<close>, \<open>trace.rs\<close>, \<open>priority.rs\<close>,
  \<open>grpc_web.rs\<close>).  A routed request goes through the cache (\<open>cache.rs\<close>) to the pool (\<open>pool.rs\<close>), which asks the
  upstream group of the route (\<open>proxy/health.rs\<close>) for the order of its servers, acquires permits from their
  circuit breakers and repeats failed attempts.  The answers feed the quarantine of clients
  (\<open>security/quarantine.rs\<close>).  Groups, limiters and caches live in registries (\<open>registry.rs\<close>) and survive a
  reload of the configuration, whose types and checks are the crate \<open>r3v3rs3-api\<close>.  Beside the proxy the program
  has an admin API, certificates, service discovery and a deployment platform.

  \<^bold>\<open>Conventions.\<close>  A \<open>&mut self\<close> method is a function that returns the new state; \<open>Result<T, E>\<close> is
  \<open>E + T\<close>; a time that the code reads is an argument in nanoseconds; a \<open>str\<close> is the list of its bytes; a
  \<open>HeaderMap\<close> is the list of its fields with lower-case names; a \<open>HashMap\<close> is an association list with distinct
  keys, or a map where nothing iterates over it.  Integers that may wrap are words or carry their modulus;
  an \<open>f64\<close> is a rational number that is rounded after each operation.  Shared atomics are cells of a store, and
  concurrency is a step relation whose steps are the atomic operations.  Code of other crates (regular
  expressions, URLs, networks, the token bucket, the cache store, cryptography, HTTP clients, clocks and random
  numbers) is a field of a record of parameters.

  \<^bold>\<open>Upstream servers.\<close>
  \<^item> Circuit: \<open>Circuit\<close>, \<open>Breaker\<close> and \<open>CircuitBreaker\<close>.  The counters refine a specification that keeps the list
    of outcomes of the window.
  \<^item> F64, Upstream, Balancer: the policies of \<open>UpstreamGroup::order\<close>.  Every policy permutes the servers (locale
    \<open>server_order\<close>); those that sort by a key share the locale \<open>keyed_order\<close>.  Smooth weighted round robin is
    exactly fair, the least connections policy picks the smallest ratio in spite of rounding.
  \<^item> Group, Group_Run, Group_Liveness: \<open>UpstreamGroup\<close>, \<open>Permit\<close>, \<open>ConnGuard\<close>, \<open>Probe\<close> and \<open>inherit_state\<close>.  In every
    interleaving the connection counters are the permits that are out and at most one trial runs per server; every
    circuit can close again; a reload keeps the state of the servers, except that a reload during a trial blocks
    the server of the new group for good.
  \<^item> Registry, Group_Registry: \<open>WeakRegistry\<close> (locale \<open>weak_registry\<close>) and \<open>GroupRegistry\<close>.
  \<^item> Affinity, Pool: sticky sessions, \<open>select\<close> and \<open>send_with_retries\<close>.  Retries are bounded, go to the next
    server and repeat only what may be repeated.
  \<^item> Grpc_Proto: \<open>grpc/proto.rs\<close>, \<open>grpc/health.rs\<close> and \<open>probe_grpc\<close>.  The probe passes exactly serving servers and
    the walk over an answer ends as long as no length leaves the range of \<open>usize\<close>; one answer on which it never
    ends is given.

  \<^bold>\<open>Requests.\<close>
  \<^item> Ip_Text, Vhost, Request_Filter, Router: addresses as text, virtual hosts, path normalization, and \<open>get_route\<close>,
    which picks a most specific route.
  \<^item> Http_Headers, Cookie, Client_Ip, Rewriter: header fields and cookies, the address of the client, and the
    headers that the next hop sees.  A client cannot forge its address through trusted proxies.
  \<^item> Rewrite, Header_Rules, Early_Data, Stream_Priority, Grpc_Web, Proxy_Error, Api_Error: path rewriting, redirects
    and fixed answers; header rules, whose text format round trips; the anti-replay buffer; stream priorities; gRPC
    for browsers; errors and their statuses.
  \<^item> Request_Limits, Rate: body size, concurrency and rate limits, also shared between nodes.
  \<^item> Request_Checks, Pipeline, Pipeline_Safety: \<open>route_request\<close> with everything that it calls.  A request reaches a
    server only after every check of its route, carries no credentials of the proxy there, and one that ends early
    holds no slot of a limiter.
  \<^item> Quarantine, Proxied_Response: the tracker and the handler around it.  A client is banned by its own violations
    only, and a banned one reaches no server.

  \<^item> Auth, Basic_Auth, Basic_Limit, Basic_Race: the authenticators \<open>auth/bearer.rs\<close>, \<open>auth/forward.rs\<close> and \<open>auth/basic.rs\<close>.
    A bearer token passes exactly when its digest is configured.  The headers that an external service sets come from
    its answer to the very request.  In every interleaving only a password that the user had on arrival passes Basic
    authentication.  Requests that follow one another have at most eighteen wrong passwords tried in a minute; requests
    in flight together escape that limit.

  \<^bold>\<open>The cache.\<close>  Cache_Rules, Cache and Cache_Run model \<open>cache.rs\<close> and \<open>cache_share.rs\<close>: what may be stored, for how
  long, what a request may be answered with, and the recording of bodies.  In every interleaving the cache keeps only
  responses that may be shared between users, and one request per key is on its way upstream.

  \<^bold>\<open>Deployments.\<close>  Deploy_Rules models tag patterns, deployment windows, the checks of Git names and what a push
  deploys.  The matcher of patterns agrees with their recursive meaning and always returns.

  \<^bold>\<open>Loops.\<close>  Loops are structural recursion or \<open>function\<close>s with a measure, without fuel.  Two loops whose end is not
  evident are \<open>partial_function\<close>s: the walk over a health answer and the matcher of tag patterns; that they return is
  a theorem.

  \<^bold>\<open>Not modelled.\<close> Sockets, TLS, HTTP/1.1, HTTP/2 and QUIC framing, the tasks that carry
  requests and the bytes of responses are the work of tokio, hyper, rustls and quinn.  The sign-in page and
  OpenID Connect (\<open>auth/session.rs\<close>, \<open>auth/oidc.rs\<close>) rest on signed tokens, accounts in
  the storage and remote services; the pipeline takes the verdict of an authenticator as a parameter, so it does
  not depend on which one a route has.  Logs, statistics and counters for display decide nothing.  The TCP and
  UDP proxies move bytes around the modelled group.  The admin API, the accounts, the storage of the
  configuration, certificates and ACME, service discovery, the remote agent and the deployment platform are
  handlers over a database, a container runtime or remote services, apart from the rules named above.  The
  command line and the web interface are user interfaces.
\<close>

end
